(* ===== verification/Prelude.thy ===== *)
theory Prelude
  imports Main "HOL-Library.Word" "HOL-Library.AList" "HOL-Library.Multiset"
    "HOL-Library.Product_Lexorder" "HOL-Library.List_Lexorder"
begin

text \<open>
  Shared vocabulary of the development: machine integers and byte strings, Rust's
  \<open>Result\<close> as a sum type with its \<open>?\<close> operator, big-endian integers, saturating
  arithmetic, UTF-8 validity, and the association lists that stand for \<open>HashMap\<close>.
  Nothing here is specific to sqns; the component theories build on it.
\<close>

named_theorems parse_intros \<open>rules that run a decoder over the encoding of a value\<close>
named_theorems consume_dests \<open>rules that recover the bytes a successful decoder consumed\<close>
named_theorems wf_defs \<open>well-formedness predicates of the data model\<close>

section \<open>Machine types\<close>

type_synonym byte = "8 word"
type_synonym bytes = "byte list"
type_synonym u16 = "16 word"
type_synonym u32 = "32 word"
type_synonym u64 = "64 word"

text \<open>Rust's \<open>u64::MAX\<close> and its saturating operations.\<close>

abbreviation u64_max :: u64 where
  "u64_max \<equiv> - 1"

definition saturating_add :: "'a::len word \<Rightarrow> 'a word \<Rightarrow> 'a word" where
  "saturating_add a b = (if unat a + unat b < 2 ^ LENGTH('a) then a + b else - 1)"

definition saturating_sub :: "'a::len word \<Rightarrow> 'a word \<Rightarrow> 'a word" where
  "saturating_sub a b = (if a \<le> b then 0 else a - b)"

lemma unat_less_pow: "unat (w :: 'a::len word) < 2 ^ LENGTH('a)"
  by (rule unsigned_less)

lemma unat_max_word: "unat (- 1 :: 'a::len word) = 2 ^ LENGTH('a) - 1"
  by (simp add: unsigned_minus_1_eq_mask mask_eq_exp_minus_1)

lemma unat_saturating_add:
  "unat (saturating_add a (b :: 'a::len word)) = min (unat a + unat b) (2 ^ LENGTH('a) - 1)"
  by (auto simp: saturating_add_def unat_word_ariths unat_max_word min_def)

lemma saturating_add_ge: "a \<le> saturating_add a (b :: 'a::len word)"
proof -
  have "unat a < 2 ^ LENGTH('a)" by (rule unat_less_pow)
  then have "unat a \<le> unat (saturating_add a b)"
    unfolding unat_saturating_add by linarith
  then show ?thesis by (simp add: word_le_nat_alt)
qed

lemma unat_saturating_sub: "unat (saturating_sub a (b :: 'a::len word)) = unat a - unat b"
  by (auto simp: saturating_sub_def word_le_nat_alt unat_sub)

section \<open>Results\<close>

text \<open>\<open>Result<T, E>\<close> is a sum with the error on the left; \<open>rbind\<close> is the \<open>?\<close> operator.\<close>

fun rbind :: "'e + 'a \<Rightarrow> ('a \<Rightarrow> 'e + 'b) \<Rightarrow> 'e + 'b" where
  "rbind (Inl e) f = Inl e"
| "rbind (Inr x) f = f x"

text \<open>\<open>guard c e\<close> is the early return \<open>if !c { return Err(e) }\<close>.\<close>

definition guard :: "bool \<Rightarrow> 'e \<Rightarrow> 'e + unit" where
  "guard c e = (if c then Inr () else Inl e)"

definition is_ok :: "'e + 'a \<Rightarrow> bool" where
  "is_ok r = (case r of Inl _ \<Rightarrow> False | Inr _ \<Rightarrow> True)"

lemma rbind_Inr_iff [simp]: "rbind m f = Inr y \<longleftrightarrow> (\<exists>x. m = Inr x \<and> f x = Inr y)"
  by (cases m) auto

lemma rbind_Inl_iff:
  "rbind m f = Inl e \<longleftrightarrow> m = Inl e \<or> (\<exists>x. m = Inr x \<and> f x = Inl e)"
  by (cases m) auto

lemma rbind_assoc: "rbind (rbind m f) g = rbind m (\<lambda>x. rbind (f x) g)"
  by (cases m) auto

lemma guard_Inr_iff [simp]: "guard c e = Inr u \<longleftrightarrow> c"
  by (auto simp: guard_def)

lemma guard_Inl_iff [simp]: "guard c e = Inl e' \<longleftrightarrow> \<not> c \<and> e' = e"
  by (auto simp: guard_def)

lemma is_ok_simps [simp]: "is_ok (Inr x)" "\<not> is_ok (Inl e)"
  by (simp_all add: is_ok_def)

lemma is_ok_iff: "is_ok r \<longleftrightarrow> (\<exists>x. r = Inr x)"
  by (cases r) auto

section \<open>Big-endian integers\<close>

text \<open>\<open>to_be_bytes\<close> and \<open>from_be_bytes\<close> of Rust's unsigned integers.\<close>

fun be_bytes :: "nat \<Rightarrow> nat \<Rightarrow> bytes" where
  "be_bytes 0 n = []"
| "be_bytes (Suc k) n = be_bytes k (n div 256) @ [of_nat (n mod 256)]"

definition be_val :: "bytes \<Rightarrow> nat" where
  "be_val bs = foldl (\<lambda>acc b. acc * 256 + unat b) 0 bs"

definition to_be_bytes :: "'a::len word \<Rightarrow> bytes" where
  "to_be_bytes w = be_bytes (LENGTH('a) div 8) (unat w)"

definition from_be_bytes :: "bytes \<Rightarrow> 'a::len word" where
  "from_be_bytes bs = of_nat (be_val bs)"

lemma length_be_bytes [simp]: "length (be_bytes k n) = k"
  by (induction k arbitrary: n) auto

lemma length_to_be_bytes [simp]: "length (to_be_bytes (w :: 'a::len word)) = LENGTH('a) div 8"
  by (simp add: to_be_bytes_def)

lemma be_val_Nil [simp]: "be_val [] = 0"
  by (simp add: be_val_def)

lemma be_val_snoc [simp]: "be_val (bs @ [b]) = be_val bs * 256 + unat b"
  by (simp add: be_val_def)

lemma be_val_be_bytes: "be_val (be_bytes k n) = n mod 256 ^ k"
proof (induction k arbitrary: n)
  case 0
  then show ?case by simp
next
  case (Suc k)
  have "be_val (be_bytes (Suc k) n) = (n div 256) mod 256 ^ k * 256 + n mod 256"
    by (simp add: Suc.IH unat_of_nat)
  also have "\<dots> = n mod (256 * 256 ^ k)"
    by (simp add: mod_mult2_eq)
  finally show ?case by simp
qed

lemma be_bytes_be_val: "be_bytes (length bs) (be_val bs) = bs"
proof (induction bs rule: rev_induct)
  case Nil
  then show ?case by simp
next
  case (snoc b bs)
  have b: "unat b < 256" using unat_less_pow [of b] by simp
  then have "(be_val bs * 256 + unat b) div 256 = be_val bs"
    and "(be_val bs * 256 + unat b) mod 256 = unat b"
    by simp_all
  with snoc show ?case by simp
qed

lemma be_val_less: "be_val bs < 256 ^ length bs"
proof -
  have "be_val (be_bytes (length bs) (be_val bs)) < 256 ^ length bs"
    unfolding be_val_be_bytes by simp
  then show ?thesis by (simp only: be_bytes_be_val)
qed

lemma pow_256: "(256::nat) ^ k = 2 ^ (8 * k)"
  by (simp add: power_mult)

lemma from_to_be_bytes:
  assumes "LENGTH('a) mod 8 = 0"
  shows "from_be_bytes (to_be_bytes (w :: 'a::len word)) = w"
proof -
  from assms have "8 * (LENGTH('a) div 8) = LENGTH('a)" by auto
  then have "(256::nat) ^ (LENGTH('a) div 8) = 2 ^ LENGTH('a)" by (simp add: pow_256)
  then show ?thesis
    by (simp add: from_be_bytes_def to_be_bytes_def be_val_be_bytes)
qed

lemma to_from_be_bytes:
  assumes "LENGTH('a) = 8 * length bs"
  shows "to_be_bytes (from_be_bytes bs :: 'a::len word) = bs"
proof -
  have "be_val bs < 2 ^ LENGTH('a)"
    using be_val_less [of bs] by (simp add: pow_256 assms)
  then have "unat (of_nat (be_val bs) :: 'a word) = be_val bs"
    by (simp add: unat_of_nat)
  then show ?thesis
    using assms by (simp add: to_be_bytes_def from_be_bytes_def be_bytes_be_val)
qed

section \<open>Strings\<close>

text \<open>
  A Rust \<open>String\<close> is its UTF-8 bytes; \<open>len\<close> counts bytes. \<open>lit\<close> gives the bytes of an
  ASCII literal. \<open>utf8_valid\<close> is the check of \<open>String::from_utf8\<close>: shortest forms only,
  no surrogates, nothing above U+10FFFF.
\<close>

type_synonym rstring = bytes

definition lit :: "string \<Rightarrow> rstring" where
  "lit s = map of_char s"

definition utf8_cont :: "byte \<Rightarrow> bool" where
  "utf8_cont b \<longleftrightarrow> 0x80 \<le> b \<and> b \<le> 0xBF"

fun utf8_valid :: "bytes \<Rightarrow> bool" where
  "utf8_valid [] = True"
| "utf8_valid (b0 # bs) =
     (if b0 < 0x80 then utf8_valid bs
      else if 0xC2 \<le> b0 \<and> b0 \<le> 0xDF then
        (case bs of b1 # r \<Rightarrow> utf8_cont b1 \<and> utf8_valid r | _ \<Rightarrow> False)
      else if 0xE0 \<le> b0 \<and> b0 \<le> 0xEF then
        (case bs of b1 # b2 # r \<Rightarrow>
           utf8_cont b1 \<and> utf8_cont b2 \<and>
           (b0 = 0xE0 \<longrightarrow> 0xA0 \<le> b1) \<and> (b0 = 0xED \<longrightarrow> b1 \<le> 0x9F) \<and> utf8_valid r
         | _ \<Rightarrow> False)
      else if 0xF0 \<le> b0 \<and> b0 \<le> 0xF4 then
        (case bs of b1 # b2 # b3 # r \<Rightarrow>
           utf8_cont b1 \<and> utf8_cont b2 \<and> utf8_cont b3 \<and>
           (b0 = 0xF0 \<longrightarrow> 0x90 \<le> b1) \<and> (b0 = 0xF4 \<longrightarrow> b1 \<le> 0x8F) \<and> utf8_valid r
         | _ \<Rightarrow> False)
      else False)"

lemma utf8_valid_ascii: "\<forall>b \<in> set bs. b < 0x80 \<Longrightarrow> utf8_valid bs"
  by (induction bs) auto

section \<open>Hash maps\<close>

text \<open>
  A \<open>HashMap\<close> is an association list with distinct keys; the order of the list stands for
  the map's unspecified iteration order. \<open>get\<close> is \<open>map_of\<close>, \<open>insert\<close> is
  \<open>AList.update\<close>, \<open>remove\<close> is \<open>AList.delete\<close> and \<open>retain\<close> is \<open>filter\<close>.
\<close>

type_synonym ('k, 'v) hashmap = "('k \<times> 'v) list"

declare map_of_eq_Some_iff [simp del]

abbreviation hm_wf :: "('k, 'v) hashmap \<Rightarrow> bool" where
  "hm_wf m \<equiv> distinct (map fst m)"

lemma hm_wf_update [simp]: "hm_wf m \<Longrightarrow> hm_wf (AList.update k v m)"
  by (rule AList.distinct_update)

lemma hm_wf_filter [simp]: "hm_wf m \<Longrightarrow> hm_wf (filter P m)"
  by (induction m) auto

lemma map_of_update [simp]: "map_of (AList.update k v m) = (map_of m)(k \<mapsto> v)"
  by (rule AList.update_conv')

lemma map_of_filter:
  "hm_wf m \<Longrightarrow>
   map_of (filter P m) k = (case map_of m k of None \<Rightarrow> None | Some v \<Rightarrow> if P (k, v) then Some v else None)"
  by (induction m) (auto split: option.splits simp: map_of_eq_None_iff rev_image_eqI)

lemma hm_values_iff: "hm_wf m \<Longrightarrow> v \<in> set (map snd m) \<longleftrightarrow> (\<exists>k. map_of m k = Some v)"
  by (force simp: map_of_eq_Some_iff)

lemma map_of_perm:
  assumes "hm_wf m" and "mset m = mset m'"
  shows "map_of m = map_of m'"
proof -
  have "set m = set m'" using assms(2) by (metis set_mset_mset)
  moreover have "hm_wf m'"
    using assms by (metis mset_map mset_eq_imp_distinct_iff)
  ultimately show ?thesis using assms(1) by (simp add: map_of_inject_set)
qed

end
