(* ===== verification/Errors.thy ===== *)
theory Errors
  imports Prelude
begin

text \<open>
  The error type of \<open>crates/sqns-core/src/error.rs\<close>. Every variant of the source is a
  constructor. A message that the source builds with \<open>format!\<close> is kept as its template and
  arguments (\<open>Msg template numbers byte_strings\<close>) instead of the rendered text, and a public
  key inside an error is kept as its 32 bytes instead of its base58 form. Rendering an error as
  text (\<open>to_string\<close>, which \<open>thiserror\<close> generates) is a parameter of the operations that
  send the text on the wire.
\<close>

datatype msg = Msg string "nat list" "bytes list"

datatype error =
    E_Io msg
  | E_Key msg
  | E_Base58Decode msg
  | E_Protocol msg
  | E_Record msg
  | E_Signature msg
  | E_Expired u64
  | E_KeyMismatch bytes bytes
  | E_Address msg
  | E_Revoked bytes "bytes option" rstring
  | E_Downgrade bytes
  | E_Superseded bytes bytes
  | E_SupersedeChain msg
  | E_Delegation msg
  | E_Unpublished bytes
  | E_Connection msg
  | E_NoServer msg
  | E_Server u16 rstring

type_synonym 'a res = "error + 'a"

text \<open>A message with no arguments.\<close>

abbreviation plain :: "string \<Rightarrow> msg" where
  "plain s \<equiv> Msg s [] []"

end
