(* ===== verification/Codec.thy ===== *)
theory Codec
  imports Errors
begin

text \<open>
  The bounds-checked cursor and the string writers of
  \<open>crates/sqns-core/src/codec.rs\<close>, and the contract every encoder/decoder pair of the system
  keeps (locale \<open>wire_codec\<close>): a decoder reads back exactly what the encoder wrote, and
  accepts nothing but the encoder's own bytes. The locale is interpreted here for the
  primitive fields and in the later theories for delegations, endpoints, records and
  messages.
\<close>

section \<open>The reader\<close>

record reader =
  rd_buf :: bytes
  rd_pos :: nat

type_synonym 'a rd = "reader \<Rightarrow> ('a \<times> reader) res"

definition reader_new :: "bytes \<Rightarrow> reader" where
  "reader_new b = \<lparr>rd_buf = b, rd_pos = 0\<rparr>"

definition remaining :: "reader \<Rightarrow> nat" where
  "remaining r = length (rd_buf r) - rd_pos r"

definition rd_is_empty :: "reader \<Rightarrow> bool" where
  "rd_is_empty r \<longleftrightarrow> remaining r = 0"

definition rd_take :: "nat \<Rightarrow> string \<Rightarrow> bytes rd" where
  "rd_take n what r =
     (if remaining r < n
      then Inl (E_Record (Msg ''truncated while reading {what}: need {n} bytes, {} left''
                           [n, remaining r] [lit what]))
      else Inr (take n (drop (rd_pos r) (rd_buf r)), r\<lparr>rd_pos := rd_pos r + n\<rparr>))"

text \<open>Sequencing of reads: \<open>let x = r.read()?; ...\<close>.\<close>

definition rd_return :: "'a \<Rightarrow> 'a rd" where
  "rd_return x r = Inr (x, r)"

definition rd_fail :: "error \<Rightarrow> 'a rd" where
  "rd_fail e r = Inl e"

text \<open>\<open>f(x)?\<close> inside a decoder, for an \<open>f\<close> that reads nothing.\<close>

definition rd_lift :: "'a res \<Rightarrow> 'a rd" where
  "rd_lift m r = (case m of Inl e \<Rightarrow> Inl e | Inr x \<Rightarrow> Inr (x, r))"

definition rd_bind :: "'a rd \<Rightarrow> ('a \<Rightarrow> 'b rd) \<Rightarrow> 'b rd" where
  "rd_bind m f r = (case m r of Inl e \<Rightarrow> Inl e | Inr (x, r') \<Rightarrow> f x r')"

text \<open>\<open>for _ in 0..n { out.push(read()?) }\<close>\<close>

fun rd_many :: "nat \<Rightarrow> 'a rd \<Rightarrow> 'a list rd" where
  "rd_many 0 m = rd_return []"
| "rd_many (Suc n) m = rd_bind m (\<lambda>x. rd_bind (rd_many n m) (\<lambda>xs. rd_return (x # xs)))"

definition rd_u8 :: "string \<Rightarrow> byte rd" where
  "rd_u8 what = rd_bind (rd_take 1 what) (\<lambda>b. rd_return (b ! 0))"

definition rd_u16 :: "string \<Rightarrow> u16 rd" where
  "rd_u16 what = rd_bind (rd_take 2 what) (\<lambda>b. rd_return (from_be_bytes [b ! 0, b ! 1]))"

definition rd_u32 :: "string \<Rightarrow> u32 rd" where
  "rd_u32 what = rd_bind (rd_take 4 what)
     (\<lambda>b. rd_return (from_be_bytes [b ! 0, b ! 1, b ! 2, b ! 3]))"

definition rd_u64 :: "string \<Rightarrow> u64 rd" where
  "rd_u64 what = rd_bind (rd_take 8 what)
     (\<lambda>b. rd_return (from_be_bytes
        [b ! 0, b ! 1, b ! 2, b ! 3, b ! 4, b ! 5, b ! 6, b ! 7]))"

definition rd_bytes :: "nat \<Rightarrow> string \<Rightarrow> bytes rd" where
  "rd_bytes n what = rd_take n what"

definition rd_array :: "nat \<Rightarrow> string \<Rightarrow> bytes rd" where
  "rd_array N what = rd_bind (rd_take N what) (\<lambda>b. rd_return b)"

definition from_utf8 :: "string \<Rightarrow> bytes \<Rightarrow> rstring res" where
  "from_utf8 what b =
     (if utf8_valid b then Inr b else Inl (E_Record (Msg ''{what} is not valid UTF-8'' [] [lit what])))"

definition rd_short_string :: "string \<Rightarrow> rstring rd" where
  "rd_short_string what =
     rd_bind (rd_u8 what) (\<lambda>len.
     rd_bind (rd_take (unat len) what) (\<lambda>b.
     rd_lift (from_utf8 what b)))"

definition rd_string :: "string \<Rightarrow> rstring rd" where
  "rd_string what =
     rd_bind (rd_u16 what) (\<lambda>len.
     rd_bind (rd_take (unat len) what) (\<lambda>b.
     rd_lift (from_utf8 what b)))"

definition rd_finish :: "string \<Rightarrow> reader \<Rightarrow> unit res" where
  "rd_finish what r =
     (if remaining r \<noteq> 0
      then Inl (E_Record (Msg ''{what}: {} trailing bytes'' [remaining r] [lit what]))
      else Inr ())"

text \<open>
  The shape of every \<open>decode(bytes)\<close> of the source: a reader over the bytes, one decoder,
  then \<open>finish\<close>.
\<close>

definition rd_full :: "'a rd \<Rightarrow> string \<Rightarrow> bytes \<Rightarrow> 'a res" where
  "rd_full m what b =
     rbind (m (reader_new b)) (\<lambda>(x, r). rbind (rd_finish what r) (\<lambda>_. Inr x))"

text \<open>The length prefixes are \<open>as u8\<close> and \<open>as u16\<close> casts, so they wrap.\<close>

definition put_short_string :: "bytes \<Rightarrow> rstring \<Rightarrow> bytes" where
  "put_short_string buf s = buf @ [of_nat (length s)] @ s"

definition put_string :: "bytes \<Rightarrow> rstring \<Rightarrow> bytes" where
  "put_string buf s = buf @ to_be_bytes (of_nat (length s) :: u16) @ s"

section \<open>What a decoder consumes\<close>

definition rest :: "reader \<Rightarrow> bytes" where
  "rest r = drop (rd_pos r) (rd_buf r)"

definition advance :: "nat \<Rightarrow> reader \<Rightarrow> reader" where
  "advance n r = r\<lparr>rd_pos := rd_pos r + n\<rparr>"

text \<open>\<open>parses m x bs\<close>: on any input that starts with \<open>bs\<close>, \<open>m\<close> reads exactly \<open>bs\<close> and returns \<open>x\<close>.\<close>

definition parses :: "'a rd \<Rightarrow> 'a \<Rightarrow> bytes \<Rightarrow> bool" where
  "parses m x bs \<longleftrightarrow> (\<forall>r t. rest r = bs @ t \<longrightarrow> m r = Inr (x, advance (length bs) r))"

text \<open>\<open>consumed r r' bs\<close>: going from \<open>r\<close> to \<open>r'\<close> read exactly \<open>bs\<close>.\<close>

definition consumed :: "reader \<Rightarrow> reader \<Rightarrow> bytes \<Rightarrow> bool" where
  "consumed r r' bs \<longleftrightarrow> (\<exists>t. rest r = bs @ t) \<and> r' = advance (length bs) r"

lemma remaining_rest: "remaining r = length (rest r)"
  by (simp add: remaining_def rest_def)

lemma rest_new [simp]: "rest (reader_new b) = b"
  by (simp add: rest_def reader_new_def)

lemma rest_advance [simp]: "rest (advance n r) = drop n (rest r)"
  by (simp add: rest_def advance_def add.commute)

lemma rd_buf_advance [simp]: "rd_buf (advance n r) = rd_buf r"
  by (simp add: advance_def)

lemma rd_pos_advance [simp]: "rd_pos (advance n r) = rd_pos r + n"
  by (simp add: advance_def)

lemma advance_0 [simp]: "advance 0 r = r"
  by (simp add: advance_def)

lemma advance_advance [simp]: "advance n (advance m r) = advance (m + n) r"
  by (simp add: advance_def)

lemma rd_take_eq:
  "rd_take n what r =
     (if length (rest r) < n
      then Inl (E_Record (Msg ''truncated while reading {what}: need {n} bytes, {} left''
                           [n, length (rest r)] [lit what]))
      else Inr (take n (rest r), advance n r))"
  unfolding rd_take_def remaining_def rest_def advance_def length_drop by (rule refl)

lemma rd_bind_Inr_iff:
  "rd_bind m f r = Inr (y, r') \<longleftrightarrow> (\<exists>x r1. m r = Inr (x, r1) \<and> f x r1 = Inr (y, r'))"
  by (auto simp: rd_bind_def split: sum.splits)

lemma rd_return_Inr_iff [simp]: "rd_return x r = Inr (y, r') \<longleftrightarrow> y = x \<and> r' = r"
  by (auto simp: rd_return_def)

lemma rd_fail_Inr [simp]: "rd_fail e r \<noteq> Inr y"
  by (simp add: rd_fail_def)

lemma rd_lift_Inr_iff [simp]: "rd_lift m r = Inr (x, r') \<longleftrightarrow> m = Inr x \<and> r' = r"
  by (auto simp: rd_lift_def split: sum.splits)

lemma consumed_refl [simp]: "consumed r r []"
  by (simp add: consumed_def)

lemma consumed_trans: "consumed r r1 a \<Longrightarrow> consumed r1 r' b \<Longrightarrow> consumed r r' (a @ b)"
  by (auto simp: consumed_def)

lemma consumed_Cons: "consumed r r1 [x] \<Longrightarrow> consumed r1 r' b \<Longrightarrow> consumed r r' (x # b)"
  using consumed_trans [of r r1 "[x]" r' b] by simp

lemma parses_return [parse_intros]: "parses (rd_return x) x []"
  by (simp add: parses_def rd_return_def)

lemma parses_lift [parse_intros]: "m = Inr x \<Longrightarrow> parses (rd_lift m) x []"
  by (simp add: parses_def rd_lift_def)

lemma parses_lift_then: "m = Inr x \<Longrightarrow> parses (f x) y b \<Longrightarrow> parses (rd_bind (rd_lift m) f) y b"
  by (auto simp: parses_def rd_bind_def rd_lift_def)

lemma parses_bind [parse_intros]:
  assumes "parses m x a" and "parses (f x) y b"
  shows "parses (rd_bind m f) y (a @ b)"
  using assms by (auto simp: parses_def rd_bind_def)

lemma parses_bind_return [parse_intros]:
  assumes "parses m x a"
  shows "parses (rd_bind m (\<lambda>x. rd_return (g x))) (g x) a"
  using assms by (auto simp: parses_def rd_bind_def rd_return_def)

lemma parses_take [parse_intros]: "length bs = n \<Longrightarrow> parses (rd_take n what) bs bs"
  by (simp add: parses_def rd_take_eq)

lemma rd_take_consumed [consume_dests]:
  "rd_take n what r = Inr (b, r') \<Longrightarrow> length b = n \<and> consumed r r' b"
  by (auto simp: rd_take_eq consumed_def split: if_splits) (metis append_take_drop_id)

section \<open>The contract of an encoder and its decoder\<close>

locale wire_codec =
  fixes enc :: "'a \<Rightarrow> bytes"
    and dec :: "'a rd"
    and wf :: "'a \<Rightarrow> bool"
  assumes dec_enc: "wf x \<Longrightarrow> parses dec x (enc x)"
    and dec_canonical: "dec r = Inr (x, r') \<Longrightarrow> wf x \<and> consumed r r' (enc x)"
begin

text \<open>How a decoder that starts with \<open>dec\<close> runs.\<close>

lemma enc_then: "wf x \<Longrightarrow> parses (f x) y b \<Longrightarrow> parses (rd_bind dec f) y (enc x @ b)"
  by (rule parses_bind [OF dec_enc])

lemma enc_last: "wf x \<Longrightarrow> y = g x \<Longrightarrow> parses (rd_bind dec (\<lambda>x. rd_return (g x))) y (enc x)"
  using parses_bind_return [OF dec_enc, of x g] by simp

text \<open>The encoding is prefix-free, hence injective.\<close>

lemma enc_prefix_free:
  assumes "wf x" and "wf y" and "enc x @ s = enc y @ t"
  shows "x = y \<and> s = t"
proof -
  let ?r = "reader_new (enc x @ s)"
  have "dec ?r = Inr (x, advance (length (enc x)) ?r)"
    using dec_enc [OF assms(1)] by (simp add: parses_def)
  moreover have "dec ?r = Inr (y, advance (length (enc y)) ?r)"
    using dec_enc [OF assms(2)] assms(3) by (simp add: parses_def)
  ultimately show ?thesis using assms(3) by simp
qed

lemma enc_inj: "wf x \<Longrightarrow> wf y \<Longrightarrow> enc x = enc y \<Longrightarrow> x = y"
  using enc_prefix_free [of x y "[]" "[]"] by simp

text \<open>A whole-buffer decode succeeds on exactly the encodings.\<close>

lemma full_iff: "rd_full dec what bs = Inr x \<longleftrightarrow> wf x \<and> bs = enc x"
proof
  assume "rd_full dec what bs = Inr x"
  then obtain r where r: "dec (reader_new bs) = Inr (x, r)" and "rest r = []"
    by (auto simp: rd_full_def rd_finish_def remaining_rest split: if_splits)
  with dec_canonical [OF r] show "wf x \<and> bs = enc x"
    by (auto simp: consumed_def)
next
  assume "wf x \<and> bs = enc x"
  then have "dec (reader_new bs) = Inr (x, advance (length bs) (reader_new bs))"
    using dec_enc [of x] by (simp add: parses_def)
  then show "rd_full dec what bs = Inr x"
    by (simp add: rd_full_def rd_finish_def remaining_rest)
qed

text \<open>Sequences of a known length.\<close>

lemma many_enc:
  "\<forall>x \<in> set xs. wf x \<Longrightarrow> parses (rd_many (length xs) dec) xs (concat (map enc xs))"
proof (induction xs)
  case Nil
  show ?case by (simp add: parses_return)
next
  case (Cons x xs)
  then have "parses dec x (enc x)"
    and "parses (rd_many (length xs) dec) xs (concat (map enc xs))"
    by (auto intro: dec_enc)
  then show ?case by (auto intro!: parse_intros)
qed

lemma many_canonical:
  "rd_many n dec r = Inr (xs, r') \<Longrightarrow>
   length xs = n \<and> (\<forall>x \<in> set xs. wf x) \<and> consumed r r' (concat (map enc xs))"
proof (induction n arbitrary: r xs)
  case 0
  then show ?case by simp
next
  case (Suc n)
  from Suc.prems obtain x r1 ys where x: "dec r = Inr (x, r1)"
    and ys: "rd_many n dec r1 = Inr (ys, r')" and xs: "xs = x # ys"
    by (auto simp: rd_bind_Inr_iff)
  from dec_canonical [OF x] Suc.IH [OF ys] show ?case
    by (auto simp: xs intro: consumed_trans)
qed

end

section \<open>Primitive fields\<close>

lemma rd_u8_consumed: "rd_u8 what r = Inr (x, r') \<Longrightarrow> consumed r r' [x]"
  by (auto simp: rd_u8_def rd_bind_Inr_iff length_Suc_conv dest!: rd_take_consumed)

lemma parses_u8 [parse_intros]: "parses (rd_u8 what) x [x]"
  unfolding rd_u8_def
  using parses_bind_return [OF parses_take [of "[x]" 1], of what "\<lambda>b. b ! 0"] by simp

interpretation u8: wire_codec "\<lambda>b. [b]" "rd_u8 what" "\<lambda>_. True" for what
  by unfold_locales (auto intro: parses_u8 dest: rd_u8_consumed)

text \<open>
  The fixed-width integers share one argument: reading \<open>n\<close> bytes and assembling them
  big-endian inverts \<open>to_be_bytes\<close>.
\<close>

lemma rd_bind_take_cong:
  assumes "\<And>b. length b = n \<Longrightarrow> f b = g b"
  shows "rd_bind (rd_take n what) f = rd_bind (rd_take n what) g"
  using assms by (auto simp: rd_bind_def rd_take_eq fun_eq_iff)

lemma nths_2: "length b = 2 \<Longrightarrow> [b ! 0, b ! 1] = b"
  by (auto simp: numeral_eq_Suc length_Suc_conv)

lemma nths_4: "length b = 4 \<Longrightarrow> [b ! 0, b ! 1, b ! 2, b ! 3] = b"
  by (auto simp: numeral_eq_Suc length_Suc_conv)

lemma nths_8:
  "length b = 8 \<Longrightarrow> [b ! 0, b ! 1, b ! 2, b ! 3, b ! 4, b ! 5, b ! 6, b ! 7] = b"
  by (auto simp: numeral_eq_Suc length_Suc_conv)

definition rd_int :: "nat \<Rightarrow> string \<Rightarrow> 'a::len word rd" where
  "rd_int n what = rd_bind (rd_take n what) (\<lambda>b. rd_return (from_be_bytes b))"

lemma rd_u16_int: "rd_u16 what = rd_int 2 what"
  unfolding rd_u16_def rd_int_def by (rule rd_bind_take_cong) (simp only: nths_2)

lemma rd_u32_int: "rd_u32 what = rd_int 4 what"
  unfolding rd_u32_def rd_int_def by (rule rd_bind_take_cong) (simp only: nths_4)

lemma rd_u64_int: "rd_u64 what = rd_int 8 what"
  unfolding rd_u64_def rd_int_def by (rule rd_bind_take_cong) (simp only: nths_8)

lemma parses_int:
  assumes "LENGTH('a) = 8 * n"
  shows "parses (rd_int n what) (w :: 'a::len word) (to_be_bytes w)"
proof -
  have "length (to_be_bytes w) = n" using assms by simp
  from parses_bind_return [OF parses_take [OF this], of what "from_be_bytes :: bytes \<Rightarrow> 'a word"]
  show ?thesis using assms by (simp add: rd_int_def from_to_be_bytes)
qed

lemma rd_int_consumed:
  assumes "LENGTH('a) = 8 * n" and "rd_int n what r = Inr (w :: 'a::len word, r')"
  shows "consumed r r' (to_be_bytes w)"
  using assms by (auto simp: rd_int_def rd_bind_Inr_iff to_from_be_bytes dest!: rd_take_consumed)

interpretation u16: wire_codec "to_be_bytes :: u16 \<Rightarrow> bytes" "rd_u16 what" "\<lambda>_. True" for what
  by unfold_locales (auto simp: rd_u16_int intro: parses_int rd_int_consumed)

interpretation u32: wire_codec "to_be_bytes :: u32 \<Rightarrow> bytes" "rd_u32 what" "\<lambda>_. True" for what
  by unfold_locales (auto simp: rd_u32_int intro: parses_int rd_int_consumed)

interpretation u64: wire_codec "to_be_bytes :: u64 \<Rightarrow> bytes" "rd_u64 what" "\<lambda>_. True" for what
  by unfold_locales (auto simp: rd_u64_int intro: parses_int rd_int_consumed)

lemma rd_array_take: "rd_array n what = rd_take n what"
  by (auto simp: rd_array_def rd_bind_def rd_return_def fun_eq_iff split: sum.splits)

interpretation array: wire_codec "\<lambda>b. b" "rd_array n what" "\<lambda>b. length b = n" for n what
  by unfold_locales (auto simp: rd_array_take intro: parses_take dest: rd_take_consumed)

lemma from_utf8_iff [simp]: "from_utf8 what b = Inr s \<longleftrightarrow> utf8_valid b \<and> s = b"
  by (auto simp: from_utf8_def)

text \<open>A string fits its length prefix.\<close>

definition short_string_ok :: "rstring \<Rightarrow> bool" where
  [wf_defs]: "short_string_ok s \<longleftrightarrow> utf8_valid s \<and> length s \<le> 255"

definition string_ok :: "rstring \<Rightarrow> bool" where
  [wf_defs]: "string_ok s \<longleftrightarrow> utf8_valid s \<and> length s \<le> 65535"

lemma unat_of_nat_u8: "n \<le> 255 \<Longrightarrow> unat (of_nat n :: byte) = n"
  by (simp add: unat_of_nat)

lemma unat_of_nat_u16: "n \<le> 65535 \<Longrightarrow> unat (of_nat n :: u16) = n"
  by (simp add: unat_of_nat)

lemma unat_of_nat_u32: "n \<le> 4294967295 \<Longrightarrow> unat (of_nat n :: u32) = n"
  by (simp add: unat_of_nat)

interpretation short_string: wire_codec "put_short_string []" "rd_short_string what" short_string_ok
  for what
proof
  fix s assume s: "short_string_ok s"
  let ?n = "of_nat (length s) :: byte"
  have "unat ?n = length s"
    using s by (simp add: short_string_ok_def unat_of_nat_u8)
  then have "parses (rd_take (unat ?n) what) s s" by (simp add: parses_take)
  then have "parses (rd_short_string what) s ([?n] @ s @ [])"
    unfolding rd_short_string_def
    using s parses_u8 by (intro parses_bind parses_lift) (auto simp: short_string_ok_def)
  then show "parses (rd_short_string what) s (put_short_string [] s)"
    by (simp add: put_short_string_def)
next
  fix r s r' assume "rd_short_string what r = Inr (s, r')"
  then obtain n r1 where n: "rd_u8 what r = Inr (n, r1)"
    and s: "rd_take (unat n) what r1 = Inr (s, r')" and v: "utf8_valid s"
    by (auto simp: rd_short_string_def rd_bind_Inr_iff)
  have len: "length s = unat n" and "consumed r r' ([n] @ s)"
    using rd_take_consumed [OF s] rd_u8_consumed [OF n] by (auto intro: consumed_Cons)
  moreover have "unat n \<le> 255" using unat_less_pow [of n] by simp
  ultimately show "short_string_ok s \<and> consumed r r' (put_short_string [] s)"
    using v by (simp add: short_string_ok_def put_short_string_def)
qed

interpretation string: wire_codec "put_string []" "rd_string what" string_ok for what
proof
  fix s assume s: "string_ok s"
  let ?n = "of_nat (length s) :: u16"
  have "unat ?n = length s"
    using s by (simp add: string_ok_def unat_of_nat_u16)
  then have "parses (rd_take (unat ?n) what) s s" by (simp add: parses_take)
  then have "parses (rd_string what) s (to_be_bytes ?n @ s @ [])"
    unfolding rd_string_def
    using s u16.dec_enc by (intro parses_bind parses_lift) (auto simp: string_ok_def)
  then show "parses (rd_string what) s (put_string [] s)"
    by (simp add: put_string_def)
next
  fix r s r' assume "rd_string what r = Inr (s, r')"
  then obtain n r1 where n: "rd_u16 what r = Inr (n, r1)"
    and s: "rd_take (unat n) what r1 = Inr (s, r')" and v: "utf8_valid s"
    by (auto simp: rd_string_def rd_bind_Inr_iff)
  have len: "length s = unat n" and "consumed r r' (to_be_bytes n @ s)"
    using rd_take_consumed [OF s] u16.dec_canonical [OF n] by (auto intro: consumed_trans)
  moreover have "unat n \<le> 65535" using unat_less_pow [of n] by simp
  ultimately show "string_ok s \<and> consumed r r' (put_string [] s)"
    using v by (simp add: string_ok_def put_string_def)
qed

lemma parses_u8_then: "parses (f x) y b \<Longrightarrow> parses (rd_bind (rd_u8 what) f) y (x # b)"
  using u8.enc_then [OF TrueI, of f x y b what] by simp

lemmas field_thens =
  parses_u8_then u16.enc_then [OF TrueI] u32.enc_then [OF TrueI] u64.enc_then [OF TrueI]
  array.enc_then short_string.enc_then string.enc_then
  u16.enc_last [OF TrueI] u32.enc_last [OF TrueI] u64.enc_last [OF TrueI]
  array.enc_last short_string.enc_last string.enc_last

lemma consumed_u8:
  "rd_u8 what r = Inr (x, r1) \<Longrightarrow> consumed r1 r' b \<Longrightarrow> consumed r r' (x # b)"
  by (rule consumed_Cons [OF rd_u8_consumed])

lemmas field_consumed =
  u16.dec_canonical u32.dec_canonical u64.dec_canonical
  array.dec_canonical short_string.dec_canonical string.dec_canonical

text \<open>Each read lands inside the buffer: the cursor never passes the end.\<close>

lemma consumed_pos:
  "consumed r r' bs \<Longrightarrow> rd_pos r \<le> length (rd_buf r) \<Longrightarrow>
   rd_buf r' = rd_buf r \<and> rd_pos r' = rd_pos r + length bs \<and> rd_pos r' \<le> length (rd_buf r')"
proof -
  assume c: "consumed r r' bs" and p: "rd_pos r \<le> length (rd_buf r)"
  have r': "r' = advance (length bs) r" and "length bs \<le> length (rest r)"
    using c by (auto simp: consumed_def)
  then have "length bs \<le> length (rd_buf r) - rd_pos r" by (simp add: rest_def)
  with p show ?thesis unfolding r' by simp
qed

end
