(* ===== verification/Key.thy ===== *)
theory Key
  imports Codec
begin

text \<open>
  Public keys of \<open>crates/sqns-core/src/key.rs\<close>, and the interface to the Ed25519
  implementation. \<open>ed25519_dalek\<close> is a third-party crate: its operations are the fields of
  the records \<open>verifier\<close> (what a server or a client without private keys calls) and
  \<open>ed25519\<close> (which adds signing), and what the code relies on is the named hypothesis
  \<open>ed25519_correct\<close>.
\<close>

section \<open>The Ed25519 interface\<close>

record verifier =
  vk_ok :: "bytes \<Rightarrow> bool" \<comment> \<open>\<open>VerifyingKey::from_bytes\<close> succeeds\<close>
  vk_verify :: "bytes \<Rightarrow> bytes \<Rightarrow> bytes \<Rightarrow> bool" \<comment> \<open>\<open>vk.verify(msg, sig)\<close> of a key, a message, a signature\<close>

record 'sk ed25519 = verifier +
  sk_public :: "'sk \<Rightarrow> bytes" \<comment> \<open>\<open>sk.verifying_key().to_bytes()\<close>\<close>
  sk_sign :: "'sk \<Rightarrow> bytes \<Rightarrow> bytes" \<comment> \<open>\<open>sk.sign(msg).to_bytes()\<close>\<close>

text \<open>
  Documented behaviour of Ed25519: public keys are 32 bytes and valid, signatures are 64
  bytes, and a signature verifies under the key that made it.
\<close>

definition ed25519_correct :: "'sk ed25519 \<Rightarrow> bool" where
  "ed25519_correct c \<longleftrightarrow>
     (\<forall>sk. length (sk_public c sk) = 32 \<and> vk_ok c (sk_public c sk)) \<and>
     (\<forall>sk m. length (sk_sign c sk m) = 64 \<and>
             vk_verify c (sk_public c sk) m (sk_sign c sk m))"

lemma ed25519_correctD:
  assumes "ed25519_correct c"
  shows "length (sk_public c sk) = 32" "vk_ok c (sk_public c sk)"
    "length (sk_sign c sk m) = 64" "vk_verify c (sk_public c sk) m (sk_sign c sk m)"
  using assms by (simp_all add: ed25519_correct_def)

text \<open>
  An instance, for the witnesses: a signing key is one byte, its public key repeats the byte
  32 times, and a signature is the public key twice. It is correct in the sense above (and, being forgeable, nothing more).
\<close>

definition toy_ed25519 :: "byte ed25519" where
  "toy_ed25519 =
     \<lparr>vk_ok = (\<lambda>k. length k = 32),
      vk_verify = (\<lambda>k m s. s = k @ k),
      sk_public = (\<lambda>sk. replicate 32 sk),
      sk_sign = (\<lambda>sk m. replicate 32 sk @ replicate 32 sk)\<rparr>"

lemma toy_ed25519_correct: "ed25519_correct toy_ed25519"
  by (simp add: ed25519_correct_def toy_ed25519_def)

lemma toy_ed25519_simps [simp]:
  "vk_ok toy_ed25519 k = (length k = 32)"
  "vk_verify toy_ed25519 k m s = (s = k @ k)"
  "sk_public toy_ed25519 sk = replicate 32 sk"
  "sk_sign toy_ed25519 sk m = replicate 32 sk @ replicate 32 sk"
  by (simp_all add: toy_ed25519_def)

section \<open>Public keys\<close>

datatype pubkey = PubKey (as_bytes: bytes)

definition pubkey_ok :: "pubkey \<Rightarrow> bool" where
  [wf_defs]: "pubkey_ok k \<longleftrightarrow> length (as_bytes k) = 32"

text \<open>The derived \<open>Ord\<close> of \<open>PubKey\<close> compares the bytes lexicographically.\<close>

instantiation pubkey :: linorder
begin

definition less_eq_pubkey :: "pubkey \<Rightarrow> pubkey \<Rightarrow> bool" where
  "less_eq_pubkey a b \<longleftrightarrow> as_bytes a \<le> as_bytes b"

definition less_pubkey :: "pubkey \<Rightarrow> pubkey \<Rightarrow> bool" where
  "less_pubkey a b \<longleftrightarrow> as_bytes a < as_bytes b"

instance
  by standard (auto simp: less_eq_pubkey_def less_pubkey_def pubkey.expand)

end

definition verifying_key :: "'v verifier_scheme \<Rightarrow> pubkey \<Rightarrow> bytes res" where
  "verifying_key c k =
     (if vk_ok c (as_bytes k) then Inr (as_bytes k)
      else Inl (E_Key (plain ''not a valid Ed25519 public key'')))"

definition from_slice :: "bytes \<Rightarrow> pubkey res" where
  "from_slice raw =
     (if length raw \<noteq> 32
      then Inl (E_Key (Msg ''public key must be 32 bytes, got {}'' [length raw] []))
      else Inr (PubKey raw))"

definition public_of :: "'sk ed25519 \<Rightarrow> 'sk \<Rightarrow> pubkey" where
  "public_of c sk = PubKey (sk_public c sk)"

lemma verifying_key_iff [simp]:
  "verifying_key c k = Inr b \<longleftrightarrow> vk_ok c (as_bytes k) \<and> b = as_bytes k"
  by (auto simp: verifying_key_def)

lemma as_bytes_public_of [simp]: "as_bytes (public_of c sk) = sk_public c sk"
  by (simp add: public_of_def)

lemma public_of_ok: "ed25519_correct c \<Longrightarrow> pubkey_ok (public_of c sk)"
  by (simp add: pubkey_ok_def ed25519_correctD)

lemma from_slice_iff: "from_slice raw = Inr k \<longleftrightarrow> length raw = 32 \<and> k = PubKey raw"
  by (auto simp: from_slice_def)

text \<open>A key read off the wire.\<close>

definition rd_pubkey :: "string \<Rightarrow> pubkey rd" where
  "rd_pubkey what = rd_bind (rd_array 32 what) (\<lambda>b. rd_return (PubKey b))"

interpretation pubkey: wire_codec as_bytes "rd_pubkey what" pubkey_ok for what
proof
  fix k assume "pubkey_ok k"
  then have "parses (rd_array 32 what) (as_bytes k) (as_bytes k)"
    by (simp add: pubkey_ok_def array.dec_enc)
  from parses_bind_return [OF this, of PubKey]
  show "parses (rd_pubkey what) k (as_bytes k)" by (simp add: rd_pubkey_def)
next
  fix r k r' assume "rd_pubkey what r = Inr (k, r')"
  then show "pubkey_ok k \<and> consumed r r' (as_bytes k)"
    by (auto simp: rd_pubkey_def rd_bind_Inr_iff pubkey_ok_def dest!: array.dec_canonical)
qed

end
