(* ===== verification/Records.thy ===== *)
theory Records
  imports Key
begin

text \<open>
  The data model and the rules of \<open>crates/sqns-core/src/record.rs\<close>: hosts, endpoints,
  delegations, records and signed records, who must sign what, when a record expires, when one
  record replaces another, and the checks a server and a client run. The byte encodings are in
  the theory \<open>Record_Codec\<close>, the encoders only (\<open>encode\<close>) are here because the signature
  covers them. Every reading of the clock (\<open>now_unix()\<close>) is an argument \<open>now\<close>.
\<close>

section \<open>Constants\<close>

definition RECORD_VERSION :: byte where "RECORD_VERSION = 4"
definition SIG_CONTEXT :: bytes where "SIG_CONTEXT = lit ''sqns-record-v4''"
definition DELEGATION_CONTEXT :: bytes where "DELEGATION_CONTEXT = lit ''sqns-delegation-v2''"
definition NEVER_EXPIRES :: u64 where "NEVER_EXPIRES = u64_max"
definition MAX_REASON_LEN :: nat where "MAX_REASON_LEN = 256"
definition MAX_ENDPOINTS :: nat where "MAX_ENDPOINTS = 255"
definition MIN_TTL :: u32 where "MIN_TTL = 30"
definition MAX_TTL :: u32 where "MAX_TTL = 604800"
definition MAX_CLOCK_SKEW :: u64 where "MAX_CLOCK_SKEW = 300"
definition BODY_LIVE :: byte where "BODY_LIVE = 1"
definition BODY_SUPERSEDED :: byte where "BODY_SUPERSEDED = 2"
definition BODY_REVOKED :: byte where "BODY_REVOKED = 3"
definition HOST_V4 :: byte where "HOST_V4 = 1"
definition HOST_V6 :: byte where "HOST_V6 = 2"
definition HOST_NAME :: byte where "HOST_NAME = 3"

lemmas record_consts =
  RECORD_VERSION_def SIG_CONTEXT_def DELEGATION_CONTEXT_def NEVER_EXPIRES_def
  MAX_REASON_LEN_def MAX_ENDPOINTS_def MIN_TTL_def MAX_TTL_def MAX_CLOCK_SKEW_def
  BODY_LIVE_def BODY_SUPERSEDED_def BODY_REVOKED_def HOST_V4_def HOST_V6_def HOST_NAME_def

section \<open>Hosts and endpoints\<close>

text \<open>Address literals are kept as their octets.\<close>

datatype ip_addr = IpV4 bytes | IpV6 bytes

datatype host = V4 bytes | V6 bytes | Name rstring

fun is_ipv6 :: "host \<Rightarrow> bool" where
  "is_ipv6 (V6 _) = True"
| "is_ipv6 _ = False"

fun host_ip :: "host \<Rightarrow> ip_addr option" where
  "host_ip (V4 a) = Some (IpV4 a)"
| "host_ip (V6 a) = Some (IpV6 a)"
| "host_ip (Name _) = None"

fun host_from_ip :: "ip_addr \<Rightarrow> host" where
  "host_from_ip (IpV4 a) = V4 a"
| "host_from_ip (IpV6 a) = V6 a"

record endpoint =
  ep_host :: host
  ep_port :: u16
  ep_priority :: u16
  ep_weight :: u16

definition endpoint_new :: "host \<Rightarrow> u16 \<Rightarrow> endpoint" where
  "endpoint_new h p = \<lparr>ep_host = h, ep_port = p, ep_priority = 0, ep_weight = 1\<rparr>"

definition with_priority :: "endpoint \<Rightarrow> u16 \<Rightarrow> endpoint" where
  "with_priority e p = e\<lparr>ep_priority := p\<rparr>"

definition with_weight :: "endpoint \<Rightarrow> u16 \<Rightarrow> endpoint" where
  "with_weight e w = e\<lparr>ep_weight := w\<rparr>"

definition endpoint_encode_into :: "endpoint \<Rightarrow> bytes \<Rightarrow> bytes" where
  "endpoint_encode_into e buf =
     (let buf = buf @ to_be_bytes (ep_priority e);
          buf = buf @ to_be_bytes (ep_weight e);
          buf = buf @ to_be_bytes (ep_port e)
      in case ep_host e of
           V4 a \<Rightarrow> buf @ [HOST_V4] @ a
         | V6 a \<Rightarrow> buf @ [HOST_V6] @ a
         | Name n \<Rightarrow> put_short_string (buf @ [HOST_NAME]) n)"

section \<open>Delegations\<close>

record delegation =
  dl_identity :: pubkey
  dl_not_after :: u64
  dl_signature :: bytes

definition delegation_message :: "pubkey \<Rightarrow> pubkey \<Rightarrow> u64 \<Rightarrow> bytes" where
  "delegation_message identity service_key not_after =
     DELEGATION_CONTEXT @ as_bytes identity @ as_bytes service_key @ to_be_bytes not_after"

definition delegation_issue :: "'sk ed25519 \<Rightarrow> 'sk \<Rightarrow> pubkey \<Rightarrow> u64 \<Rightarrow> delegation" where
  "delegation_issue c identity service_key not_after =
     (let identity_pub = public_of c identity;
          m = delegation_message identity_pub service_key not_after
      in \<lparr>dl_identity = identity_pub, dl_not_after = not_after, dl_signature = sk_sign c identity m\<rparr>)"

definition delegation_verify :: "'v verifier_scheme \<Rightarrow> delegation \<Rightarrow> pubkey \<Rightarrow> unit res" where
  "delegation_verify c d service_key =
     rbind (verifying_key c (dl_identity d)) (\<lambda>vk.
     if vk_verify c vk (delegation_message (dl_identity d) service_key (dl_not_after d)) (dl_signature d)
     then Inr ()
     else Inl (E_Delegation (Msg ''the delegation over {service_key} is not signed by {}'' []
                [as_bytes service_key, as_bytes (dl_identity d)])))"

definition delegation_is_expired :: "delegation \<Rightarrow> u64 \<Rightarrow> bool" where
  "delegation_is_expired d now \<longleftrightarrow> dl_not_after d \<noteq> NEVER_EXPIRES \<and> now \<ge> dl_not_after d"

definition delegation_never_expires :: "delegation \<Rightarrow> bool" where
  "delegation_never_expires d \<longleftrightarrow> dl_not_after d = NEVER_EXPIRES"

definition delegation_encode_into :: "delegation \<Rightarrow> bytes \<Rightarrow> bytes" where
  "delegation_encode_into d buf =
     (let buf = buf @ as_bytes (dl_identity d);
          buf = buf @ to_be_bytes (dl_not_after d)
      in buf @ dl_signature d)"

section \<open>Records\<close>

datatype record_body =
    Live "endpoint list"
  | Superseded pubkey rstring
  | Revoked rstring

record sqns_record =
  rec_key :: pubkey
  rec_delegation :: delegation
  rec_serial :: u64
  rec_issued_at :: u64
  rec_ttl :: u32
  rec_body :: record_body

definition record_live ::
  "u64 \<Rightarrow> pubkey \<Rightarrow> delegation \<Rightarrow> u64 \<Rightarrow> u32 \<Rightarrow> endpoint list \<Rightarrow> sqns_record" where
  "record_live now key delegation serial ttl endpoints =
     \<lparr>rec_key = key, rec_delegation = delegation, rec_serial = serial,
      rec_issued_at = now, rec_ttl = ttl, rec_body = Live endpoints\<rparr>"

definition record_superseded ::
  "u64 \<Rightarrow> pubkey \<Rightarrow> delegation \<Rightarrow> u64 \<Rightarrow> pubkey \<Rightarrow> rstring \<Rightarrow> sqns_record" where
  "record_superseded now key delegation serial successor reason =
     \<lparr>rec_key = key, rec_delegation = delegation, rec_serial = serial,
      rec_issued_at = now, rec_ttl = MAX_TTL, rec_body = Superseded successor reason\<rparr>"

definition record_revoked ::
  "u64 \<Rightarrow> pubkey \<Rightarrow> delegation \<Rightarrow> u64 \<Rightarrow> rstring \<Rightarrow> sqns_record" where
  "record_revoked now key delegation serial reason =
     \<lparr>rec_key = key, rec_delegation = delegation, rec_serial = serial,
      rec_issued_at = now, rec_ttl = MAX_TTL, rec_body = Revoked reason\<rparr>"

definition rec_identity :: "sqns_record \<Rightarrow> pubkey" where
  "rec_identity r = dl_identity (rec_delegation r)"

definition expected_signer :: "sqns_record \<Rightarrow> pubkey" where
  "expected_signer r =
     (case rec_body r of
        Live _ \<Rightarrow> rec_key r
      | Superseded _ _ \<Rightarrow> rec_identity r
      | Revoked _ \<Rightarrow> rec_identity r)"

definition endpoints :: "sqns_record \<Rightarrow> endpoint list" where
  "endpoints r = (case rec_body r of Live eps \<Rightarrow> eps | _ \<Rightarrow> [])"

definition successor :: "sqns_record \<Rightarrow> pubkey option" where
  "successor r = (case rec_body r of Superseded s _ \<Rightarrow> Some s | _ \<Rightarrow> None)"

definition is_superseded :: "sqns_record \<Rightarrow> bool" where
  "is_superseded r = (case rec_body r of Superseded _ _ \<Rightarrow> True | _ \<Rightarrow> False)"

definition is_revoked :: "sqns_record \<Rightarrow> bool" where
  "is_revoked r = (case rec_body r of Revoked _ \<Rightarrow> True | _ \<Rightarrow> False)"

definition is_terminal :: "sqns_record \<Rightarrow> bool" where
  "is_terminal r \<longleftrightarrow> is_superseded r \<or> is_revoked r"

definition is_withdrawal :: "sqns_record \<Rightarrow> bool" where
  "is_withdrawal r = (case rec_body r of Live eps \<Rightarrow> eps = [] | _ \<Rightarrow> False)"

definition expires_at :: "sqns_record \<Rightarrow> u64" where
  "expires_at r =
     (if is_terminal r then u64_max else saturating_add (rec_issued_at r) (ucast (rec_ttl r)))"

definition is_expired :: "sqns_record \<Rightarrow> u64 \<Rightarrow> bool" where
  "is_expired r now \<longleftrightarrow> \<not> is_terminal r \<and> now \<ge> expires_at r"

definition rec_remaining :: "sqns_record \<Rightarrow> u64 \<Rightarrow> u64" where
  "rec_remaining r now = saturating_sub (expires_at r) now"

text \<open>\<open>sort_by_key\<close> is stable, as \<open>sort_key\<close> is; \<open>Reverse\<close> is the negated key.\<close>

definition by_priority :: "sqns_record \<Rightarrow> endpoint list" where
  "by_priority r = sort_key (\<lambda>e. (uint (ep_priority e), - uint (ep_weight e))) (endpoints r)"

definition supersedes :: "sqns_record \<Rightarrow> sqns_record \<Rightarrow> bool" where
  "supersedes self other =
     (if is_terminal other then False
      else if is_terminal self then True
      else (rec_serial self, rec_issued_at self) > (rec_serial other, rec_issued_at other))"

definition check_reason :: "rstring \<Rightarrow> unit res" where
  "check_reason reason =
     (if length reason > MAX_REASON_LEN
      then Inl (E_Record (Msg ''reason must be at most {MAX_REASON_LEN} bytes, got {}'' [length reason] []))
      else Inr ())"

definition validate :: "'v verifier_scheme \<Rightarrow> sqns_record \<Rightarrow> unit res" where
  "validate c r =
     rbind (verifying_key c (rec_key r)) (\<lambda>_.
     rbind (verifying_key c (dl_identity (rec_delegation r))) (\<lambda>_.
     if dl_identity (rec_delegation r) = rec_key r
     then Inl (E_Delegation (plain ''a service key cannot be its own identity''))
     else (case rec_body r of
        Live eps \<Rightarrow>
          (if length eps > MAX_ENDPOINTS
           then Inl (E_Record (Msg ''at most {MAX_ENDPOINTS} endpoints, got {}'' [length eps] []))
           else if \<not> (MIN_TTL \<le> rec_ttl r \<and> rec_ttl r \<le> MAX_TTL)
           then Inl (E_Record (Msg ''ttl must be {MIN_TTL}..={MAX_TTL} seconds, got {}'' [unat (rec_ttl r)] []))
           else Inr ())
      | Superseded succ reason \<Rightarrow>
          rbind (verifying_key c succ) (\<lambda>_.
          if succ = rec_key r
          then Inl (E_Record (plain ''a key cannot be superseded by itself''))
          else check_reason reason)
      | Revoked reason \<Rightarrow> check_reason reason)))"

definition record_encode :: "sqns_record \<Rightarrow> bytes" where
  "record_encode r =
     (let buf = [RECORD_VERSION];
          buf = buf @ as_bytes (rec_key r);
          buf = delegation_encode_into (rec_delegation r) buf;
          buf = buf @ to_be_bytes (rec_serial r);
          buf = buf @ to_be_bytes (rec_issued_at r);
          buf = buf @ to_be_bytes (rec_ttl r)
      in case rec_body r of
           Live eps \<Rightarrow> fold endpoint_encode_into eps (buf @ [BODY_LIVE] @ [of_nat (length eps)])
         | Superseded succ reason \<Rightarrow> put_string (buf @ [BODY_SUPERSEDED] @ as_bytes succ) reason
         | Revoked reason \<Rightarrow> put_string (buf @ [BODY_REVOKED]) reason)"

section \<open>Signed records\<close>

record signed_record =
  sr_record :: sqns_record
  sr_signature :: bytes

definition signed_message :: "bytes \<Rightarrow> bytes" where
  "signed_message record_bytes = SIG_CONTEXT @ record_bytes"

definition record_sign :: "'sk ed25519 \<Rightarrow> sqns_record \<Rightarrow> 'sk \<Rightarrow> signed_record res" where
  "record_sign c r sk =
     (let signer = public_of c sk; expected = expected_signer r in
      if signer \<noteq> expected
      then Inl (E_Signature (case rec_body r of
             Live _ \<Rightarrow> Msg ''a live record for {} must be signed by it, not by {signer}'' []
                         [as_bytes (rec_key r), as_bytes signer]
           | _ \<Rightarrow> Msg ''retiring {} takes its identity {}, but it was signed by {signer}'' []
                    [as_bytes (rec_key r), as_bytes (rec_identity r), as_bytes signer]))
      else Inr \<lparr>sr_record = r, sr_signature = sk_sign c sk (signed_message (record_encode r))\<rparr>)"

definition sr_key :: "signed_record \<Rightarrow> pubkey" where
  "sr_key s = rec_key (sr_record s)"

definition sr_identity :: "signed_record \<Rightarrow> pubkey" where
  "sr_identity s = rec_identity (sr_record s)"

definition sr_verify :: "'v verifier_scheme \<Rightarrow> signed_record \<Rightarrow> unit res" where
  "sr_verify c s =
     rbind (delegation_verify c (rec_delegation (sr_record s)) (rec_key (sr_record s))) (\<lambda>_.
     let signer = expected_signer (sr_record s) in
     rbind (verifying_key c signer) (\<lambda>vk.
     if vk_verify c vk (signed_message (record_encode (sr_record s))) (sr_signature s)
     then Inr ()
     else Inl (E_Signature (Msg ''the record for {} is not signed by {signer}'' []
                 [as_bytes (rec_key (sr_record s)), as_bytes signer]))))"

definition verify_answer :: "'v verifier_scheme \<Rightarrow> signed_record \<Rightarrow> pubkey \<Rightarrow> u64 \<Rightarrow> unit res" where
  "verify_answer c s asked now =
     (if rec_key (sr_record s) \<noteq> asked
      then Inl (E_KeyMismatch (as_bytes asked) (as_bytes (rec_key (sr_record s))))
      else
      rbind (sr_verify c s) (\<lambda>_.
      rbind (validate c (sr_record s)) (\<lambda>_.
      let d = rec_delegation (sr_record s) in
      if delegation_is_expired d now \<and> \<not> is_terminal (sr_record s)
      then Inl (E_Delegation (Msg ''the delegation over {} from {} expired {}s ago''
                 [unat (now - dl_not_after d)]
                 [as_bytes (rec_key (sr_record s)), as_bytes (dl_identity d)]))
      else if is_expired (sr_record s) now
      then Inl (E_Expired (now - expires_at (sr_record s)))
      else Inr ())))"

definition revocation_error :: "signed_record \<Rightarrow> error option" where
  "revocation_error s =
     (case rec_body (sr_record s) of
        Revoked reason \<Rightarrow>
          Some (E_Revoked (as_bytes (rec_key (sr_record s))) None
                 (if reason = [] then lit ''no reason given'' else reason))
      | _ \<Rightarrow> None)"

definition sr_encode :: "signed_record \<Rightarrow> bytes" where
  "sr_encode s =
     (let body = record_encode (sr_record s);
          buf = to_be_bytes (of_nat (length body) :: u16);
          buf = buf @ body
      in buf @ sr_signature s)"

definition sr_encode_into :: "signed_record \<Rightarrow> bytes \<Rightarrow> bytes" where
  "sr_encode_into s buf = buf @ sr_encode s"

section \<open>Delegation files\<close>

record delegation_file =
  df_service_key :: pubkey
  df_delegation :: delegation

definition DELEGATION_FILE_MAGIC :: bytes where "DELEGATION_FILE_MAGIC = lit ''SQNSDEL''"
definition DELEGATION_FILE_VERSION :: byte where "DELEGATION_FILE_VERSION = 2"

definition df_identity :: "delegation_file \<Rightarrow> pubkey" where
  "df_identity f = dl_identity (df_delegation f)"

definition delegation_file_encode :: "delegation_file \<Rightarrow> bytes" where
  "delegation_file_encode f =
     (let buf = DELEGATION_FILE_MAGIC;
          buf = buf @ [DELEGATION_FILE_VERSION];
          buf = buf @ as_bytes (df_service_key f)
      in delegation_encode_into (df_delegation f) buf)"

section \<open>Basic facts\<close>

lemmas body_defs =
  is_terminal_def is_superseded_def is_revoked_def expected_signer_def successor_def
  endpoints_def is_withdrawal_def

lemma host_ip_from_ip [simp]: "host_ip (host_from_ip a) = Some a"
  by (cases a) simp_all

lemma is_terminal_iff: "is_terminal r \<longleftrightarrow> (\<forall>eps. rec_body r \<noteq> Live eps)"
  by (auto simp: body_defs split: record_body.splits)

lemma terminal_signer: "is_terminal r \<Longrightarrow> expected_signer r = rec_identity r"
  by (auto simp: body_defs split: record_body.splits)

lemma live_signer: "\<not> is_terminal r \<Longrightarrow> expected_signer r = rec_key r"
  by (auto simp: body_defs split: record_body.splits)

lemma successor_terminal: "successor r = Some k \<Longrightarrow> is_terminal r"
  by (auto simp: body_defs split: record_body.splits)

lemma terminal_cases: "is_terminal (sr_record s) \<longleftrightarrow>
  (\<exists>k. successor (sr_record s) = Some k) \<or> (\<exists>e. revocation_error s = Some e)"
  by (auto simp: body_defs revocation_error_def split: record_body.splits)

lemma terminal_not_expired [simp]: "is_terminal r \<Longrightarrow> \<not> is_expired r now"
  by (simp add: is_expired_def)

text \<open>The subtractions in the error branches never underflow.\<close>

lemma expired_no_underflow: "is_expired r now \<Longrightarrow> expires_at r \<le> now"
  by (simp add: is_expired_def)

lemma delegation_expired_no_underflow: "delegation_is_expired d now \<Longrightarrow> dl_not_after d \<le> now"
  by (simp add: delegation_is_expired_def)

text \<open>Expiry is monotone in time, and a fresh record lives for its whole \<open>ttl\<close>.\<close>

lemma is_expired_mono: "is_expired r now \<Longrightarrow> now \<le> later \<Longrightarrow> is_expired r later"
  by (auto simp: is_expired_def)

lemma delegation_is_expired_mono:
  "delegation_is_expired d now \<Longrightarrow> now \<le> later \<Longrightarrow> delegation_is_expired d later"
  by (auto simp: delegation_is_expired_def)

lemma unat_u32_as_u64: "unat (ucast (w :: u32) :: u64) = unat w"
  using unat_less_pow [of w] by (simp add: unsigned_ucast_eq take_bit_nat_eq_self)

lemma unat_expires_at:
  "\<not> is_terminal r \<Longrightarrow>
   unat (expires_at r) = min (unat (rec_issued_at r) + unat (rec_ttl r)) (2 ^ 64 - 1)"
  by (simp add: expires_at_def unat_saturating_add unat_u32_as_u64)

lemma expires_at_ge_issued: "rec_issued_at r \<le> expires_at r"
  by (simp add: expires_at_def saturating_add_ge)

end
