(* ===== verification/Record_Codec.thy ===== *)
theory Record_Codec
  imports Records
begin

text \<open>
  The decoders of \<open>crates/sqns-core/src/record.rs\<close> and the canonical encoding they share with
  the encoders of theory \<open>Records\<close>: the contract \<open>wire_codec\<close> holds for endpoints,
  delegations, records and signed records, so decoding inverts encoding and every accepted
  byte string is the encoding of what was decoded.
\<close>

section \<open>Decoders\<close>

definition endpoint_decode_from :: "endpoint rd" where
  "endpoint_decode_from =
     rd_bind (rd_u16 ''endpoint priority'') (\<lambda>priority.
     rd_bind (rd_u16 ''endpoint weight'') (\<lambda>weight.
     rd_bind (rd_u16 ''endpoint port'') (\<lambda>port.
     rd_bind
       (rd_bind (rd_u8 ''endpoint host type'') (\<lambda>t.
          if t = HOST_V4 then rd_bind (rd_array 4 ''IPv4 address'') (\<lambda>a. rd_return (V4 a))
          else if t = HOST_V6 then rd_bind (rd_array 16 ''IPv6 address'') (\<lambda>a. rd_return (V6 a))
          else if t = HOST_NAME then
            rd_bind (rd_short_string ''host name'') (\<lambda>name.
            if name = [] then rd_fail (E_Record (plain ''empty host name''))
            else rd_return (Name name))
          else rd_fail (E_Record (Msg ''unknown host type {other:#x}'' [unat t] []))))
       (\<lambda>host. rd_return
          \<lparr>ep_host = host, ep_port = port, ep_priority = priority, ep_weight = weight\<rparr>))))"

definition delegation_decode_from :: "delegation rd" where
  "delegation_decode_from =
     rd_bind (rd_pubkey ''delegation identity'') (\<lambda>identity.
     rd_bind (rd_u64 ''delegation not_after'') (\<lambda>not_after.
     rd_bind (rd_array 64 ''delegation signature'') (\<lambda>signature.
     rd_return \<lparr>dl_identity = identity, dl_not_after = not_after, dl_signature = signature\<rparr>)))"

definition body_decode_from :: "record_body rd" where
  "body_decode_from =
     rd_bind (rd_u8 ''record body kind'') (\<lambda>kind.
     if kind = BODY_LIVE then
       rd_bind (rd_u8 ''endpoint count'') (\<lambda>count.
       rd_bind (rd_many (unat count) endpoint_decode_from) (\<lambda>eps. rd_return (Live eps)))
     else if kind = BODY_SUPERSEDED then
       rd_bind (rd_pubkey ''successor key'') (\<lambda>succ.
       rd_bind (rd_string ''supersede reason'') (\<lambda>reason. rd_return (Superseded succ reason)))
     else if kind = BODY_REVOKED then
       rd_bind (rd_string ''revocation reason'') (\<lambda>reason. rd_return (Revoked reason))
     else rd_fail (E_Record (Msg ''unknown record body kind {other:#x}'' [unat kind] [])))"

definition record_decode_from :: "sqns_record rd" where
  "record_decode_from =
     rd_bind (rd_u8 ''record version'') (\<lambda>version.
     if version \<noteq> RECORD_VERSION
     then rd_fail (E_Record (Msg ''unsupported record version {version} (this build speaks {RECORD_VERSION})''
                     [unat version] []))
     else
     rd_bind (rd_pubkey ''record key'') (\<lambda>key.
     rd_bind delegation_decode_from (\<lambda>delegation.
     rd_bind (rd_u64 ''record serial'') (\<lambda>serial.
     rd_bind (rd_u64 ''record issued_at'') (\<lambda>issued_at.
     rd_bind (rd_u32 ''record ttl'') (\<lambda>ttl.
     rd_bind body_decode_from (\<lambda>body.
     rd_return \<lparr>rec_key = key, rec_delegation = delegation, rec_serial = serial,
                rec_issued_at = issued_at, rec_ttl = ttl, rec_body = body\<rparr>)))))))"

definition record_decode :: "bytes \<Rightarrow> sqns_record res" where
  "record_decode b = rd_full record_decode_from ''record'' b"

definition sr_decode_from :: "signed_record rd" where
  "sr_decode_from =
     rd_bind (rd_u16 ''signed record length'') (\<lambda>len.
     rd_bind (rd_bytes (unat len) ''signed record body'') (\<lambda>body.
     rd_bind (rd_lift (record_decode body)) (\<lambda>record.
     rd_bind (rd_array 64 ''record signature'') (\<lambda>signature.
     rd_return \<lparr>sr_record = record, sr_signature = signature\<rparr>))))"

definition sr_decode :: "bytes \<Rightarrow> signed_record res" where
  "sr_decode b = rd_full sr_decode_from ''signed record'' b"

definition delegation_file_decode_from :: "delegation_file rd" where
  "delegation_file_decode_from =
     rd_bind (rd_bytes (length DELEGATION_FILE_MAGIC) ''delegation magic'') (\<lambda>magic.
     if magic \<noteq> DELEGATION_FILE_MAGIC
     then rd_fail (E_Delegation (plain ''not an sqns delegation file''))
     else
     rd_bind (rd_u8 ''delegation file version'') (\<lambda>version.
     if version \<noteq> DELEGATION_FILE_VERSION
     then rd_fail (E_Delegation (Msg ''unsupported delegation file version {version}'' [unat version] []))
     else
     rd_bind (rd_pubkey ''delegation service key'') (\<lambda>service_key.
     rd_bind delegation_decode_from (\<lambda>delegation.
     rd_return \<lparr>df_service_key = service_key, df_delegation = delegation\<rparr>))))"

definition delegation_file_decode :: "'v verifier_scheme \<Rightarrow> bytes \<Rightarrow> delegation_file res" where
  "delegation_file_decode c b =
     rbind (rd_full delegation_file_decode_from ''delegation file'' b) (\<lambda>f.
     rbind (delegation_verify c (df_delegation f) (df_service_key f)) (\<lambda>_. Inr f))"

section \<open>Well-formed values\<close>

text \<open>
  What the Rust types guarantee (array lengths, UTF-8) together with the bounds the length
  prefixes impose.
\<close>

fun host_ok :: "host \<Rightarrow> bool" where
  "host_ok (V4 a) \<longleftrightarrow> length a = 4"
| "host_ok (V6 a) \<longleftrightarrow> length a = 16"
| "host_ok (Name n) \<longleftrightarrow> short_string_ok n \<and> n \<noteq> []"

definition endpoint_ok :: "endpoint \<Rightarrow> bool" where
  [wf_defs]: "endpoint_ok e \<longleftrightarrow> host_ok (ep_host e)"

definition delegation_ok :: "delegation \<Rightarrow> bool" where
  [wf_defs]: "delegation_ok d \<longleftrightarrow> pubkey_ok (dl_identity d) \<and> length (dl_signature d) = 64"

fun body_ok :: "record_body \<Rightarrow> bool" where
  "body_ok (Live eps) \<longleftrightarrow> length eps \<le> 255 \<and> (\<forall>e \<in> set eps. endpoint_ok e)"
| "body_ok (Superseded k reason) \<longleftrightarrow> pubkey_ok k \<and> string_ok reason"
| "body_ok (Revoked reason) \<longleftrightarrow> string_ok reason"

definition record_ok :: "sqns_record \<Rightarrow> bool" where
  [wf_defs]: "record_ok r \<longleftrightarrow>
     pubkey_ok (rec_key r) \<and> delegation_ok (rec_delegation r) \<and> body_ok (rec_body r)"

definition signed_record_ok :: "signed_record \<Rightarrow> bool" where
  [wf_defs]: "signed_record_ok s \<longleftrightarrow>
     record_ok (sr_record s) \<and> length (record_encode (sr_record s)) \<le> 65535 \<and>
     length (sr_signature s) = 64"

definition delegation_file_ok :: "delegation_file \<Rightarrow> bool" where
  [wf_defs]: "delegation_file_ok f \<longleftrightarrow>
     pubkey_ok (df_service_key f) \<and> delegation_ok (df_delegation f)"

section \<open>Endpoints and delegations\<close>

fun host_encode :: "host \<Rightarrow> bytes" where
  "host_encode (V4 a) = HOST_V4 # a"
| "host_encode (V6 a) = HOST_V6 # a"
| "host_encode (Name n) = HOST_NAME # put_short_string [] n"

lemma put_short_string_append: "put_short_string (a @ b) s = a @ put_short_string b s"
  by (simp add: put_short_string_def)

lemma put_string_append: "put_string (a @ b) s = a @ put_string b s"
  by (simp add: put_string_def)

lemma endpoint_encode_into_eq:
  "endpoint_encode_into e buf =
     buf @ to_be_bytes (ep_priority e) @ to_be_bytes (ep_weight e) @ to_be_bytes (ep_port e) @
     host_encode (ep_host e)"
  by (cases "ep_host e") (simp_all add: endpoint_encode_into_def put_short_string_def)

definition host_decode :: "host rd" where
  "host_decode =
     rd_bind (rd_u8 ''endpoint host type'') (\<lambda>t.
       if t = HOST_V4 then rd_bind (rd_array 4 ''IPv4 address'') (\<lambda>a. rd_return (V4 a))
       else if t = HOST_V6 then rd_bind (rd_array 16 ''IPv6 address'') (\<lambda>a. rd_return (V6 a))
       else if t = HOST_NAME then
         rd_bind (rd_short_string ''host name'') (\<lambda>name.
         if name = [] then rd_fail (E_Record (plain ''empty host name''))
         else rd_return (Name name))
       else rd_fail (E_Record (Msg ''unknown host type {other:#x}'' [unat t] [])))"

interpretation host: wire_codec host_encode host_decode host_ok
proof
  fix h assume h: "host_ok h"
  show "parses host_decode h (host_encode h)"
  proof (cases h)
    case (V4 a)
    with h show ?thesis by (auto simp: host_decode_def intro!: field_thens)
  next
    case (V6 a)
    with h show ?thesis
      by (auto simp: host_decode_def record_consts intro!: field_thens)
  next
    case (Name n)
    let ?k = "\<lambda>name. if name = [] then rd_fail (E_Record (plain ''empty host name''))
                else rd_return (Name name)"
    from h Name have "parses (rd_bind (rd_short_string ''host name'') ?k) h
        (put_short_string [] n @ [])"
      by (intro short_string.enc_then) (auto simp: parses_return)
    with Name show ?thesis
      by (auto simp: host_decode_def record_consts intro!: parses_u8_then)
  qed
next
  fix r h r' assume "host_decode r = Inr (h, r')"
  then show "host_ok h \<and> consumed r r' (host_encode h)"
    by (auto simp: host_decode_def rd_bind_Inr_iff split: if_splits
        dest!: field_consumed intro: consumed_u8)
qed

interpretation endpoint: wire_codec "\<lambda>e. endpoint_encode_into e []" endpoint_decode_from endpoint_ok
proof
  fix e :: endpoint assume "endpoint_ok e"
  then show "parses endpoint_decode_from e (endpoint_encode_into e [])"
    unfolding endpoint_decode_from_def host_decode_def [symmetric] endpoint_encode_into_eq append_Nil
    by (intro field_thens host.enc_last) (auto simp: endpoint_ok_def)
next
  fix r e r' assume "endpoint_decode_from r = Inr (e, r')"
  then show "endpoint_ok e \<and> consumed r r' (endpoint_encode_into e [])"
    unfolding endpoint_decode_from_def host_decode_def [symmetric]
    by (auto simp: rd_bind_Inr_iff endpoint_ok_def endpoint_encode_into_eq
        dest!: field_consumed host.dec_canonical intro!: consumed_trans)
qed

lemma delegation_encode_into_eq:
  "delegation_encode_into d buf =
     buf @ as_bytes (dl_identity d) @ to_be_bytes (dl_not_after d) @ dl_signature d"
  by (simp add: delegation_encode_into_def)

interpretation delegation: wire_codec "\<lambda>d. delegation_encode_into d []" delegation_decode_from delegation_ok
proof
  fix d :: delegation assume "delegation_ok d"
  then show "parses delegation_decode_from d (delegation_encode_into d [])"
    unfolding delegation_decode_from_def delegation_encode_into_eq append_Nil
    by (intro field_thens pubkey.enc_then) (auto simp: delegation_ok_def)
next
  fix r d r' assume "delegation_decode_from r = Inr (d, r')"
  then show "delegation_ok d \<and> consumed r r' (delegation_encode_into d [])"
    unfolding delegation_decode_from_def
    by (auto simp: rd_bind_Inr_iff delegation_ok_def delegation_encode_into_eq
        dest!: field_consumed pubkey.dec_canonical intro!: consumed_trans)
qed

section \<open>Records\<close>

fun body_encode :: "record_body \<Rightarrow> bytes" where
  "body_encode (Live eps) =
     BODY_LIVE # of_nat (length eps) # concat (map (\<lambda>e. endpoint_encode_into e []) eps)"
| "body_encode (Superseded k reason) = BODY_SUPERSEDED # as_bytes k @ put_string [] reason"
| "body_encode (Revoked reason) = BODY_REVOKED # put_string [] reason"

lemma fold_endpoint_encode_into:
  "fold endpoint_encode_into eps buf = buf @ concat (map (\<lambda>e. endpoint_encode_into e []) eps)"
  by (induction eps arbitrary: buf) (simp_all add: endpoint_encode_into_eq)

lemma record_encode_eq:
  "record_encode r =
     RECORD_VERSION # as_bytes (rec_key r) @ delegation_encode_into (rec_delegation r) [] @
     to_be_bytes (rec_serial r) @ to_be_bytes (rec_issued_at r) @ to_be_bytes (rec_ttl r) @
     body_encode (rec_body r)"
  by (cases "rec_body r")
    (simp_all add: record_encode_def fold_endpoint_encode_into delegation_encode_into_eq put_string_def)

interpretation body: wire_codec body_encode body_decode_from body_ok
proof
  fix b assume b: "body_ok b"
  show "parses body_decode_from b (body_encode b)"
  proof (cases b)
    case (Live eps)
    with b have n: "unat (of_nat (length eps) :: byte) = length eps"
      by (simp add: unat_of_nat_u8)
    from b Live have "parses (rd_many (length eps) endpoint_decode_from) eps
        (concat (map (\<lambda>e. endpoint_encode_into e []) eps))"
      by (intro endpoint.many_enc) simp
    from parses_bind_return [OF this, of Live] Live n show ?thesis
      by (auto simp: body_decode_from_def intro!: parses_u8_then)
  next
    case (Superseded k reason)
    with b show ?thesis
      by (auto simp: body_decode_from_def record_consts intro!: field_thens pubkey.enc_then)
  next
    case (Revoked reason)
    with b show ?thesis
      by (auto simp: body_decode_from_def record_consts intro!: field_thens)
  qed
next
  fix r b r' assume "body_decode_from r = Inr (b, r')"
  then obtain kind r1 where kind: "rd_u8 ''record body kind'' r = Inr (kind, r1)"
    and b: "(if kind = BODY_LIVE then
       rd_bind (rd_u8 ''endpoint count'') (\<lambda>count.
       rd_bind (rd_many (unat count) endpoint_decode_from) (\<lambda>eps. rd_return (Live eps)))
     else if kind = BODY_SUPERSEDED then
       rd_bind (rd_pubkey ''successor key'') (\<lambda>succ.
       rd_bind (rd_string ''supersede reason'') (\<lambda>reason. rd_return (Superseded succ reason)))
     else if kind = BODY_REVOKED then
       rd_bind (rd_string ''revocation reason'') (\<lambda>reason. rd_return (Revoked reason))
     else rd_fail (E_Record (Msg ''unknown record body kind {other:#x}'' [unat kind] []))) r1
       = Inr (b, r')"
    by (auto simp: body_decode_from_def rd_bind_Inr_iff)
  have count: "of_nat (unat w) = w \<and> unat w \<le> 255" for w :: byte
    using unat_less_pow [of w] by simp
  have "body_ok b \<and> (\<exists>t. body_encode b = kind # t \<and> consumed r1 r' t)"
    using b
    by (auto simp: rd_bind_Inr_iff count split: if_splits
        dest!: field_consumed pubkey.dec_canonical endpoint.many_canonical
        intro: consumed_u8 consumed_trans)
  then show "body_ok b \<and> consumed r r' (body_encode b)"
    using kind by (auto intro: consumed_u8)
qed

interpretation rec: wire_codec record_encode record_decode_from record_ok
proof
  fix r assume "record_ok r"
  then show "parses record_decode_from r (record_encode r)"
    unfolding record_decode_from_def record_encode_eq
    by (intro parses_u8_then)
      (auto simp: record_ok_def intro!: field_thens pubkey.enc_then delegation.enc_then body.enc_last)
next
  fix r x r' assume "record_decode_from r = Inr (x, r')"
  then show "record_ok x \<and> consumed r r' (record_encode x)"
    unfolding record_decode_from_def
    by (auto simp: rd_bind_Inr_iff record_ok_def record_encode_eq split: if_splits
        dest!: field_consumed pubkey.dec_canonical delegation.dec_canonical body.dec_canonical
        intro!: consumed_u8 consumed_trans)
qed

lemma record_decode_iff: "record_decode b = Inr r \<longleftrightarrow> record_ok r \<and> b = record_encode r"
  unfolding record_decode_def by (rule rec.full_iff)

section \<open>Signed records\<close>

lemma sr_encode_eq:
  "sr_encode s =
     to_be_bytes (of_nat (length (record_encode (sr_record s))) :: u16) @
     record_encode (sr_record s) @ sr_signature s"
  by (simp add: sr_encode_def Let_def)

interpretation signed_rec: wire_codec sr_encode sr_decode_from signed_record_ok
proof
  fix s assume s: "signed_record_ok s"
  let ?n = "length (record_encode (sr_record s))"
  from s have n: "unat (of_nat ?n :: u16) = ?n" and r: "record_ok (sr_record s)"
    by (auto simp: signed_record_ok_def intro: unat_of_nat_u16)
  from r have "record_decode (record_encode (sr_record s)) = Inr (sr_record s)"
    by (simp add: record_decode_iff)
  with s n show "parses sr_decode_from s (sr_encode s)"
    unfolding sr_decode_from_def sr_encode_eq rd_bytes_def
    by (intro u16.enc_then [OF TrueI] parses_bind [OF parses_take] parses_lift_then)
      (auto simp: signed_record_ok_def intro!: field_thens)
next
  fix r s r' assume "sr_decode_from r = Inr (s, r')"
  then obtain n r1 b r2 where n: "rd_u16 ''signed record length'' r = Inr (n, r1)"
    and b: "rd_take (unat n) ''signed record body'' r1 = Inr (b, r2)"
    and d: "record_decode b = Inr (sr_record s)"
    and g: "rd_array 64 ''record signature'' r2 = Inr (sr_signature s, r')"
    by (auto simp: sr_decode_from_def rd_bytes_def rd_bind_Inr_iff)
  from rd_take_consumed [OF b] have len: "length b = unat n" and cb: "consumed r1 r2 b" by auto
  then have "of_nat (length b) = n" and "length b \<le> 65535"
    using unat_less_pow [of n] by simp_all
  moreover from d have "record_ok (sr_record s)" "b = record_encode (sr_record s)"
    by (simp_all add: record_decode_iff)
  ultimately show "signed_record_ok s \<and> consumed r r' (sr_encode s)"
    using u16.dec_canonical [OF n] array.dec_canonical [OF g] cb
    by (auto simp: signed_record_ok_def sr_encode_eq intro!: consumed_trans)
qed

lemma sr_decode_iff: "sr_decode b = Inr s \<longleftrightarrow> signed_record_ok s \<and> b = sr_encode s"
  unfolding sr_decode_def by (rule signed_rec.full_iff)

section \<open>Delegation files\<close>

lemma magic_length: "length DELEGATION_FILE_MAGIC = 7"
  by (simp add: DELEGATION_FILE_MAGIC_def lit_def)

lemma delegation_file_encode_eq:
  "delegation_file_encode f =
     DELEGATION_FILE_MAGIC @ DELEGATION_FILE_VERSION # as_bytes (df_service_key f) @
     delegation_encode_into (df_delegation f) []"
  by (simp add: delegation_file_encode_def delegation_encode_into_eq Let_def)

interpretation delegation_file:
  wire_codec delegation_file_encode delegation_file_decode_from delegation_file_ok
proof
  fix f :: delegation_file assume "delegation_file_ok f"
  then show "parses delegation_file_decode_from f (delegation_file_encode f)"
    unfolding delegation_file_decode_from_def delegation_file_encode_eq rd_bytes_def
    by (intro parses_bind [OF parses_take])
      (auto simp: delegation_file_ok_def
        intro!: parses_u8_then pubkey.enc_then delegation.enc_last)
next
  fix r f r' assume "delegation_file_decode_from r = Inr (f, r')"
  then show "delegation_file_ok f \<and> consumed r r' (delegation_file_encode f)"
    unfolding delegation_file_decode_from_def rd_bytes_def
    by (auto simp: rd_bind_Inr_iff delegation_file_ok_def delegation_file_encode_eq split: if_splits
        dest!: rd_take_consumed field_consumed pubkey.dec_canonical delegation.dec_canonical
        intro!: consumed_u8 consumed_trans)
qed

end
