(* ===== verification/Record_Auth.thy ===== *)
theory Record_Auth
  imports Record_Codec
begin

text \<open>
  What the signatures of \<open>crates/sqns-core/src/record.rs\<close> establish. The checks a client runs
  on an answer are characterised exactly; the canonical encoding and the two signing contexts
  make a signature stand for one record and nothing else; what the right key signs is accepted;
  the order in which records replace each other is a strict order with retirements on top.
\<close>

section \<open>The checks, characterised\<close>

definition delegated :: "'v verifier_scheme \<Rightarrow> sqns_record \<Rightarrow> bool" where
  "delegated c r \<longleftrightarrow>
     vk_ok c (as_bytes (rec_identity r)) \<and>
     vk_verify c (as_bytes (rec_identity r))
       (delegation_message (rec_identity r) (rec_key r) (dl_not_after (rec_delegation r)))
       (dl_signature (rec_delegation r))"

definition signed_by :: "'v verifier_scheme \<Rightarrow> pubkey \<Rightarrow> signed_record \<Rightarrow> bool" where
  "signed_by c k s \<longleftrightarrow>
     vk_ok c (as_bytes k) \<and>
     vk_verify c (as_bytes k) (signed_message (record_encode (sr_record s))) (sr_signature s)"

fun body_valid :: "'v verifier_scheme \<Rightarrow> sqns_record \<Rightarrow> record_body \<Rightarrow> bool" where
  "body_valid c r (Live eps) \<longleftrightarrow> length eps \<le> 255 \<and> 30 \<le> rec_ttl r \<and> rec_ttl r \<le> 604800"
| "body_valid c r (Superseded k reason) \<longleftrightarrow>
     vk_ok c (as_bytes k) \<and> k \<noteq> rec_key r \<and> length reason \<le> 256"
| "body_valid c r (Revoked reason) \<longleftrightarrow> length reason \<le> 256"

definition valid_record :: "'v verifier_scheme \<Rightarrow> sqns_record \<Rightarrow> bool" where
  "valid_record c r \<longleftrightarrow>
     vk_ok c (as_bytes (rec_key r)) \<and> vk_ok c (as_bytes (rec_identity r)) \<and>
     rec_identity r \<noteq> rec_key r \<and> body_valid c r (rec_body r)"

lemma delegation_verify_iff:
  "delegation_verify c (rec_delegation r) (rec_key r) = Inr u \<longleftrightarrow> delegated c r"
  by (auto simp: delegation_verify_def delegated_def rec_identity_def)

lemma sr_verify_iff:
  "sr_verify c s = Inr u \<longleftrightarrow>
     delegated c (sr_record s) \<and> signed_by c (expected_signer (sr_record s)) s"
  by (auto simp: sr_verify_def delegation_verify_iff signed_by_def Let_def)

lemma check_reason_iff: "check_reason reason = Inr u \<longleftrightarrow> length reason \<le> 256"
  by (auto simp: check_reason_def MAX_REASON_LEN_def)

lemma validate_iff: "validate c r = Inr u \<longleftrightarrow> valid_record c r"
  by (cases "rec_body r")
    (auto simp: validate_def valid_record_def rec_identity_def check_reason_iff
      MAX_ENDPOINTS_def MIN_TTL_def MAX_TTL_def not_le)

definition timely :: "sqns_record \<Rightarrow> u64 \<Rightarrow> bool" where
  "timely r now \<longleftrightarrow>
     is_terminal r \<or> (\<not> delegation_is_expired (rec_delegation r) now \<and> \<not> is_expired r now)"

lemma verify_answer_iff:
  "verify_answer c s k now = Inr u \<longleftrightarrow>
     sr_key s = k \<and> delegated c (sr_record s) \<and>
     signed_by c (expected_signer (sr_record s)) s \<and>
     valid_record c (sr_record s) \<and> timely (sr_record s) now"
proof -
  have "verify_answer c s k now = Inr u \<longleftrightarrow>
      sr_key s = k \<and> sr_verify c s = Inr () \<and> validate c (sr_record s) = Inr () \<and>
      timely (sr_record s) now"
    by (auto simp: verify_answer_def sr_key_def timely_def Let_def)
  then show ?thesis by (auto simp: sr_verify_iff validate_iff)
qed

section \<open>A signature stands for one record\<close>

lemma context_separation:
  "take 6 SIG_CONTEXT \<noteq> take 6 DELEGATION_CONTEXT"
  by (simp add: SIG_CONTEXT_def DELEGATION_CONTEXT_def lit_def)

lemma context_lengths: "length SIG_CONTEXT = 14" "length DELEGATION_CONTEXT = 18"
  by (simp_all add: SIG_CONTEXT_def DELEGATION_CONTEXT_def lit_def)

lemma messages_disjoint: "signed_message b \<noteq> delegation_message i k n"
proof
  assume "signed_message b = delegation_message i k n"
  then have "take 6 (SIG_CONTEXT @ b) =
      take 6 (DELEGATION_CONTEXT @ as_bytes i @ as_bytes k @ to_be_bytes n)"
    by (simp only: signed_message_def delegation_message_def)
  then show False using context_separation by (simp add: context_lengths)
qed

lemma signed_message_inj:
  "record_ok r \<Longrightarrow> record_ok r' \<Longrightarrow>
   signed_message (record_encode r) = signed_message (record_encode r') \<Longrightarrow> r = r'"
  by (simp add: signed_message_def rec.enc_inj)

lemma delegation_message_inj:
  assumes "pubkey_ok i" "pubkey_ok k" "pubkey_ok i'" "pubkey_ok k'"
    and "delegation_message i k n = delegation_message i' k' n'"
  shows "i = i' \<and> k = k' \<and> n = n'"
proof -
  have "as_bytes i @ (as_bytes k @ to_be_bytes n) = as_bytes i' @ (as_bytes k' @ to_be_bytes n')"
    using assms(5) by (simp add: delegation_message_def)
  then have i: "i = i'" and "as_bytes k @ to_be_bytes n = as_bytes k' @ to_be_bytes n'"
    using pubkey.enc_prefix_free [OF assms(1,3)] by blast+
  then have "k = k'" and "to_be_bytes n = to_be_bytes n'"
    using pubkey.enc_prefix_free [OF assms(2,4)] by blast+
  then show ?thesis using i u64.enc_inj [OF TrueI TrueI] by blast
qed

text \<open>
  Unforgeability as a hypothesis: whatever verifies under a key was signed by its holder.
  \<open>said k\<close> is the set of messages the holder of \<open>k\<close> ever signed.
\<close>

definition unforgeable :: "'v verifier_scheme \<Rightarrow> (bytes \<Rightarrow> bytes set) \<Rightarrow> bool" where
  "unforgeable c said \<longleftrightarrow> (\<forall>k m s. vk_verify c k m s \<longrightarrow> m \<in> said k)"

text \<open>A key holder that signs records only from \<open>R\<close>, and otherwise delegations.\<close>

definition signs_only :: "(bytes \<Rightarrow> bytes set) \<Rightarrow> pubkey \<Rightarrow> sqns_record set \<Rightarrow> bool" where
  "signs_only said k R \<longleftrightarrow>
     (\<forall>m \<in> said (as_bytes k).
        (\<exists>r \<in> R. m = signed_message (record_encode r)) \<or>
        (\<exists>i s n. m = delegation_message i s n)) \<and>
     (\<forall>r \<in> R. record_ok r)"

lemma signed_by_only:
  assumes "unforgeable c said" and "signs_only said k R"
    and "signed_by c k s" and "record_ok (sr_record s)"
  shows "sr_record s \<in> R"
proof -
  let ?m = "signed_message (record_encode (sr_record s))"
  have "?m \<in> said (as_bytes k)"
    using assms(1,3) by (auto simp: unforgeable_def signed_by_def)
  then obtain r where "r \<in> R" and "?m = signed_message (record_encode r)"
    using assms(2) messages_disjoint by (auto simp: signs_only_def)
  moreover from this assms(2) have "record_ok r" by (simp add: signs_only_def)
  ultimately show ?thesis using signed_message_inj assms(4) by blast
qed

section \<open>Signing\<close>

lemma record_sign_iff:
  "record_sign c r sk = Inr s \<longleftrightarrow>
     public_of c sk = expected_signer r \<and>
     s = \<lparr>sr_record = r, sr_signature = sk_sign c sk (signed_message (record_encode r))\<rparr>"
  by (auto simp: record_sign_def Let_def)

lemma delegation_issue_simps [simp]:
  "dl_identity (delegation_issue c sk k n) = public_of c sk"
  "dl_not_after (delegation_issue c sk k n) = n"
  "dl_signature (delegation_issue c sk k n) = sk_sign c sk (delegation_message (public_of c sk) k n)"
  by (simp_all add: delegation_issue_def Let_def)

lemma delegated_issue:
  assumes "ed25519_correct c" and "rec_delegation r = delegation_issue c sk (rec_key r) n"
  shows "delegated c r"
  using assms by (simp add: delegated_def rec_identity_def ed25519_correctD)

lemma signed_by_sign:
  assumes "ed25519_correct c" and "record_sign c r sk = Inr s"
  shows "sr_record s = r \<and> signed_by c (expected_signer r) s"
proof -
  from assms(2) have sg: "expected_signer r = public_of c sk"
    and s: "s = \<lparr>sr_record = r, sr_signature = sk_sign c sk (signed_message (record_encode r))\<rparr>"
    by (auto simp: record_sign_iff)
  show ?thesis unfolding sg s using assms(1) by (simp add: signed_by_def ed25519_correctD)
qed

lemma sign_verify:
  assumes "ed25519_correct c" and "record_sign c r sk = Inr s"
    and "rec_delegation r = delegation_issue c idk (rec_key r) n"
    and "valid_record c r" and "timely r now"
  shows "verify_answer c s (rec_key r) now = Inr ()"
  using signed_by_sign [OF assms(1,2)] delegated_issue [OF assms(1,3)] assms(4,5)
  by (auto simp: verify_answer_iff sr_key_def)

text \<open>The checks on a record that do not depend on the time of day.\<close>

definition chain_ok :: "'v verifier_scheme \<Rightarrow> pubkey \<Rightarrow> signed_record \<Rightarrow> bool" where
  "chain_ok c k r \<longleftrightarrow>
     sr_key r = k \<and> valid_record c (sr_record r) \<and> delegated c (sr_record r) \<and>
     signed_by c (expected_signer (sr_record r)) r"

lemma verify_answer_chain:
  "verify_answer c r k now = Inr () \<longleftrightarrow> chain_ok c k r \<and> timely (sr_record r) now"
  by (auto simp: verify_answer_iff chain_ok_def)

section \<open>Replacing records\<close>

lemma supersedes_iff:
  "supersedes a b \<longleftrightarrow> \<not> is_terminal b \<and>
     (is_terminal a \<or> rec_serial b < rec_serial a \<or>
      rec_serial b = rec_serial a \<and> rec_issued_at b < rec_issued_at a)"
  by (auto simp: supersedes_def less_prod_def' )

lemma supersedes_irrefl: "\<not> supersedes a a"
  by (auto simp: supersedes_iff)

lemma supersedes_trans: "supersedes a b \<Longrightarrow> supersedes b d \<Longrightarrow> supersedes a d"
  by (auto simp: supersedes_iff)

lemma supersedes_asym: "supersedes a b \<Longrightarrow> \<not> supersedes b a"
  using supersedes_irrefl supersedes_trans by blast

lemma supersedes_terminal: "is_terminal b \<Longrightarrow> \<not> supersedes a b"
  by (simp add: supersedes_iff)

end
