(* ===== verification/Store.thy ===== *)
theory Store
  imports Record_Auth
begin

text \<open>
  The record store of \<open>crates/sqnsd/src/store.rs\<close>: verify, merge, expire. Its fields are the
  record field \<open>st_\<dots>\<close>; a \<open>BTreeSet\<close> is an ascending list without repetitions. \<open>put\<close> is
  written as the source runs it: the checks and the insertion under the write lock
  (\<open>put_locked\<close>), then, after the lock is dropped, the binding and the revision counter
  (\<open>put_finish\<close>). Snapshots are in theory \<open>Snapshot\<close>, concurrent publishers in theory
  \<open>Interleaving\<close>.
\<close>

section \<open>The model\<close>

datatype put_outcome = Stored | Stale

definition stored :: "put_outcome \<Rightarrow> bool" where
  "stored p \<longleftrightarrow> p = Stored"

record store =
  st_records :: "(pubkey, signed_record) hashmap"
  st_bindings :: "(pubkey, pubkey) hashmap"
  st_identity_index :: "(pubkey, pubkey list) hashmap"
  st_path :: "rstring option"
  st_revision :: u64

definition store_new :: "rstring option \<Rightarrow> store" where
  "store_new path =
     \<lparr>st_records = [], st_bindings = [], st_identity_index = [], st_path = path, st_revision = 0\<rparr>"

definition retirement_error :: "signed_record \<Rightarrow> error option" where
  "retirement_error held =
     (case successor (sr_record held) of
        Some succ \<Rightarrow> Some (E_Superseded (as_bytes (sr_key held)) (as_bytes succ))
      | None \<Rightarrow> revocation_error held)"

text \<open>\<open>entry(k).or_insert(i)\<close>, then \<open>entry(i).or_default().insert(k)\<close>.\<close>

definition bind :: "pubkey \<Rightarrow> pubkey \<Rightarrow> store \<Rightarrow> store" where
  "bind service_key identity st =
     (let st = st\<lparr>st_bindings :=
           (case map_of (st_bindings st) service_key of
              None \<Rightarrow> AList.update service_key identity (st_bindings st)
            | Some _ \<Rightarrow> st_bindings st)\<rparr>
      in st\<lparr>st_identity_index :=
           AList.update identity
             (insort_insert service_key
                (case map_of (st_identity_index st) identity of None \<Rightarrow> [] | Some ks \<Rightarrow> ks))
             (st_identity_index st)\<rparr>)"

definition put_locked ::
  "'v verifier_scheme \<Rightarrow> u64 \<Rightarrow> signed_record \<Rightarrow> store \<Rightarrow> put_outcome res \<times> store" where
  "put_locked c now rcd st =
    (case rbind (validate c (sr_record rcd)) (\<lambda>_. sr_verify c rcd) of
       Inl e \<Rightarrow> (Inl e, st)
     | Inr _ \<Rightarrow>
       if rec_issued_at (sr_record rcd) > now + MAX_CLOCK_SKEW
       then (Inl (E_Record (Msg ''record is issued {}s in the future (max skew {MAX_CLOCK_SKEW}s)''
                    [unat (rec_issued_at (sr_record rcd) - now)] [])), st)
       else if is_expired (sr_record rcd) now
       then (Inl (E_Expired (now - expires_at (sr_record rcd))), st)
       else
       let delegation = rec_delegation (sr_record rcd) in
       if delegation_is_expired delegation now \<and> \<not> is_terminal (sr_record rcd)
       then (Inl (E_Delegation (Msg ''the delegation over {} from {} expired {}s ago''
                    [unat (now - dl_not_after delegation)]
                    [as_bytes (sr_key rcd), as_bytes (dl_identity delegation)])), st)
       else
       let key = sr_key rcd; held = map_of (st_records st) key in
       case (case held of None \<Rightarrow> None | Some h \<Rightarrow> retirement_error h) of
         Some retired \<Rightarrow> (Inl retired, st)
       | None \<Rightarrow>
         let bound = map_of (st_bindings st) key; identity = rec_identity (sr_record rcd) in
         if bound \<noteq> None \<and> identity \<noteq> the bound
         then (Inl (E_Delegation (Msg ''{key} belongs to identity {bound}, but this record claims {identity}''
                      [] [as_bytes key, as_bytes (the bound), as_bytes identity])), st)
         else if held \<noteq> None \<and> \<not> supersedes (sr_record rcd) (sr_record (the held))
         then (Inr Stale, st)
         else (Inr Stored, st\<lparr>st_records := AList.update key rcd (st_records st)\<rparr>))"

definition put_finish :: "pubkey \<Rightarrow> pubkey \<Rightarrow> store \<Rightarrow> store" where
  "put_finish key identity st =
     (let st = bind key identity st in st\<lparr>st_revision := st_revision st + 1\<rparr>)"

definition put ::
  "'v verifier_scheme \<Rightarrow> u64 \<Rightarrow> signed_record \<Rightarrow> store \<Rightarrow> put_outcome res \<times> store" where
  "put c now rcd st =
     (case put_locked c now rcd st of
        (Inr Stored, st') \<Rightarrow> (Inr Stored, put_finish (sr_key rcd) (sr_identity rcd) st')
      | other \<Rightarrow> other)"

definition get :: "u64 \<Rightarrow> pubkey \<Rightarrow> store \<Rightarrow> signed_record option" where
  "get now key st =
     (case map_of (st_records st) key of
        None \<Rightarrow> None
      | Some r \<Rightarrow> if \<not> is_expired (sr_record r) now then Some r else None)"

definition identity_of :: "pubkey \<Rightarrow> store \<Rightarrow> pubkey option" where
  "identity_of service_key st = map_of (st_bindings st) service_key"

definition identity_records :: "u64 \<Rightarrow> pubkey \<Rightarrow> nat \<Rightarrow> store \<Rightarrow> signed_record list" where
  "identity_records now identity limit st =
     (case map_of (st_identity_index st) identity of
        None \<Rightarrow> []
      | Some keys \<Rightarrow>
          take limit (filter (\<lambda>r. \<not> is_expired (sr_record r) now)
            (List.map_filter (map_of (st_records st)) keys)))"

definition since :: "u64 \<Rightarrow> u64 \<Rightarrow> nat \<Rightarrow> store \<Rightarrow> signed_record list \<times> bool" where
  "since now since_at limit st =
     (let out = filter (\<lambda>r. rec_issued_at (sr_record r) \<ge> since_at \<and> \<not> is_expired (sr_record r) now)
                  (map snd (st_records st));
          out = sort_key (\<lambda>r. (rec_issued_at (sr_record r), sr_key r)) out;
          complete = (length out \<le> limit)
      in (take limit out, complete))"

definition purge_expired :: "u64 \<Rightarrow> store \<Rightarrow> nat \<times> store" where
  "purge_expired now st =
     (let before = length (st_records st);
          records = filter (\<lambda>(_, r). \<not> is_expired (sr_record r) now) (st_records st);
          removed = before - length records;
          st = st\<lparr>st_records := records\<rparr>
      in (removed, if removed > 0 then st\<lparr>st_revision := st_revision st + 1\<rparr> else st))"

definition revision :: "store \<Rightarrow> u64" where
  "revision st = st_revision st"

definition store_len :: "store \<Rightarrow> nat" where
  "store_len st = length (st_records st)"

definition store_is_empty :: "store \<Rightarrow> bool" where
  "store_is_empty st \<longleftrightarrow> store_len st = 0"

definition snapshot_path :: "store \<Rightarrow> rstring option" where
  "snapshot_path st = st_path st"

section \<open>What \<open>put\<close> does on every branch\<close>

definition admissible :: "'v verifier_scheme \<Rightarrow> u64 \<Rightarrow> signed_record \<Rightarrow> bool" where
  "admissible c now r \<longleftrightarrow>
     valid_record c (sr_record r) \<and> delegated c (sr_record r) \<and>
     signed_by c (expected_signer (sr_record r)) r \<and>
     rec_issued_at (sr_record r) \<le> now + MAX_CLOCK_SKEW \<and> timely (sr_record r) now"

abbreviation held :: "store \<Rightarrow> pubkey \<Rightarrow> signed_record option" where
  "held st \<equiv> map_of (st_records st)"

abbreviation bound :: "store \<Rightarrow> pubkey \<Rightarrow> pubkey option" where
  "bound st \<equiv> map_of (st_bindings st)"

text \<open>The store would replace what it holds for the record's key by the record.\<close>

definition wins :: "signed_record \<Rightarrow> store \<Rightarrow> bool" where
  "wins r st \<longleftrightarrow>
     (\<forall>h. held st (sr_key r) = Some h \<longrightarrow>
        \<not> is_terminal (sr_record h) \<and> supersedes (sr_record r) (sr_record h)) \<and>
     (\<forall>i. bound st (sr_key r) = Some i \<longrightarrow> sr_identity r = i)"

lemma retirement_error_None_iff: "retirement_error h = None \<longleftrightarrow> \<not> is_terminal (sr_record h)"
  by (auto simp: retirement_error_def terminal_cases split: option.splits)

lemma retirement_error_Some: "retirement_error h = Some e \<Longrightarrow> is_terminal (sr_record h)"
  using retirement_error_None_iff [of h] by auto

lemma admission_checks:
  "rbind (validate c (sr_record r)) (\<lambda>_. sr_verify c r) = Inr u \<longleftrightarrow>
   valid_record c (sr_record r) \<and> delegated c (sr_record r) \<and>
   signed_by c (expected_signer (sr_record r)) r"
  by (auto simp: validate_iff sr_verify_iff)

lemma put_locked_stored_iff:
  "put_locked c now r st = (Inr Stored, st') \<longleftrightarrow>
     admissible c now r \<and> wins r st \<and>
     st' = st\<lparr>st_records := AList.update (sr_key r) r (st_records st)\<rparr>"
proof (cases "rbind (validate c (sr_record r)) (\<lambda>_. sr_verify c r)")
  case (Inl e)
  then have "\<not> admissible c now r"
    using admission_checks [of c r "()"] by (auto simp: admissible_def)
  with Inl show ?thesis by (simp add: put_locked_def)
next
  case (Inr u)
  note ok = admission_checks [THEN iffD1, OF Inr]
  show ?thesis
    by (cases "held st (sr_key r)"; cases "bound st (sr_key r)")
      (auto simp: put_locked_def Inr Let_def admissible_def wins_def timely_def ok not_less not_le
        sr_identity_def retirement_error_None_iff split: option.splits if_splits
        dest: retirement_error_Some)
qed

lemma put_locked_cases:
  obtains "put_locked c now r st = (Inr Stored, st\<lparr>st_records := AList.update (sr_key r) r (st_records st)\<rparr>)"
    and "admissible c now r" "wins r st"
  | "put_locked c now r st = (Inr Stale, st)"
  | e where "put_locked c now r st = (Inl e, st)"
proof (cases "\<exists>st'. put_locked c now r st = (Inr Stored, st')")
  case True
  then show ?thesis using that(1) by (auto simp: put_locked_stored_iff)
next
  case False
  then show ?thesis
    using that(2,3)
    by (auto simp: put_locked_def Let_def split: sum.splits option.splits if_splits)
qed

section \<open>The invariant\<close>

text \<open>
  Every record held is one that verifies, sits under its own key and is bound to its identity;
  the identity index is the inverse of the bindings.
\<close>

definition record_inv :: "'v verifier_scheme \<Rightarrow> store \<Rightarrow> bool" where
  "record_inv c st \<longleftrightarrow>
     (\<forall>k r. held st k = Some r \<longrightarrow>
        sr_key r = k \<and> valid_record c (sr_record r) \<and> delegated c (sr_record r) \<and>
        signed_by c (expected_signer (sr_record r)) r)"

definition index_inv :: "store \<Rightarrow> bool" where
  "index_inv st \<longleftrightarrow>
     (\<forall>i ks. map_of (st_identity_index st) i = Some ks \<longrightarrow> sorted ks \<and> distinct ks) \<and>
     (\<forall>i k. (\<exists>ks. map_of (st_identity_index st) i = Some ks \<and> k \<in> set ks) \<longleftrightarrow>
            bound st k = Some i)"

definition store_inv :: "'v verifier_scheme \<Rightarrow> store \<Rightarrow> bool" where
  "store_inv c st \<longleftrightarrow>
     hm_wf (st_records st) \<and> hm_wf (st_bindings st) \<and> hm_wf (st_identity_index st) \<and>
     record_inv c st \<and> index_inv st \<and>
     (\<forall>k r. held st k = Some r \<longrightarrow> bound st k = Some (sr_identity r))"

lemma store_inv_new: "store_inv c (store_new path)"
  by (simp add: store_inv_def store_new_def record_inv_def index_inv_def)

lemma bind_simps [simp]:
  "st_records (bind k i st) = st_records st"
  "st_path (bind k i st) = st_path st"
  "st_revision (bind k i st) = st_revision st"
  by (simp_all add: bind_def Let_def)

lemma bound_bind: "bound (bind k i st) = (if bound st k = None then (bound st)(k \<mapsto> i) else bound st)"
  by (auto simp: bind_def Let_def split: option.splits)

lemma index_bind:
  "map_of (st_identity_index (bind k i st)) =
     (map_of (st_identity_index st))(i \<mapsto>
        insort_insert k (case map_of (st_identity_index st) i of None \<Rightarrow> [] | Some ks \<Rightarrow> ks))"
  by (simp add: bind_def Let_def)

lemma hm_wf_bind:
  "hm_wf (st_bindings st) \<Longrightarrow> hm_wf (st_bindings (bind k i st))"
  "hm_wf (st_identity_index st) \<Longrightarrow> hm_wf (st_identity_index (bind k i st))"
  by (auto simp: bind_def Let_def split: option.splits)

text \<open>Binding keeps the index the inverse of the bindings, unless it contradicts one.\<close>

lemma index_inv_bind:
  assumes "index_inv st" and "bound st k = None \<or> bound st k = Some i"
  shows "index_inv (bind k i st)"
proof -
  have srt: "\<And>j ks. map_of (st_identity_index st) j = Some ks \<Longrightarrow> sorted ks \<and> distinct ks"
    and inv: "\<And>j m. (\<exists>ks. map_of (st_identity_index st) j = Some ks \<and> m \<in> set ks) \<longleftrightarrow> bound st m = Some j"
    using assms(1) unfolding index_inv_def by blast+
  have "sorted ks \<and> distinct ks" if "map_of (st_identity_index (bind k i st)) j = Some ks" for j ks
    using that
    by (cases "j = i"; cases "map_of (st_identity_index st) i")
      (auto simp: index_bind sorted_insort_insert distinct_insort_insert dest: srt)
  moreover have "(\<exists>ks. map_of (st_identity_index (bind k i st)) j = Some ks \<and> m \<in> set ks) \<longleftrightarrow>
      bound (bind k i st) m = Some j" for j m
  proof -
    have "m \<in> set (case map_of (st_identity_index st) i of None \<Rightarrow> [] | Some ks \<Rightarrow> ks) \<longleftrightarrow>
        bound st m = Some i"
      using inv [of i m] by (auto split: option.splits)
    then have "(\<exists>ks. map_of (st_identity_index (bind k i st)) j = Some ks \<and> m \<in> set ks) \<longleftrightarrow>
        (if j = i then m = k \<or> bound st m = Some i else bound st m = Some j)"
      using inv [of j m] by (simp add: index_bind set_insort_insert)
    also have "\<dots> \<longleftrightarrow> bound (bind k i st) m = Some j"
      using assms(2) by (auto simp: bound_bind)
    finally show ?thesis .
  qed
  ultimately show ?thesis unfolding index_inv_def by blast
qed

section \<open>Sequential \<open>put\<close>\<close>

lemma put_finish_simps [simp]:
  "st_records (put_finish k i st) = st_records st"
  "st_bindings (put_finish k i st) = st_bindings (bind k i st)"
  "st_identity_index (put_finish k i st) = st_identity_index (bind k i st)"
  "st_path (put_finish k i st) = st_path st"
  "st_revision (put_finish k i st) = st_revision st + 1"
  by (simp_all add: put_finish_def Let_def)

lemma bind_records_update [simp]:
  "st_bindings (bind k i (st\<lparr>st_records := rs\<rparr>)) = st_bindings (bind k i st)"
  "st_identity_index (bind k i (st\<lparr>st_records := rs\<rparr>)) = st_identity_index (bind k i st)"
  by (simp_all add: bind_def Let_def split: option.splits)

definition put_result :: "signed_record \<Rightarrow> store \<Rightarrow> store" where
  "put_result r st =
     put_finish (sr_key r) (sr_identity r) (st\<lparr>st_records := AList.update (sr_key r) r (st_records st)\<rparr>)"

lemma put_cases:
  obtains (Stored) "put c now r st = (Inr Stored, put_result r st)" "admissible c now r" "wins r st"
  | (Stale) "put c now r st = (Inr Stale, st)"
  | (Rejected) e where "put c now r st = (Inl e, st)"
  by (rule put_locked_cases [of c now r st]) (auto simp: put_def put_result_def)

lemma put_stored_iff:
  "put c now r st = (Inr Stored, st') \<longleftrightarrow> admissible c now r \<and> wins r st \<and> st' = put_result r st"
proof
  assume "put c now r st = (Inr Stored, st')"
  then show "admissible c now r \<and> wins r st \<and> st' = put_result r st"
    by (cases rule: put_cases [of c now r st]) auto
next
  assume "admissible c now r \<and> wins r st \<and> st' = put_result r st"
  then show "put c now r st = (Inr Stored, st')"
    using put_locked_stored_iff [THEN iffD2, of c now r st] by (simp add: put_def put_result_def)
qed

lemma held_put_result: "held (put_result r st) = (held st)(sr_key r \<mapsto> r)"
  by (simp add: put_result_def)

lemma bound_put_result:
  "wins r st \<Longrightarrow> bound (put_result r st) = (bound st)(sr_key r \<mapsto> sr_identity r)"
  by (auto simp: put_result_def bound_bind wins_def)

lemma store_inv_put_result:
  assumes inv: "store_inv c st" and adm: "admissible c now r" and win: "wins r st"
  shows "store_inv c (put_result r st)"
proof -
  have "index_inv (bind (sr_key r) (sr_identity r) st)"
    using inv win
    by (intro index_inv_bind) (cases "bound st (sr_key r)"; simp add: store_inv_def wins_def)+
  then have "index_inv (put_result r st)"
    unfolding index_inv_def put_result_def put_finish_simps bind_records_update .
  moreover have "record_inv c (put_result r st)"
    using inv adm by (auto simp: store_inv_def record_inv_def held_put_result admissible_def)
  moreover have "held (put_result r st) k = Some x \<Longrightarrow> bound (put_result r st) k = Some (sr_identity x)"
    for k x
    using inv by (auto simp: held_put_result bound_put_result [OF win] store_inv_def split: if_splits)
  moreover have "hm_wf (st_records (put_result r st))" "hm_wf (st_bindings (put_result r st))"
    "hm_wf (st_identity_index (put_result r st))"
    using inv by (simp_all add: put_result_def store_inv_def hm_wf_bind)
  ultimately show ?thesis by (simp add: store_inv_def)
qed

lemma put_inv: "store_inv c st \<Longrightarrow> store_inv c (snd (put c now r st))"
  by (rule put_cases [of c now r st]) (auto intro: store_inv_put_result)

lemma put_terminal:
  "held st k = Some t \<Longrightarrow> is_terminal (sr_record t) \<Longrightarrow> held (snd (put c now r st)) k = Some t"
  by (rule put_cases [of c now r st]) (auto simp: held_put_result wins_def)

lemma put_retired:
  assumes "held st (sr_key r) = Some t" and "is_terminal (sr_record t)"
  obtains e where "put c now r st = (Inl e, st)"
proof -
  obtain e where "retirement_error t = Some e" using assms(2) retirement_error_None_iff [of t] by auto
  with assms(1) have "\<exists>e. put c now r st = (Inl e, st)"
    by (auto simp: put_def put_locked_def Let_def split: sum.splits)
  with that show thesis by blast
qed

lemma put_bound: "bound st k = Some i \<Longrightarrow> bound (snd (put c now r st)) k = Some i"
  by (rule put_cases [of c now r st]) (auto simp: bound_put_result wins_def)

lemma put_progress:
  "held st k = Some t \<Longrightarrow>
   \<exists>t'. held (snd (put c now r st)) k = Some t' \<and> (t' = t \<or> supersedes (sr_record t') (sr_record t))"
  by (rule put_cases [of c now r st]) (auto simp: held_put_result wins_def)

section \<open>The other operations\<close>

lemma held_purge:
  "hm_wf (st_records st) \<Longrightarrow>
   held (snd (purge_expired now st)) k =
     (case held st k of None \<Rightarrow> None
      | Some r \<Rightarrow> if is_expired (sr_record r) now then None else Some r)"
  by (auto simp: purge_expired_def Let_def map_of_filter split: option.splits)

lemma purge_frame [simp]:
  "st_bindings (snd (purge_expired now st)) = st_bindings st"
  "st_identity_index (snd (purge_expired now st)) = st_identity_index st"
  "st_path (snd (purge_expired now st)) = st_path st"
  by (simp_all add: purge_expired_def Let_def)

lemma st_records_purge:
  "st_records (snd (purge_expired now st)) =
     filter (\<lambda>(_, r). \<not> is_expired (sr_record r) now) (st_records st)"
  by (simp add: purge_expired_def Let_def)

lemma purge_count:
  "fst (purge_expired now st) = length (filter (\<lambda>(_, r). is_expired (sr_record r) now) (st_records st))"
proof -
  have "length (filter (\<lambda>(_, r). \<not> is_expired (sr_record r) now) (st_records st)) +
      length (filter (\<lambda>(_, r). is_expired (sr_record r) now) (st_records st)) =
      length (st_records st)"
    using sum_length_filter_compl [of "\<lambda>(_, r). is_expired (sr_record r) now" "st_records st"]
    by (simp add: case_prod_unfold)
  then show ?thesis by (simp add: purge_expired_def Let_def)
qed

lemma purge_terminal:
  "hm_wf (st_records st) \<Longrightarrow> held st k = Some t \<Longrightarrow> is_terminal (sr_record t) \<Longrightarrow>
   held (snd (purge_expired now st)) k = Some t"
  by (simp add: held_purge)

lemma purge_inv:
  assumes inv: "store_inv c st"
  shows "store_inv c (snd (purge_expired now st))"
proof -
  let ?st = "snd (purge_expired now st)"
  have sub: "held ?st k = Some r \<Longrightarrow> held st k = Some r" for k r
    using inv by (auto simp: held_purge store_inv_def split: option.splits if_splits)
  have "index_inv ?st"
    using inv unfolding store_inv_def index_inv_def by simp
  moreover have "record_inv c ?st"
    using inv sub by (auto simp: store_inv_def record_inv_def)
  moreover have "hm_wf (st_records ?st)"
    using inv by (simp add: st_records_purge store_inv_def)
  ultimately show ?thesis
    using inv sub by (auto simp: store_inv_def)
qed

lemma get_held: "get now k st = Some r \<longleftrightarrow> held st k = Some r \<and> \<not> is_expired (sr_record r) now"
  by (auto simp: get_def split: option.splits)

text \<open>The order of the sync listing: by issue time, then by key. Keys are unique, so it is strict.\<close>

definition sync_key :: "signed_record \<Rightarrow> u64 \<times> pubkey" where
  "sync_key r = (rec_issued_at (sr_record r), sr_key r)"

definition sync_eligible :: "u64 \<Rightarrow> u64 \<Rightarrow> signed_record \<Rightarrow> bool" where
  "sync_eligible now from r \<longleftrightarrow> rec_issued_at (sr_record r) \<ge> from \<and> \<not> is_expired (sr_record r) now"

definition sync_list :: "u64 \<Rightarrow> u64 \<Rightarrow> store \<Rightarrow> signed_record list" where
  "sync_list now from st = sort_key sync_key (filter (sync_eligible now from) (map snd (st_records st)))"

lemma since_eq:
  "since now from limit st = (take limit (sync_list now from st), length (sync_list now from st) \<le> limit)"
  by (simp add: since_def sync_list_def sync_eligible_def [abs_def] sync_key_def [abs_def] Let_def)

lemma set_sync_list:
  "hm_wf (st_records st) \<Longrightarrow>
   r \<in> set (sync_list now from st) \<longleftrightarrow> (\<exists>k. held st k = Some r) \<and> sync_eligible now from r"
  using hm_values_iff [of "st_records st" r] by (auto simp: sync_list_def)

lemma sorted_sync_list: "sorted (map sync_key (sync_list now from st))"
  by (simp add: sync_list_def)

lemma distinct_sync_keys:
  assumes "store_inv c st"
  shows "distinct (map sync_key (sync_list now from st))"
proof -
  have wf: "hm_wf (st_records st)"
    and key: "\<And>k r. (k, r) \<in> set (st_records st) \<Longrightarrow> sr_key r = k"
    using assms by (auto simp: store_inv_def record_inv_def map_of_eq_Some_iff)
  have "map sr_key (map snd (st_records st)) = map fst (st_records st)"
    using key by auto
  then have "distinct (map sr_key (map snd (st_records st)))" using wf by (simp only:)
  then have "distinct (map sr_key (filter (sync_eligible now from) (map snd (st_records st))))"
    by (rule distinct_map_filter)
  then have "distinct (map sync_key (filter (sync_eligible now from) (map snd (st_records st))))"
    by (auto simp: distinct_map inj_on_def sync_key_def)
  then show ?thesis
    unfolding sync_list_def by (simp add: distinct_map inj_on_def)
qed

section \<open>The contract the store's clients rely on\<close>

text \<open>
  The server, the replicator and the snapshot loader feed records to \<open>put\<close> one after the
  other, each at its own reading of the clock. What they rely on is this interface: whatever
  arrives, the invariant holds, retirements and bindings stay, and a key's record moves
  forward only.
\<close>

locale record_store =
  fixes put1 :: "u64 \<Rightarrow> signed_record \<Rightarrow> 's \<Rightarrow> put_outcome res \<times> 's"
    and held1 :: "'s \<Rightarrow> pubkey \<Rightarrow> signed_record option"
    and bound1 :: "'s \<Rightarrow> pubkey \<Rightarrow> pubkey option"
    and inv1 :: "'s \<Rightarrow> bool"
  assumes keeps_inv: "inv1 s \<Longrightarrow> inv1 (snd (put1 now r s))"
    and keeps_terminal: "held1 s k = Some t \<Longrightarrow> is_terminal (sr_record t) \<Longrightarrow>
      held1 (snd (put1 now r s)) k = Some t"
    and keeps_bound: "bound1 s k = Some i \<Longrightarrow> bound1 (snd (put1 now r s)) k = Some i"
    and moves_forward: "held1 s k = Some t \<Longrightarrow>
      \<exists>t'. held1 (snd (put1 now r s)) k = Some t' \<and>
           (t' = t \<or> supersedes (sr_record t') (sr_record t))"
begin

abbreviation feed :: "(u64 \<times> signed_record) list \<Rightarrow> 's \<Rightarrow> 's" where
  "feed xs s \<equiv> fold (\<lambda>(now, r) s. snd (put1 now r s)) xs s"

lemma feed_inv: "inv1 s \<Longrightarrow> inv1 (feed xs s)"
  by (induction xs arbitrary: s) (auto simp: keeps_inv)

lemma feed_terminal:
  "held1 s k = Some t \<Longrightarrow> is_terminal (sr_record t) \<Longrightarrow> held1 (feed xs s) k = Some t"
  by (induction xs arbitrary: s) (auto simp: keeps_terminal)

lemma feed_bound: "bound1 s k = Some i \<Longrightarrow> bound1 (feed xs s) k = Some i"
  by (induction xs arbitrary: s) (auto simp: keeps_bound)

lemma feed_forward:
  "held1 s k = Some t \<Longrightarrow>
   \<exists>t'. held1 (feed xs s) k = Some t' \<and> (t' = t \<or> supersedes (sr_record t') (sr_record t))"
proof (induction xs arbitrary: s t)
  case Nil
  then show ?case by simp
next
  case (Cons x xs)
  obtain now r where x: "x = (now, r)" by (cases x)
  from moves_forward [OF Cons.prems] obtain t1
    where t1: "held1 (snd (put1 now r s)) k = Some t1"
      and le: "t1 = t \<or> supersedes (sr_record t1) (sr_record t)" by blast
  from Cons.IH [OF t1] le show ?case
    by (auto simp: x intro: supersedes_trans)
qed

end

interpretation st: record_store "put c" "\<lambda>st. held st" "\<lambda>st. bound st" "store_inv c" for c
  by unfold_locales (auto intro: put_inv put_terminal put_bound put_progress)

section \<open>Runs of the store\<close>

text \<open>Records put one after the other, each at its time.\<close>

abbreviation feed :: "'v verifier_scheme \<Rightarrow> (u64 \<times> signed_record) list \<Rightarrow> store \<Rightarrow> store" where
  "feed c \<equiv> fold (\<lambda>(now, r) st. snd (put c now r st))"

inductive store_step :: "'v verifier_scheme \<Rightarrow> store \<Rightarrow> store \<Rightarrow> bool" for c where
  step_put: "store_step c st (snd (put c now r st))"
| step_purge: "store_step c st (snd (purge_expired now st))"

inductive_cases store_stepE [elim!]: "store_step c st st'"

lemma store_step_inv: "store_step c st st' \<Longrightarrow> store_inv c st \<Longrightarrow> store_inv c st'"
  by (auto intro: put_inv purge_inv)

lemma store_run_inv: "rtranclp (store_step c) st st' \<Longrightarrow> store_inv c st \<Longrightarrow> store_inv c st'"
  by (induction rule: rtranclp_induct) (auto intro: put_inv purge_inv)

lemma store_run_terminal:
  "rtranclp (store_step c) st st' \<Longrightarrow> store_inv c st \<Longrightarrow> held st k = Some t \<Longrightarrow>
   is_terminal (sr_record t) \<Longrightarrow> held st' k = Some t"
proof (induction rule: rtranclp_induct)
  case base
  then show ?case by simp
next
  case (step y z)
  from step have "store_inv c y" and "held y k = Some t"
    using store_run_inv by blast+
  with step(2,6) show ?case
    by (auto intro: put_terminal purge_terminal simp: store_inv_def)
qed

lemma store_run_bound:
  "rtranclp (store_step c) st st' \<Longrightarrow> bound st k = Some i \<Longrightarrow> bound st' k = Some i"
  by (induction rule: rtranclp_induct) (auto intro: put_bound)

section \<open>Listings of an identity\<close>

text \<open>The records a store lists for an identity, before the limit cuts them.\<close>

definition identity_list :: "u64 \<Rightarrow> pubkey \<Rightarrow> store \<Rightarrow> signed_record list" where
  "identity_list now i st =
     filter (\<lambda>r. \<not> is_expired (sr_record r) now)
       (List.map_filter (held st) (case map_of (st_identity_index st) i of None \<Rightarrow> [] | Some ks \<Rightarrow> ks))"

lemma identity_records_eq: "identity_records now i limit st = take limit (identity_list now i st)"
  by (simp add: identity_records_def identity_list_def List.map_filter_def split: option.splits)

lemma index_keys:
  assumes "store_inv c st"
  shows "set (case map_of (st_identity_index st) i of None \<Rightarrow> [] | Some ks \<Rightarrow> ks) = {k. bound st k = Some i}"
    and "distinct (case map_of (st_identity_index st) i of None \<Rightarrow> [] | Some ks \<Rightarrow> ks)"
proof -
  have inv: "\<And>k. (\<exists>ks. map_of (st_identity_index st) i = Some ks \<and> k \<in> set ks) \<longleftrightarrow> bound st k = Some i"
    and dist: "\<And>ks. map_of (st_identity_index st) i = Some ks \<Longrightarrow> distinct ks"
    using assms unfolding store_inv_def index_inv_def by blast+
  show "set (case map_of (st_identity_index st) i of None \<Rightarrow> [] | Some ks \<Rightarrow> ks) = {k. bound st k = Some i}"
  proof (cases "map_of (st_identity_index st) i")
    case None
    with inv have "bound st k \<noteq> Some i" for k by simp
    with None show ?thesis by simp
  next
    case (Some ks)
    with inv have "k \<in> set ks \<longleftrightarrow> bound st k = Some i" for k by simp
    with Some show ?thesis by auto
  qed
  show "distinct (case map_of (st_identity_index st) i of None \<Rightarrow> [] | Some ks \<Rightarrow> ks)"
  proof (cases "map_of (st_identity_index st) i")
    case (Some ks)
    with dist [OF Some] show ?thesis by simp
  qed simp
qed

lemma set_identity_list:
  assumes "store_inv c st"
  shows "r \<in> set (identity_list now i st) \<longleftrightarrow>
    held st (sr_key r) = Some r \<and> sr_identity r = i \<and> \<not> is_expired (sr_record r) now"
proof -
  have key: "held st k = Some r \<Longrightarrow> sr_key r = k \<and> bound st k = Some (sr_identity r)" for k r
    using assms by (auto simp: store_inv_def record_inv_def)
  have "r \<in> set (identity_list now i st) \<longleftrightarrow>
      (\<exists>k. bound st k = Some i \<and> held st k = Some r) \<and> \<not> is_expired (sr_record r) now"
    using index_keys(1) [OF assms, of i] by (force simp: identity_list_def List.map_filter_def)
  then show ?thesis using key by fastforce
qed

lemma distinct_identity_list:
  assumes "store_inv c st"
  shows "distinct (map sr_key (identity_list now i st))"
proof -
  let ?ks = "case map_of (st_identity_index st) i of None \<Rightarrow> [] | Some ks \<Rightarrow> ks"
  have key: "held st k = Some r \<Longrightarrow> sr_key r = k" for k r
    using assms by (auto simp: store_inv_def record_inv_def)
  have "map sr_key (List.map_filter (held st) ks) = filter (\<lambda>k. held st k \<noteq> None) ks" for ks
    using key by (induction ks) (auto simp: List.map_filter_def)
  then have "distinct (map sr_key (List.map_filter (held st) ?ks))" using index_keys(2) [OF assms, of i] by simp
  then show ?thesis by (simp add: identity_list_def distinct_map_filter)
qed

end
