(* ===== verification/Samples.thy ===== *)
theory Samples
  imports Store
begin

text \<open>
  Concrete keys, records and stores over the instance \<open>toy_ed25519\<close>, shared by the witnesses
  of the property theories.
\<close>

definition key_n :: "byte \<Rightarrow> pubkey" where
  "key_n n = public_of toy_ed25519 n"

definition toy_sign :: "sqns_record \<Rightarrow> byte \<Rightarrow> signed_record" where
  "toy_sign r sk = \<lparr>sr_record = r, sr_signature = sk_sign toy_ed25519 sk (signed_message (record_encode r))\<rparr>"

definition deleg :: "byte \<Rightarrow> byte \<Rightarrow> delegation" where
  "deleg i k = delegation_issue toy_ed25519 i (key_n k) 100000"

text \<open>A live record for key \<open>k\<close> under identity \<open>i\<close>, and retirements of it.\<close>

definition live :: "byte \<Rightarrow> byte \<Rightarrow> u64 \<Rightarrow> u64 \<Rightarrow> u32 \<Rightarrow> endpoint list \<Rightarrow> signed_record" where
  "live i k serial issued ttl eps = toy_sign (record_live issued (key_n k) (deleg i k) serial ttl eps) k"

definition superseded :: "byte \<Rightarrow> byte \<Rightarrow> u64 \<Rightarrow> u64 \<Rightarrow> byte \<Rightarrow> signed_record" where
  "superseded i k serial issued k' =
     toy_sign (record_superseded issued (key_n k) (deleg i k) serial (key_n k') (lit ''rotated'')) i"

definition revoked :: "byte \<Rightarrow> byte \<Rightarrow> u64 \<Rightarrow> u64 \<Rightarrow> signed_record" where
  "revoked i k serial issued =
     toy_sign (record_revoked issued (key_n k) (deleg i k) serial (lit ''stolen'')) i"

definition v4_endpoint :: "u16 \<Rightarrow> endpoint" where
  "v4_endpoint port = endpoint_new (V4 [127, 0, 0, 1]) port"

lemma as_bytes_key_n [simp]: "as_bytes (key_n n) = replicate 32 n"
  by (simp add: key_n_def)

lemma key_n_eq [simp]: "key_n a = key_n b \<longleftrightarrow> a = b"
  by (simp add: key_n_def public_of_def)

lemma key_n_public [simp]: "public_of toy_ed25519 n = key_n n"
  by (simp add: key_n_def)

lemma pubkey_ok_key_n [simp]: "pubkey_ok (key_n n)"
  by (simp add: pubkey_ok_def)

lemma deleg_simps [simp]:
  "dl_identity (deleg i k) = key_n i"
  "dl_not_after (deleg i k) = 100000"
  "dl_signature (deleg i k) = replicate 64 i"
  by (simp_all add: deleg_def flip: replicate_add)

lemma toy_sign_simps [simp]:
  "sr_record (toy_sign r sk) = r"
  "sr_signature (toy_sign r sk) = replicate 64 sk"
  by (simp_all add: toy_sign_def flip: replicate_add)

lemma record_live_simps [simp]:
  "rec_key (record_live now k d n t eps) = k"
  "rec_delegation (record_live now k d n t eps) = d"
  "rec_serial (record_live now k d n t eps) = n"
  "rec_issued_at (record_live now k d n t eps) = now"
  "rec_ttl (record_live now k d n t eps) = t"
  "rec_body (record_live now k d n t eps) = Live eps"
  by (simp_all add: record_live_def)

lemma record_superseded_simps [simp]:
  "rec_key (record_superseded now k d n s w) = k"
  "rec_delegation (record_superseded now k d n s w) = d"
  "rec_serial (record_superseded now k d n s w) = n"
  "rec_issued_at (record_superseded now k d n s w) = now"
  "rec_body (record_superseded now k d n s w) = Superseded s w"
  by (simp_all add: record_superseded_def)

lemma record_revoked_simps [simp]:
  "rec_key (record_revoked now k d n w) = k"
  "rec_delegation (record_revoked now k d n w) = d"
  "rec_serial (record_revoked now k d n w) = n"
  "rec_issued_at (record_revoked now k d n w) = now"
  "rec_body (record_revoked now k d n w) = Revoked w"
  by (simp_all add: record_revoked_def)

lemma constructors_terminal [simp]:
  "\<not> is_terminal (record_live now k d n t eps)"
  "is_terminal (record_superseded now k d n s w)"
  "is_terminal (record_revoked now k d n w)"
  by (simp_all add: is_terminal_iff)

lemma rec_identity_simps [simp]:
  "rec_identity (record_live now k d n t eps) = dl_identity d"
  "rec_identity (record_superseded now k d n s w) = dl_identity d"
  "rec_identity (record_revoked now k d n w) = dl_identity d"
  by (simp_all add: rec_identity_def)

lemma sample_key [simp]:
  "sr_key (live i k n t l eps) = key_n k"
  "sr_key (superseded i k n t s) = key_n k"
  "sr_key (revoked i k n t) = key_n k"
  "sr_identity (live i k n t l eps) = key_n i"
  "sr_identity (superseded i k n t s) = key_n i"
  "sr_identity (revoked i k n t) = key_n i"
  by (simp_all add: sr_key_def sr_identity_def live_def superseded_def revoked_def)

lemma sample_terminal [simp]:
  "\<not> is_terminal (sr_record (live i k n t l eps))"
  "is_terminal (sr_record (superseded i k n t s))"
  "is_terminal (sr_record (revoked i k n t))"
  by (simp_all add: live_def superseded_def revoked_def)

lemma sample_fields [simp]:
  "rec_serial (sr_record (live i k n t l eps)) = n"
  "rec_issued_at (sr_record (live i k n t l eps)) = t"
  "rec_ttl (sr_record (live i k n t l eps)) = l"
  "rec_body (sr_record (live i k n t l eps)) = Live eps"
  "rec_delegation (sr_record (live i k n t l eps)) = deleg i k"
  "rec_serial (sr_record (superseded i k n t s)) = n"
  "rec_issued_at (sr_record (superseded i k n t s)) = t"
  "rec_issued_at (sr_record (revoked i k n t)) = t"
  by (simp_all add: live_def superseded_def revoked_def)

lemma sample_verifies:
  "delegated toy_ed25519 (sr_record (live i k n t l eps))"
  "delegated toy_ed25519 (sr_record (superseded i k n t s))"
  "delegated toy_ed25519 (sr_record (revoked i k n t))"
  "signed_by toy_ed25519 (expected_signer (sr_record (live i k n t l eps))) (live i k n t l eps)"
  "signed_by toy_ed25519 (expected_signer (sr_record (superseded i k n t s))) (superseded i k n t s)"
  "signed_by toy_ed25519 (expected_signer (sr_record (revoked i k n t))) (revoked i k n t)"
  by (simp_all add: delegated_def signed_by_def live_def superseded_def revoked_def live_signer
      terminal_signer flip: replicate_add)

lemma live_valid:
  "i \<noteq> k \<Longrightarrow> length eps \<le> 255 \<Longrightarrow> 30 \<le> l \<Longrightarrow> l \<le> 604800 \<Longrightarrow>
   valid_record toy_ed25519 (sr_record (live i k n t l eps))"
  by (simp add: valid_record_def live_def)

lemma retired_valid:
  "i \<noteq> k \<Longrightarrow> s \<noteq> k \<Longrightarrow> valid_record toy_ed25519 (sr_record (superseded i k n t s))"
  "i \<noteq> k \<Longrightarrow> valid_record toy_ed25519 (sr_record (revoked i k n t))"
  by (simp_all add: valid_record_def superseded_def revoked_def lit_def)

lemma live_expired:
  "is_expired (sr_record (live i k n t l eps)) now \<longleftrightarrow> saturating_add t (ucast l) \<le> now"
  by (simp add: is_expired_def expires_at_def live_def)

lemma live_timely:
  "now < 100000 \<Longrightarrow> now < saturating_add t (ucast l) \<Longrightarrow> timely (sr_record (live i k n t l eps)) now"
  by (simp add: timely_def is_expired_def expires_at_def delegation_is_expired_def NEVER_EXPIRES_def
      live_def not_le)

lemma retired_timely:
  "timely (sr_record (superseded i k n t s)) now" "timely (sr_record (revoked i k n t)) now"
  by (simp_all add: timely_def)

lemmas sample_checks =
  sample_verifies live_valid retired_valid live_timely retired_timely admissible_def
  MAX_CLOCK_SKEW_def saturating_add_def

text \<open>A store that holds one live record, and one that holds a retirement.\<close>

definition store_live :: store where
  "store_live = snd (put toy_ed25519 1000 (live 1 2 5 1000 300 [v4_endpoint 5300]) (store_new None))"

definition store_retired :: store where
  "store_retired = snd (put toy_ed25519 1010 (superseded 1 2 6 1010 3) store_live)"

lemma put_new:
  "admissible c now r \<Longrightarrow> put c now r (store_new path) = (Inr Stored, put_result r (store_new path))"
  by (simp add: put_stored_iff wins_def store_new_def)

lemma store_live_eq:
  "store_live = put_result (live 1 2 5 1000 300 [v4_endpoint 5300]) (store_new None)"
  by (simp add: store_live_def put_new sample_checks)

lemma held_store_live [simp]:
  "held store_live = [key_n 2 \<mapsto> live 1 2 5 1000 300 [v4_endpoint 5300]]"
  by (simp add: store_live_eq held_put_result) (simp add: store_new_def)

lemma bound_store_live [simp]: "bound store_live = [key_n 2 \<mapsto> key_n 1]"
  unfolding store_live_eq by (subst bound_put_result) (simp_all add: store_new_def wins_def)

lemma store_retired_eq: "store_retired = put_result (superseded 1 2 6 1010 3) store_live"
proof -
  have "put toy_ed25519 1010 (superseded 1 2 6 1010 3) store_live =
      (Inr Stored, put_result (superseded 1 2 6 1010 3) store_live)"
    by (simp add: put_stored_iff sample_checks wins_def supersedes_iff)
  then show ?thesis by (simp add: store_retired_def)
qed

lemma held_store_retired [simp]: "held store_retired = [key_n 2 \<mapsto> superseded 1 2 6 1010 3]"
  by (simp add: store_retired_eq held_put_result)

lemma store_inv_samples: "store_inv toy_ed25519 store_live" "store_inv toy_ed25519 store_retired"
  unfolding store_live_def store_retired_def by (intro put_inv store_inv_new)+

lemma put_result_new_fields:
  "st_records (put_result r (store_new p)) = [(sr_key r, r)]"
  "st_bindings (put_result r (store_new p)) = [(sr_key r, sr_identity r)]"
  by (simp_all add: put_result_def) (simp_all add: bind_def store_new_def Let_def)

text \<open>
  A second instance, for the programs that keep keys as seeds: a signing key is a seed, its public key repeats the first byte, and
  it verifies what the instance over single bytes verifies.
\<close>

definition seed_ed25519 :: "bytes ed25519" where
  "seed_ed25519 =
     \<lparr>vk_ok = vk_ok toy_ed25519, vk_verify = vk_verify toy_ed25519,
      sk_public = (\<lambda>sk. replicate 32 (if sk = [] then 0 else hd sk)),
      sk_sign = (\<lambda>sk m. replicate 64 (if sk = [] then 0 else hd sk))\<rparr>"

lemma seed_ed25519_simps [simp]:
  "vk_ok seed_ed25519 = vk_ok toy_ed25519" "vk_verify seed_ed25519 = vk_verify toy_ed25519"
  "sk_public seed_ed25519 sk = replicate 32 (if sk = [] then 0 else hd sk)"
  "sk_sign seed_ed25519 sk m = replicate 64 (if sk = [] then 0 else hd sk)"
  by (simp_all add: seed_ed25519_def)

lemma seed_ed25519_correct: "ed25519_correct seed_ed25519"
  by (simp add: ed25519_correct_def flip: replicate_add)

lemma public_of_seed [simp]: "public_of seed_ed25519 (replicate 32 n) = key_n n"
  by (simp add: public_of_def key_n_def)

lemma seed_checks [simp]:
  "valid_record seed_ed25519 r = valid_record toy_ed25519 r"
  "delegated seed_ed25519 r = delegated toy_ed25519 r"
  "signed_by seed_ed25519 k s = signed_by toy_ed25519 k s"
proof -
  have "body_valid seed_ed25519 r b = body_valid toy_ed25519 r b" for b by (cases b) simp_all
  then show "valid_record seed_ed25519 r = valid_record toy_ed25519 r" by (simp add: valid_record_def)
qed (simp_all add: delegated_def signed_by_def)

lemma store_inv_seed: "store_inv seed_ed25519 st = store_inv toy_ed25519 st"
  by (simp add: store_inv_def record_inv_def)

end
