(* ===== verification/Record_Props.thy ===== *)
theory Record_Props
  imports Samples
begin

text \<open>
  The properties of records, delegations and their encodings: canonical encoding, what an
  accepted answer proves, who can retire a key, which record wins, and the bounds within which
  the encoding is faithful.
\<close>

section \<open>Canonical encoding\<close>

text \<open>
  C14. Signed records round-trip and nothing else decodes: \<open>SignedRecord::decode\<close> accepts a byte
  string exactly when it is the encoding of a well-formed signed record, and returns that
  record. In particular no second encoding of a record exists (the signature input is not
  malleable), and truncated or over-long input is refused.
\<close>

theorem signed_record_canonical:
  "sr_decode b = Inr s \<longleftrightarrow> signed_record_ok s \<and> b = sr_encode s"
  by (rule sr_decode_iff)

text \<open>
  A delegation file is accepted exactly when it is the encoding of a well-formed pair of a
  service key and a delegation whose signature by the identity covers that very key: a file that
  was tampered with fails when it is read.
\<close>

theorem delegation_file_canonical:
  "delegation_file_decode c b = Inr f \<longleftrightarrow>
     delegation_file_ok f \<and> b = delegation_file_encode f \<and>
     vk_ok c (as_bytes (df_identity f)) \<and>
     vk_verify c (as_bytes (df_identity f))
       (delegation_message (df_identity f) (df_service_key f) (dl_not_after (df_delegation f)))
       (dl_signature (df_delegation f))"
  by (auto simp: delegation_file_decode_def delegation_file.full_iff delegation_verify_def
      df_identity_def)

section \<open>What an accepted answer proves\<close>

text \<open>
  C13. A client accepts an answer exactly when the record speaks for the key that was asked for,
  the identity named in it signed a delegation over that key, the record is signed by the
  service key (live) or by the identity (retired), the structural limits hold, and, unless it is
  a retirement, neither the record nor its delegation has expired.
\<close>

theorem verify_answer_spec:
  "verify_answer c s k now = Inr () \<longleftrightarrow>
     rec_key (sr_record s) = k \<and> delegated c (sr_record s) \<and>
     signed_by c (if is_terminal (sr_record s) then rec_identity (sr_record s) else k) s \<and>
     valid_record c (sr_record s) \<and>
     (is_terminal (sr_record s) \<or>
      (\<not> delegation_is_expired (rec_delegation (sr_record s)) now \<and>
       now < expires_at (sr_record s)))"
  by (auto simp: verify_answer_iff sr_key_def timely_def terminal_signer live_signer is_expired_def)

text \<open>
  C12. No server can forge or alter a live record. If signatures are unforgeable and the holder of
  a service key has only ever signed the records in \<open>R\<close> (and delegations), then every live
  record that a client accepts for that key is one of \<open>R\<close>, field for field: endpoints, serial,
  times and delegation included.
\<close>

theorem live_record_authentic:
  assumes "unforgeable c said" and "signs_only said k R"
    and "verify_answer c s k now = Inr ()" and "\<not> is_terminal (sr_record s)"
    and "record_ok (sr_record s)"
  shows "sr_record s \<in> R"
proof -
  have "signed_by c k s"
    using assms(3,4) by (auto simp: verify_answer_iff live_signer sr_key_def)
  with assms(1,2,5) show ?thesis by (intro signed_by_only)
qed

text \<open>
  A verifier for the witness: exactly one record by key 2 and the delegation over it by key 1
  verify.
\<close>

definition one_record :: signed_record where
  "one_record = live 1 2 5 1000 300 [v4_endpoint 5300]"

definition one_said :: "bytes \<Rightarrow> bytes set" where
  "one_said k =
     (if k = as_bytes (key_n 2) then {signed_message (record_encode (sr_record one_record))}
      else if k = as_bytes (key_n 1) then {delegation_message (key_n 1) (key_n 2) 100000} else {})"

definition one_verifier :: verifier where
  "one_verifier = \<lparr>vk_ok = (\<lambda>k. length k = 32), vk_verify = (\<lambda>k m s. m \<in> one_said k)\<rparr>"

lemma one_record_ok: "record_ok (sr_record one_record)"
  by (simp add: one_record_def record_ok_def delegation_ok_def endpoint_ok_def v4_endpoint_def
      endpoint_new_def live_def)

lemma one_record_accepted: "verify_answer one_verifier one_record (key_n 2) 1100 = Inr ()"
proof -
  have "delegated one_verifier (sr_record one_record)"
    by (simp add: delegated_def one_verifier_def one_said_def one_record_def live_def)
  moreover have "signed_by one_verifier (key_n 2) one_record"
    by (simp add: signed_by_def one_verifier_def one_said_def)
  moreover have "valid_record one_verifier (sr_record one_record)"
    by (simp add: valid_record_def one_verifier_def one_record_def live_def)
  moreover have "timely (sr_record one_record) 1100"
    unfolding one_record_def by (rule live_timely) (simp_all add: saturating_add_def)
  ultimately show ?thesis
    by (simp add: verify_answer_iff one_record_def live_signer) (simp add: live_def)
qed

lemma one_said_only: "signs_only one_said (key_n 2) {sr_record one_record}"
  by (simp add: signs_only_def one_said_def one_record_ok)

theorem live_record_authentic_witness:
  "unforgeable one_verifier one_said \<and> verify_answer one_verifier one_record (key_n 2) 1100 = Inr () \<and>
   sr_record one_record \<in> {sr_record one_record}"
proof -
  have u: "unforgeable one_verifier one_said" by (simp add: unforgeable_def one_verifier_def)
  have t: "\<not> is_terminal (sr_record one_record)" by (simp add: one_record_def)
  show ?thesis
    using u one_record_accepted
      live_record_authentic [OF u one_said_only one_record_accepted t one_record_ok] by blast
qed

text \<open>
  What the right keys sign is accepted: a record whose delegation was issued by an identity
  over its key, signed with \<open>Record::sign\<close>, passes the client's checks for as long as it and its
  delegation are unexpired (for ever, when it retires the key).
\<close>

theorem signed_record_accepted:
  assumes "ed25519_correct c"
    and "rec_delegation r = delegation_issue c identity (rec_key r) not_after"
    and "record_sign c r sk = Inr s"
    and "validate c r = Inr ()"
    and "is_terminal r \<or> (now < expires_at r \<and> \<not> delegation_is_expired (rec_delegation r) now)"
  shows "verify_answer c s (rec_key r) now = Inr ()"
proof (rule sign_verify [OF assms(1,3,2)])
  show "valid_record c r" using assms(4) by (simp add: validate_iff)
  show "timely r now" using assms(5) by (auto simp: timely_def is_expired_def)
qed

theorem signed_record_accepted_witness:
  "verify_answer toy_ed25519 (live 1 2 5 1000 300 []) (key_n 2) 1100 = Inr ()"
proof -
  let ?r = "record_live 1000 (key_n 2) (deleg 1 2) 5 300 []"
  have "verify_answer toy_ed25519 (live 1 2 5 1000 300 []) (rec_key ?r) 1100 = Inr ()"
  proof (rule signed_record_accepted [where identity = 1 and not_after = 100000 and sk = 2])
    show "ed25519_correct toy_ed25519" by (rule toy_ed25519_correct)
    show "rec_delegation ?r = delegation_issue toy_ed25519 1 (rec_key ?r) 100000"
      by (simp add: deleg_def)
    show "record_sign toy_ed25519 ?r 2 = Inr (live 1 2 5 1000 300 [])"
      by (simp add: record_sign_iff live_signer live_def toy_sign_def)
    show "validate toy_ed25519 ?r = Inr ()" by (simp add: validate_iff valid_record_def)
    show "is_terminal ?r \<or> (1100 < expires_at ?r \<and> \<not> delegation_is_expired (rec_delegation ?r) 1100)"
      by (simp add: expires_at_def saturating_add_def delegation_is_expired_def)
  qed
  then show ?thesis by simp
qed

text \<open>
  A retirement rests on nothing but the identity key it names itself. Whoever holds any key
  pair can delegate any other valid public key to itself and sign a supersede of it to a key of
  its choice; the record passes every check of \<open>verify_answer\<close>, although the holder of the retired
  key signed nothing. (What stands against it is memory: a store or a resolver that has seen the
  key under its real identity refuses it.)
\<close>

theorem stranger_retirement_verifies:
  assumes "ed25519_correct c" and "vk_ok c (as_bytes victim)" and "victim \<noteq> public_of c stranger"
    and "vk_ok c (as_bytes target)" and "target \<noteq> victim" and "length reason \<le> 256"
  shows "\<exists>s. record_sign c (record_superseded now victim
                 (delegation_issue c stranger victim not_after) serial target reason) stranger = Inr s \<and>
             verify_answer c s victim later = Inr ()"
proof -
  let ?r = "record_superseded now victim (delegation_issue c stranger victim not_after) serial target reason"
  obtain s where s: "record_sign c ?r stranger = Inr s"
    by (simp add: record_sign_iff terminal_signer)
  have "valid_record c ?r"
    using assms by (auto simp: valid_record_def ed25519_correctD)
  then have "verify_answer c s (rec_key ?r) later = Inr ()"
    using assms(1) s by (intro sign_verify [OF assms(1) s]) (auto simp: timely_def)
  with s show ?thesis by auto
qed

theorem stranger_retirement_verifies_witness:
  "\<exists>s. record_sign toy_ed25519 (record_superseded 1000 (key_n 2)
          (delegation_issue toy_ed25519 9 (key_n 2) 5000) 1 (key_n 8) []) 9 = Inr s \<and>
       verify_answer toy_ed25519 s (key_n 2) 1100 = Inr ()"
  by (rule stranger_retirement_verifies [OF toy_ed25519_correct]) simp_all

section \<open>Which record wins\<close>

text \<open>
  \<open>supersedes\<close> is a strict order with retirements on top: irreflexive, transitive, no record
  beats a retirement, a retirement beats every live record, and two live records are ordered
  unless both serial and issue time agree.
\<close>

theorem supersedes_strict_order:
  "\<not> supersedes a a \<and>
   (supersedes a b \<and> supersedes b d \<longrightarrow> supersedes a d) \<and>
   (is_terminal b \<longrightarrow> \<not> supersedes a b) \<and>
   (is_terminal a \<and> \<not> is_terminal b \<longrightarrow> supersedes a b) \<and>
   (\<not> is_terminal a \<and> \<not> is_terminal b \<longrightarrow>
      supersedes a b \<or> supersedes b a \<or>
      (rec_serial a = rec_serial b \<and> rec_issued_at a = rec_issued_at b))"
  using supersedes_irrefl supersedes_trans [of a b d] by (auto simp: supersedes_iff)

theorem supersedes_strict_order_witness:
  "supersedes (sr_record (superseded 1 2 1 10 3)) (sr_record (live 1 2 7 50 300 [])) \<and>
   \<not> supersedes (sr_record (live 1 2 9 90 300 [])) (sr_record (superseded 1 2 1 10 3))"
  using supersedes_strict_order [of "sr_record (superseded 1 2 1 10 3)" "sr_record (live 1 2 7 50 300 [])"]
    supersedes_strict_order [of "sr_record (live 1 2 9 90 300 [])" "sr_record (superseded 1 2 1 10 3)"]
  by simp

section \<open>Bounds\<close>

lemma length_endpoint_encode:
  assumes "endpoint_ok e"
  shows "length (endpoint_encode_into e []) \<le> 263"
  using assms
  by (cases "ep_host e")
    (auto simp: endpoint_encode_into_eq endpoint_ok_def short_string_ok_def put_short_string_def)

lemma length_endpoints_encode:
  "\<forall>e \<in> set eps. endpoint_ok e \<Longrightarrow>
   length (concat (map (\<lambda>e. endpoint_encode_into e []) eps)) \<le> 263 * length eps"
proof (induction eps)
  case (Cons e eps)
  then show ?case using length_endpoint_encode [of e] by simp
qed simp

text \<open>
  Within its limits the length prefix is faithful: a record that passes \<open>validate\<close> and has at
  most 248 endpoints fits the 16-bit length of the signed encoding, so it decodes back to itself.
\<close>

theorem validated_record_fits:
  assumes "record_ok (sr_record s)" and "length (sr_signature s) = 64"
    and "validate c (sr_record s) = Inr ()" and "length (endpoints (sr_record s)) \<le> 248"
  shows "sr_decode (sr_encode s) = Inr s"
proof -
  have v: "valid_record c (sr_record s)" using assms(3) by (simp add: validate_iff)
  have "length (body_encode (rec_body (sr_record s))) \<le> 65226"
  proof (cases "rec_body (sr_record s)")
    case (Live eps)
    then have "length eps \<le> 248" using assms(4) by (simp add: endpoints_def)
    then show ?thesis
      using Live assms(1) length_endpoints_encode [of eps] by (simp add: record_ok_def)
  next
    case (Superseded k reason)
    then show ?thesis
      using v assms(1) by (simp add: valid_record_def record_ok_def pubkey_ok_def put_string_def)
  next
    case (Revoked reason)
    then show ?thesis using v by (simp add: valid_record_def put_string_def)
  qed
  then have "length (record_encode (sr_record s)) \<le> 65535"
    using assms(1)
    by (simp add: record_encode_eq record_ok_def delegation_ok_def pubkey_ok_def delegation_encode_into_eq)
  with assms(1,2) show ?thesis by (simp add: sr_decode_iff signed_record_ok_def)
qed

theorem validated_record_fits_witness: "sr_decode (sr_encode one_record) = Inr one_record"
proof (rule validated_record_fits [where c = toy_ed25519])
  show "record_ok (sr_record one_record)" by (rule one_record_ok)
  show "length (sr_signature one_record) = 64" by (simp add: one_record_def live_def)
  show "validate toy_ed25519 (sr_record one_record) = Inr ()"
    by (simp add: validate_iff one_record_def live_valid)
  show "length (endpoints (sr_record one_record)) \<le> 248"
    by (simp add: one_record_def endpoints_def)
qed

text \<open>
  Beyond them it is not: \<open>validate\<close> admits 255 endpoints with 255-byte names, whose encoding
  is longer than 65535 bytes; the length prefix \<open>body.len() as u16\<close> wraps, and the signed
  encoding of such a record does not decode.
\<close>

theorem oversized_record_unreadable:
  "\<exists>s. record_ok (sr_record s) \<and> validate toy_ed25519 (sr_record s) = Inr () \<and>
       verify_answer toy_ed25519 s (rec_key (sr_record s)) 1100 = Inr () \<and>
       (\<exists>e. sr_decode (sr_encode s) = Inl e)"
proof -
  let ?e = "endpoint_new (Name (replicate 255 97)) 5300"
  let ?s = "live 1 2 5 1000 300 (replicate 255 ?e)"
  have ok: "record_ok (sr_record ?s)"
    by (simp add: live_def record_ok_def delegation_ok_def endpoint_ok_def endpoint_new_def
        short_string_ok_def utf8_valid_ascii)
  have v: "valid_record toy_ed25519 (sr_record ?s)" by (simp add: live_valid)
  then have ans: "verify_answer toy_ed25519 ?s (rec_key (sr_record ?s)) 1100 = Inr ()"
    by (simp add: verify_answer_iff sample_checks sr_key_def)
  have len: "length (record_encode (sr_record ?s)) > 65535"
    by (simp add: record_encode_eq live_def length_concat sum_list_replicate endpoint_encode_into_eq
        endpoint_new_def put_short_string_def)
  have "sr_decode (sr_encode ?s) \<noteq> Inr s'" for s'
  proof
    assume "sr_decode (sr_encode ?s) = Inr s'"
    then have ok': "signed_record_ok s'" and eq: "sr_encode ?s = sr_encode s'"
      by (simp_all add: sr_decode_iff)
    have "length (sr_encode ?s) = length (sr_encode s')" using eq by simp
    then have "length (record_encode (sr_record ?s)) = length (record_encode (sr_record s'))"
      using ok' by (simp add: sr_encode_eq signed_record_ok_def live_def)
    with len ok' show False by (simp add: signed_record_ok_def)
  qed
  then have "\<exists>e. sr_decode (sr_encode ?s) = Inl e"
    by (cases "sr_decode (sr_encode ?s)") auto
  with ok v ans show ?thesis by (auto simp: validate_iff)
qed

end
