(* ===== verification/Store_Props.thy ===== *)
theory Store_Props
  imports Samples
begin

text \<open>
  The properties of the record store: what \<open>put\<close> does on every branch, what a run of the
  store can never do (serve an unverified record, lose a retirement, re-bind a key, go back to
  an older record while the newer one is held), what the sync listing contains, and when the
  outcome depends on the order in which records arrive.
\<close>

section \<open>Admission\<close>

text \<open>
  C1. \<open>Store::put\<close> stores a record exactly when it is admissible (limits, delegation, signature,
  clock skew, expiry of record and delegation) and wins (the key is not retired, the key's
  identity is not another one, and the record supersedes the one held). Then it replaces the
  key's record, pins the identity and bumps the revision; on every other branch, errors and
  stale records alike, the store is left exactly as it was.
\<close>

theorem put_spec:
  "(fst (put c now r st) = Inr Stored \<longleftrightarrow> admissible c now r \<and> wins r st) \<and>
   (if fst (put c now r st) = Inr Stored
    then held (snd (put c now r st)) = (held st)(sr_key r \<mapsto> r) \<and>
         bound (snd (put c now r st)) = (bound st)(sr_key r \<mapsto> sr_identity r) \<and>
         revision (snd (put c now r st)) = revision st + 1
    else snd (put c now r st) = st)"
proof (cases rule: put_cases [of c now r st])
  case Stored
  then show ?thesis
    by (simp add: held_put_result bound_put_result revision_def) (simp add: put_result_def)
next
  case Stale
  then show ?thesis using put_stored_iff [of c now r st "put_result r st"] by auto
next
  case (Rejected e)
  then show ?thesis using put_stored_iff [of c now r st "put_result r st"] by auto
qed

text \<open>
  C15. Whatever is put and purged, and at whatever times, a store only serves records that verify:
  a record that \<open>get\<close> returns for a key passes the client's \<open>verify_answer\<close> for that key, unless
  its delegation has run out since it was accepted.
\<close>

theorem served_record_verifies:
  assumes "rtranclp (store_step c) (store_new path) st"
    and "get now k st = Some r"
  shows "(verify_answer c r k now = Inr () \<or> delegation_is_expired (rec_delegation (sr_record r)) now) \<and>
         identity_of k st = Some (sr_identity r)"
proof -
  have "store_inv c st" using store_run_inv [OF assms(1)] store_inv_new by blast
  moreover have "held st k = Some r" and "\<not> is_expired (sr_record r) now"
    using assms(2) by (auto simp: get_held)
  ultimately show ?thesis
    by (auto simp: store_inv_def record_inv_def verify_answer_iff timely_def identity_of_def)
qed

lemma store_live_run: "rtranclp (store_step toy_ed25519) (store_new None) store_live"
  unfolding store_live_def by (rule r_into_rtranclp) (rule step_put)

lemma store_retired_run: "rtranclp (store_step toy_ed25519) store_live store_retired"
  unfolding store_retired_def by (rule r_into_rtranclp) (rule step_put)

lemma store_live_get:
  "get 1100 (key_n 2) store_live = Some (live 1 2 5 1000 300 [v4_endpoint 5300])"
  by (simp add: get_held live_expired saturating_add_def)

theorem served_record_verifies_witness:
  "verify_answer toy_ed25519 (live 1 2 5 1000 300 [v4_endpoint 5300]) (key_n 2) 1100 = Inr () \<and>
   identity_of (key_n 2) store_live = Some (key_n 1)"
  using served_record_verifies [OF store_live_run store_live_get]
  by (simp add: delegation_is_expired_def)

section \<open>Retirement and bindings\<close>

text \<open>
  C2. Retirement is terminal. Once a store holds a retirement of a key, then after any sequence
  of \<open>put\<close>s and purges it still serves that very retirement at every time, and every further
  \<open>put\<close> for the key fails without changing the store.
\<close>

theorem retirement_is_permanent:
  assumes "store_inv c st" and "held st k = Some t" and "is_terminal (sr_record t)"
    and "rtranclp (store_step c) st st'"
  shows "get now k st' = Some t \<and>
         (\<forall>now' r. sr_key r = k \<longrightarrow> (\<exists>e. put c now' r st' = (Inl e, st')))"
proof -
  have held: "held st' k = Some t" using store_run_terminal [OF assms(4,1,2,3)] .
  have "\<exists>e. put c now' r st' = (Inl e, st')" if "sr_key r = k" for now' r
    using put_retired [of st' r t c now'] held that assms(3) by blast
  with held assms(3) show ?thesis by (simp add: get_held)
qed

theorem retirement_is_permanent_witness:
  "get 999999 (key_n 2) store_retired = Some (superseded 1 2 6 1010 3) \<and>
   (\<exists>e. put toy_ed25519 1020 (live 1 2 7 1020 300 []) store_retired = (Inl e, store_retired))"
proof -
  have "held store_retired (key_n 2) = Some (superseded 1 2 6 1010 3)" by simp
  from retirement_is_permanent [OF store_inv_samples(2) this sample_terminal(2) rtranclp.rtrancl_refl]
  show ?thesis by simp
qed

text \<open>
  C3. Only the identity a key was first published under can say anything about it later. Once a
  key is pinned to an identity, then after any sequence of \<open>put\<close>s and purges (so also when all
  records of the key have expired and been swept) it is pinned to the same identity, and every
  record held for it names that identity, carries its delegation and, if it retires the key, is
  signed by it.
\<close>

theorem binding_is_permanent:
  assumes "store_inv c st" and "identity_of k st = Some i"
    and "rtranclp (store_step c) st st'"
  shows "identity_of k st' = Some i \<and>
         (\<forall>r. held st' k = Some r \<longrightarrow>
            sr_identity r = i \<and> delegated c (sr_record r) \<and>
            (is_terminal (sr_record r) \<longrightarrow> signed_by c i r))"
proof -
  have inv: "store_inv c st'" using store_run_inv [OF assms(3,1)] .
  have b: "bound st' k = Some i" using store_run_bound [OF assms(3)] assms(2) by (simp add: identity_of_def)
  have "sr_identity r = i \<and> delegated c (sr_record r) \<and> (is_terminal (sr_record r) \<longrightarrow> signed_by c i r)"
    if "held st' k = Some r" for r
  proof -
    have "sr_identity r = i" and "delegated c (sr_record r)"
      and "signed_by c (expected_signer (sr_record r)) r"
      using inv b that by (auto simp: store_inv_def record_inv_def)
    then show ?thesis by (auto simp: terminal_signer sr_identity_def)
  qed
  with b show ?thesis by (simp add: identity_of_def)
qed

theorem binding_is_permanent_witness:
  "identity_of (key_n 2) store_retired = Some (key_n 1) \<and>
   signed_by toy_ed25519 (key_n 1) (superseded 1 2 6 1010 3)"
proof -
  have "identity_of (key_n 2) store_live = Some (key_n 1)" by (simp add: identity_of_def)
  from binding_is_permanent [OF store_inv_samples(1) this store_retired_run]
  show ?thesis by simp
qed

section \<open>Replay\<close>

text \<open>
  While a record is held it is never rolled back: after any sequence of \<open>put\<close>s, in any
  order and with any repetitions, a key's record is the one held before or one that supersedes
  it.
\<close>

theorem no_rollback_while_held:
  assumes "held st k = Some t"
  shows "\<exists>t'. held (feed c xs st) k = Some t' \<and>
           (t' = t \<or> supersedes (sr_record t') (sr_record t))"
  using assms by (rule st.feed_forward)

theorem no_rollback_while_held_witness:
  "\<exists>t'. held (fold (\<lambda>(now, r) st. snd (put toy_ed25519 now r st))
                [(1010, live 1 2 9 1005 300 []), (1020, live 1 2 4 990 900 [])] store_live) (key_n 2) = Some t' \<and>
     (t' = live 1 2 5 1000 300 [v4_endpoint 5300] \<or>
      supersedes (sr_record t') (sr_record (live 1 2 5 1000 300 [v4_endpoint 5300])))"
  by (rule no_rollback_while_held) simp

text \<open>
  Once it has expired and been swept, it can be: a record that the store refused as stale is
  accepted after the newer, shorter-lived record was purged, so \<open>get\<close> then serves the older
  serial again.
\<close>

theorem rollback_after_expiry:
  "\<exists>old new st now.
     supersedes (sr_record new) (sr_record old) \<and>
     put toy_ed25519 1000 new (store_new None) = (Inr Stored, st) \<and>
     put toy_ed25519 1000 old st = (Inr Stale, st) \<and>
     get now (key_n 2) (snd (put toy_ed25519 now old (snd (purge_expired now st)))) = Some old"
proof -
  let ?old = "live 1 2 4 990 900 []" and ?new = "live 1 2 5 1000 300 []"
  let ?st = "put_result ?new (store_new None)"
  have sup: "supersedes (sr_record ?new) (sr_record ?old)" by (simp add: supersedes_iff)
  have st: "put toy_ed25519 1000 ?new (store_new None) = (Inr Stored, ?st)"
    by (rule put_new) (simp add: sample_checks)
  have held: "held ?st = [key_n 2 \<mapsto> ?new]" by (simp add: held_put_result) (simp add: store_new_def)
  have bnd: "bound ?st = [key_n 2 \<mapsto> key_n 1]"
    by (subst bound_put_result) (simp_all add: store_new_def wins_def)
  have inv: "store_inv toy_ed25519 ?st"
    using put_inv [OF store_inv_new, of toy_ed25519 1000 ?new None] st by simp
  have stale: "put toy_ed25519 1000 ?old ?st = (Inr Stale, ?st)"
  proof -
    have "validate toy_ed25519 (sr_record ?old) = Inr ()" by (simp add: validate_iff live_valid)
    moreover have "sr_verify toy_ed25519 ?old = Inr ()" by (simp add: sr_verify_iff sample_verifies)
    moreover have "timely (sr_record ?old) 1000" by (simp add: live_timely saturating_add_def)
    moreover have "\<not> supersedes (sr_record ?old) (sr_record ?new)" by (simp add: supersedes_iff)
    moreover have "retirement_error ?new = None" by (simp add: retirement_error_None_iff)
    ultimately show ?thesis
      by (simp add: put_def put_locked_def Let_def held bnd timely_def MAX_CLOCK_SKEW_def
          rec_identity_def)
  qed
  let ?sw = "snd (purge_expired 1400 ?st)"
  have swept: "held ?sw (key_n 2) = None"
  proof -
    have "hm_wf (st_records ?st)" using inv by (simp add: store_inv_def)
    then show ?thesis by (simp add: held_purge held live_expired saturating_add_def)
  qed
  have "put toy_ed25519 1400 ?old ?sw = (Inr Stored, put_result ?old ?sw)"
    by (simp add: put_stored_iff sample_checks wins_def swept bnd)
  then have "get 1400 (key_n 2) (snd (put toy_ed25519 1400 ?old ?sw)) = Some ?old"
    by (simp add: get_held held_put_result live_expired saturating_add_def)
  with sup st stale show ?thesis by blast
qed

section \<open>Replication order\<close>

text \<open>
  Records among which a winner is defined: of two different records for one key, which must be
  under one identity, one supersedes the other. (Fails for two retirements of one key, for two
  identities over one key, and for equal serial and issue time.)
\<close>

definition comparable :: "signed_record set \<Rightarrow> bool" where
  "comparable S \<longleftrightarrow>
     (\<forall>r \<in> S. \<forall>r' \<in> S. sr_key r = sr_key r' \<longrightarrow>
        sr_identity r = sr_identity r' \<and>
        (r = r' \<or> supersedes (sr_record r) (sr_record r') \<or> supersedes (sr_record r') (sr_record r)))"

lemma comparable_identity:
  "comparable S \<Longrightarrow> a \<in> S \<Longrightarrow> b \<in> S \<Longrightarrow> sr_key a = sr_key b \<Longrightarrow> sr_identity a = sr_identity b"
  unfolding comparable_def by blast

definition winner :: "signed_record set \<Rightarrow> pubkey \<Rightarrow> signed_record option \<Rightarrow> bool" where
  "winner S k h \<longleftrightarrow>
     (case h of
        None \<Rightarrow> \<forall>x \<in> S. sr_key x \<noteq> k
      | Some m \<Rightarrow> m \<in> S \<and> sr_key m = k \<and>
          (\<forall>x \<in> S. sr_key x = k \<and> x \<noteq> m \<longrightarrow> supersedes (sr_record m) (sr_record x)))"

lemma winner_unique: "winner S k a \<Longrightarrow> winner S k b \<Longrightarrow> a = b"
  by (cases a; cases b) (auto simp: winner_def dest: supersedes_asym)

lemma put_admissible:
  "admissible c now r \<Longrightarrow> snd (put c now r st) = (if wins r st then put_result r st else st)"
  using put_stored_iff [of c now r st "put_result r st"]
  by (cases rule: put_cases [of c now r st]) auto

lemma winner_insert:
  assumes "winner S k h" and "comparable (insert r S)" and "sr_key r = k"
  shows "winner (insert r S) k
    (if h = None \<or> supersedes (sr_record r) (sr_record (the h)) then Some r else h)"
proof (cases h)
  case None
  then show ?thesis using assms by (auto simp: winner_def)
next
  case (Some m)
  with assms have m: "m \<in> S" "sr_key m = k"
    and best: "\<And>x. x \<in> S \<Longrightarrow> sr_key x = k \<Longrightarrow> x \<noteq> m \<Longrightarrow> supersedes (sr_record m) (sr_record x)"
    by (auto simp: winner_def)
  have "r = m \<or> supersedes (sr_record r) (sr_record m) \<or> supersedes (sr_record m) (sr_record r)"
    using assms(2,3) m unfolding comparable_def by blast
  with m best assms(3) show ?thesis
    by (auto simp: Some winner_def intro: supersedes_trans)
qed

lemma feed_winner:
  assumes "\<forall>(now, r) \<in> set xs. admissible c now r" and "comparable (snd ` set xs)"
  shows "winner (snd ` set xs) k (held (feed c xs (store_new p)) k) \<and>
    (\<forall>i. bound (feed c xs (store_new p)) k = Some i \<longrightarrow>
       (\<exists>x \<in> snd ` set xs. sr_key x = k \<and> sr_identity x = i))"
  using assms
proof (induction xs arbitrary: k rule: rev_induct)
  case Nil
  show ?case by (simp add: winner_def store_new_def)
next
  case (snoc y xs)
  obtain now r where y: "y = (now, r)" by (cases y)
  define st where "st = feed c xs (store_new p)"
  let ?S = "snd ` set xs"
  from snoc.prems have comp: "comparable (insert r ?S)" and adm: "admissible c now r"
    by (auto simp: y)
  then have comp': "comparable ?S" unfolding comparable_def by blast
  have adm': "\<forall>(now, r) \<in> set xs. admissible c now r" using snoc.prems(1) by simp
  note ih = snoc.IH [OF adm' comp', folded st_def]
  have win: "winner ?S k' (held st k')" for k' using ih [of k'] by (rule conjunct1)
  have bnd: "bound st k' = Some i \<Longrightarrow> \<exists>x \<in> ?S. sr_key x = k' \<and> sr_identity x = i" for k' i
    using conjunct2 [OF ih [of k'], rule_format, of i] .
  have id: "bound st (sr_key r) = Some i \<Longrightarrow> sr_identity r = i" for i
    using bnd [of "sr_key r" i] comparable_identity [OF comp insertI1] by (metis insertI2)
  have wins: "wins r st \<longleftrightarrow> held st (sr_key r) = None \<or>
      supersedes (sr_record r) (sr_record (the (held st (sr_key r))))"
    using id by (cases "held st (sr_key r)") (auto simp: wins_def supersedes_iff)
  have "winner (insert r ?S) k (held (snd (put c now r st)) k)"
  proof (cases "k = sr_key r")
    case True
    with winner_insert [OF win comp, of "sr_key r"] show ?thesis
      by (simp add: put_admissible [OF adm] wins [symmetric] held_put_result split: if_splits)
  next
    case False
    with win [of k] show ?thesis
      by (auto simp: put_admissible [OF adm] held_put_result winner_def split: option.splits)
  qed
  moreover have "\<exists>x \<in> insert r ?S. sr_key x = k \<and> sr_identity x = i"
    if "bound (snd (put c now r st)) k = Some i" for i
    using that bnd [of k i]
    by (auto simp: put_admissible [OF adm] bound_put_result split: if_splits)
  ultimately show ?case by (simp add: y st_def)
qed

text \<open>
  C18. Replication converges: two servers that start empty and are given the same set of
  admissible records, in different orders, at different times and with different repetitions,
  hold the same record for every key, provided the records are comparable.
\<close>

theorem replication_order_independent:
  assumes "\<forall>(now, r) \<in> set xs. admissible c now r" and "\<forall>(now, r) \<in> set ys. admissible c now r"
    and "snd ` set xs = snd ` set ys" and "comparable (snd ` set xs)"
  shows "held (feed c xs (store_new p)) =
         held (feed c ys (store_new q))"
proof
  fix k
  show "held (feed c xs (store_new p)) k =
      held (feed c ys (store_new q)) k"
    using feed_winner [OF assms(1,4), of k p] feed_winner [OF assms(2), of k q] assms(3,4)
    by (auto intro: winner_unique)
qed

theorem replication_order_independent_witness:
  "held (fold (\<lambda>(now, r) st. snd (put toy_ed25519 now r st))
      [(1000, live 1 2 5 1000 300 []), (1010, superseded 1 2 6 1010 3)] (store_new None)) =
   held (fold (\<lambda>(now, r) st. snd (put toy_ed25519 now r st))
      [(1020, superseded 1 2 6 1010 3), (1030, live 1 2 5 1000 300 []), (1040, superseded 1 2 6 1010 3)]
      (store_new None))"
proof (rule replication_order_independent)
  show "comparable (snd ` set [(1000 :: u64, live 1 2 5 1000 300 []), (1010, superseded 1 2 6 1010 3)])"
    by (auto simp: comparable_def supersedes_iff)
qed (auto simp: sample_checks)

text \<open>
  Without that proviso the outcome depends on the order. Two retirements of one key, both
  signed by its own identity and both admissible, reach two servers in opposite orders: each
  keeps the one that came first and refuses the other, for good.
\<close>

theorem retirement_order_matters:
  "\<exists>a b sa sb.
     admissible toy_ed25519 1010 a \<and> admissible toy_ed25519 1010 b \<and>
     sr_key a = sr_key b \<and> sr_identity a = sr_identity b \<and>
     rec_serial (sr_record a) < rec_serial (sr_record b) \<and>
     sa = snd (put toy_ed25519 1010 b (snd (put toy_ed25519 1010 a (store_new None)))) \<and>
     sb = snd (put toy_ed25519 1010 a (snd (put toy_ed25519 1010 b (store_new None)))) \<and>
     held sa (sr_key a) = Some a \<and> held sb (sr_key a) = Some b \<and> a \<noteq> b"
proof -
  let ?a = "superseded 1 2 6 1010 3" and ?b = "superseded 1 2 7 1010 4"
  have adm: "admissible toy_ed25519 1010 ?a" "admissible toy_ed25519 1010 ?b"
    by (simp_all add: sample_checks)
  have first: "held (snd (put toy_ed25519 1010 x (store_new None))) (sr_key x) = Some x"
    if "admissible toy_ed25519 1010 x" for x
    using that by (simp add: put_new held_put_result)
  have "held (snd (put toy_ed25519 1010 y (snd (put toy_ed25519 1010 x (store_new None))))) (sr_key x) = Some x"
    if "admissible toy_ed25519 1010 x" and "is_terminal (sr_record x)" for x y
    using first [OF that(1)] that(2) by (rule put_terminal)
  from this [OF adm(1) sample_terminal(2), of ?b] this [OF adm(2) sample_terminal(2), of ?a]
  have "held (snd (put toy_ed25519 1010 ?b (snd (put toy_ed25519 1010 ?a (store_new None))))) (sr_key ?a) = Some ?a"
    and "held (snd (put toy_ed25519 1010 ?a (snd (put toy_ed25519 1010 ?b (store_new None))))) (sr_key ?a) = Some ?b"
    by simp_all
  moreover have "rec_serial (sr_record ?a) < rec_serial (sr_record ?b)" by simp
  moreover have "?a \<noteq> ?b"
  proof
    assume "?a = ?b"
    then have "rec_serial (sr_record ?a) = rec_serial (sr_record ?b)" by (rule arg_cong)
    then show False by simp
  qed
  ultimately show ?thesis using adm by (metis sample_key(2,5))
qed

text \<open>
  A key that a server has not seen before has no defence against a stranger's retirement: an
  empty store accepts a supersede signed by any key pair over a self-issued delegation, and from
  then on refuses every record for the key, the real owner's included.
\<close>

theorem unseen_key_retired_by_stranger:
  assumes "ed25519_correct c" and "vk_ok c (as_bytes victim)" and "victim \<noteq> public_of c stranger"
    and "vk_ok c (as_bytes target)" and "target \<noteq> victim" and "length reason \<le> 256"
    and "now \<le> now + MAX_CLOCK_SKEW"
    and "record_sign c (record_superseded now victim
           (delegation_issue c stranger victim not_after) serial target reason) stranger = Inr s"
  shows "fst (put c now s (store_new path)) = Inr Stored \<and>
         (\<forall>later r. sr_key r = victim \<longrightarrow>
            (\<exists>e. fst (put c later r (snd (put c now s (store_new path)))) = Inl e))"
proof -
  let ?r = "record_superseded now victim (delegation_issue c stranger victim not_after) serial target reason"
  have rec: "sr_record s = ?r" using assms(8) by (simp add: record_sign_iff)
  have "valid_record c ?r" using assms by (auto simp: valid_record_def ed25519_correctD)
  then have "verify_answer c s (rec_key ?r) now = Inr ()"
    by (intro sign_verify [OF assms(1,8)]) (auto simp: timely_def)
  then have "admissible c now s" using assms(7) by (simp add: admissible_def verify_answer_iff rec)
  then have put: "put c now s (store_new path) = (Inr Stored, put_result s (store_new path))"
    by (rule put_new)
  have "\<exists>e. fst (put c later r (put_result s (store_new path))) = Inl e" if "sr_key r = victim" for later r
  proof -
    obtain e where "retirement_error s = Some e"
      using retirement_error_None_iff [of s] by (auto simp: rec)
    with that show ?thesis
      by (auto simp: put_def put_locked_def Let_def held_put_result sr_key_def rec split: sum.splits)
  qed
  with put show ?thesis by simp
qed

theorem unseen_key_retired_by_stranger_witness:
  "fst (put toy_ed25519 1010 (superseded 9 2 1 1010 8) (store_new None)) = Inr Stored \<and>
   (\<exists>e. fst (put toy_ed25519 1020 (live 1 2 5 1000 300 [])
      (snd (put toy_ed25519 1010 (superseded 9 2 1 1010 8) (store_new None)))) = Inl e)"
proof -
  have "record_sign toy_ed25519 (record_superseded 1010 (key_n 2)
      (delegation_issue toy_ed25519 9 (key_n 2) 100000) 1 (key_n 8) (lit ''rotated'')) 9 =
      Inr (superseded 9 2 1 1010 8)"
    by (simp add: record_sign_iff terminal_signer superseded_def toy_sign_def deleg_def)
  from unseen_key_retired_by_stranger [OF toy_ed25519_correct _ _ _ _ _ _ this, of None]
  show ?thesis by (simp add: lit_def MAX_CLOCK_SKEW_def)
qed

section \<open>Sync listing and sweep\<close>

text \<open>
  The listing \<open>since\<close> serves to replication peers contains, oldest first and without
  repetitions, exactly the unexpired records issued at or after the given time, cut at the limit;
  the flag says whether it was cut. It depends on the set of records held alone, not on the
  order in which the hash map yields them.
\<close>

theorem since_spec:
  assumes "store_inv c st" and "since now from limit st = (out, complete)"
  shows "\<exists>all. set all = {r. \<exists>k. held st k = Some r \<and> rec_issued_at (sr_record r) \<ge> from \<and>
                              \<not> is_expired (sr_record r) now} \<and>
           sorted (map sync_key all) \<and> distinct (map sync_key all) \<and>
           out = take limit all \<and> (complete \<longleftrightarrow> length all \<le> limit)"
proof -
  have "hm_wf (st_records st)" using assms(1) by (simp add: store_inv_def)
  from set_sync_list [OF this]
  have "set (sync_list now from st) = {r. \<exists>k. held st k = Some r \<and> rec_issued_at (sr_record r) \<ge> from \<and>
      \<not> is_expired (sr_record r) now}"
    by (auto simp: sync_eligible_def)
  with assms show ?thesis
    using sorted_sync_list [of now "from" st] distinct_sync_keys [of c st now "from"]
    by (intro exI [of _ "sync_list now from st"]) (auto simp: since_eq)
qed

theorem since_spec_witness:
  "\<exists>all. set all = {r. \<exists>k. held store_live k = Some r \<and> rec_issued_at (sr_record r) \<ge> 900 \<and>
                        \<not> is_expired (sr_record r) 1100} \<and>
     sorted (map sync_key all) \<and> distinct (map sync_key all) \<and>
     fst (since 1100 900 512 store_live) = take 512 all \<and>
     (snd (since 1100 900 512 store_live) \<longleftrightarrow> length all \<le> 512)"
  by (rule since_spec [OF store_inv_samples(1)]) simp

end
