(* ===== verification/Interleaving.thy ===== *)
theory Interleaving
  imports Samples
begin

text \<open>
  Concurrent publishers. The server handles every connection in a task of its own and shares one
  \<open>Store\<close>; \<open>Store::put\<close> checks and inserts under the write lock on the records
  (\<open>put_locked\<close>) but drops that lock before it pins the identity and bumps the revision
  (\<open>put_finish\<close>). A configuration is the store together with the \<open>put_finish\<close> calls that are
  still to come; a step is one critical section of some task. Puts that are refused or stale
  leave the store unchanged and take no step.
\<close>

section \<open>Configurations and steps\<close>

type_synonym conf = "store \<times> (pubkey \<times> pubkey) list"

inductive race_step :: "'v verifier_scheme \<Rightarrow> conf \<Rightarrow> conf \<Rightarrow> bool" for c where
  race_lock: "put_locked c now r st = (Inr Stored, st') \<Longrightarrow>
     race_step c (st, todo) (st', todo @ [(sr_key r, sr_identity r)])"
| race_finish: "race_step c (st, xs @ (k, i) # ys) (put_finish k i st, xs @ ys)"
| race_purge: "race_step c (st, todo) (snd (purge_expired now st), todo)"

inductive_cases race_stepE: "race_step c (st, todo) conf'"

text \<open>A \<open>put\<close> that no other task interrupts is the sequential one.\<close>

lemma put_is_uninterrupted_race:
  assumes "put c now r st = (Inr Stored, st')"
  shows "rtranclp (race_step c) (st, todo) (st', todo)"
proof -
  obtain st1 where l: "put_locked c now r st = (Inr Stored, st1)"
    and f: "st' = put_finish (sr_key r) (sr_identity r) st1"
    using assms by (auto simp: put_def split: prod.splits sum.splits put_outcome.splits)
  have "race_step c (st, todo) (st1, todo @ [(sr_key r, sr_identity r)])"
    using l by (rule race_lock)
  moreover have "race_step c (st1, todo @ (sr_key r, sr_identity r) # []) (st', todo @ [])"
    unfolding f by (rule race_finish)
  ultimately show ?thesis by (simp add: rtranclp.rtrancl_into_rtrancl r_into_rtranclp)
qed

section \<open>What holds in every interleaving\<close>

definition race_inv :: "'v verifier_scheme \<Rightarrow> store \<Rightarrow> bool" where
  "race_inv c st \<longleftrightarrow> hm_wf (st_records st) \<and> record_inv c st"

lemma held_put_locked:
  "put_locked c now r st = (Inr Stored, st') \<Longrightarrow> held st' = (held st)(sr_key r \<mapsto> r)"
  by (auto simp: put_locked_stored_iff)

lemma held_put_finish [simp]: "held (put_finish k i st) = held st"
  by simp

text \<open>One step, for the facts that every interleaving keeps.\<close>

lemma race_step_inv: "race_step c (st, todo) (st', todo') \<Longrightarrow> race_inv c st \<Longrightarrow> race_inv c st'"
proof (erule race_stepE, goal_cases)
  case (1 now r st'')
  then show ?case
    by (auto simp: put_locked_stored_iff race_inv_def record_inv_def admissible_def)
next
  case (2 xs k i ys)
  then show ?case by (simp add: race_inv_def record_inv_def)
next
  case (3 now)
  then have "held (snd (purge_expired now st)) k = Some r \<Longrightarrow> held st k = Some r" for k r
    by (auto simp: held_purge race_inv_def split: option.splits if_splits)
  with 3 show ?case by (auto simp: race_inv_def record_inv_def st_records_purge)
qed

lemma race_step_terminal:
  "race_step c (st, todo) (st', todo') \<Longrightarrow> race_inv c st \<Longrightarrow> held st k = Some t \<Longrightarrow>
   is_terminal (sr_record t) \<Longrightarrow> held st' k = Some t"
  by (erule race_stepE) (auto simp: put_locked_stored_iff wins_def race_inv_def purge_terminal)

lemma race_step_bound:
  "race_step c (st, todo) (st', todo') \<Longrightarrow> bound st k = Some i \<Longrightarrow> bound st' k = Some i"
  by (erule race_stepE) (auto simp: put_locked_stored_iff bound_bind)

text \<open>Once a key is pinned and its record agrees with the pin, both stay so.\<close>

definition agrees :: "store \<Rightarrow> pubkey \<Rightarrow> pubkey \<Rightarrow> bool" where
  "agrees st k i \<longleftrightarrow> bound st k = Some i \<and> (\<forall>r. held st k = Some r \<longrightarrow> sr_identity r = i)"

lemma race_step_agrees:
  assumes "race_step c (st, todo) (st', todo')" and "race_inv c st" and "agrees st k i"
  shows "agrees st' k i"
proof -
  have "bound st' k = Some i" using race_step_bound [OF assms(1)] assms(3) by (simp add: agrees_def)
  moreover have "sr_identity r = i" if "held st' k = Some r" for r
    using assms that
    by (elim race_stepE)
      (auto simp: put_locked_stored_iff wins_def agrees_def race_inv_def held_purge
        split: if_splits option.splits)
  ultimately show ?thesis by (simp add: agrees_def)
qed

lemma race_run_inv:
  "rtranclp (race_step c) (st, todo) (st', todo') \<Longrightarrow> race_inv c st \<Longrightarrow> race_inv c st'"
  by (induction rule: rtranclp_induct2) (auto intro: race_step_inv)

text \<open>
  A step-wise fact that holds under \<open>race_inv\<close> holds along whole runs.
\<close>

lemma race_run_keeps:
  assumes "rtranclp (race_step c) (st, todo) (st', todo')" and "race_inv c st" and "P st"
    and "\<And>st todo st' todo'. race_step c (st, todo) (st', todo') \<Longrightarrow> race_inv c st \<Longrightarrow> P st \<Longrightarrow> P st'"
  shows "P st'"
  using assms(1)
proof (induction rule: rtranclp_induct2)
  case refl
  show ?case by (rule assms(3))
next
  case (step a b a' b')
  from race_run_inv [OF step(1) assms(2)] step show ?case by (auto intro: assms(4))
qed

text \<open>
  C21. However the tasks interleave, the store holds only verified records under their own keys,
  a retirement once held is never replaced, and a pinned identity never changes.
\<close>

theorem concurrent_puts_safe:
  assumes "rtranclp (race_step c) (st, todo) (st', todo')" and "race_inv c st"
  shows "race_inv c st' \<and>
    (\<forall>k t. held st k = Some t \<and> is_terminal (sr_record t) \<longrightarrow> held st' k = Some t) \<and>
    (\<forall>k i. bound st k = Some i \<longrightarrow> bound st' k = Some i)"
proof (intro conjI allI impI)
  show "race_inv c st'" using assms by (rule race_run_inv)
next
  fix k t assume "held st k = Some t \<and> is_terminal (sr_record t)"
  with assms show "held st' k = Some t"
    by (intro race_run_keeps [OF assms, of "\<lambda>s. held s k = Some t"]) (auto intro: race_step_terminal)
next
  fix k i assume "bound st k = Some i"
  with assms show "bound st' k = Some i"
    by (intro race_run_keeps [OF assms, of "\<lambda>s. bound s k = Some i"]) (auto intro: race_step_bound)
qed

text \<open>
  Pinning is atomic from the first pin on: when a key is pinned and its record carries the
  pinned identity, then in every interleaving, whatever is still pending, every later record of
  the key carries that identity too.
\<close>

theorem pin_holds_once_agreed:
  assumes "rtranclp (race_step c) (st, todo) (st', todo')" and "race_inv c st"
    and "identity_of k st = Some i" and "\<forall>r. held st k = Some r \<longrightarrow> sr_identity r = i"
  shows "identity_of k st' = Some i \<and> (\<forall>r. held st' k = Some r \<longrightarrow> sr_identity r = i)"
proof -
  have "agrees st k i" using assms(3,4) by (simp add: agrees_def identity_of_def)
  then have "agrees st' k i"
    by (intro race_run_keeps [OF assms(1,2), of "\<lambda>s. agrees s k i"]) (auto intro: race_step_agrees)
  then show ?thesis by (simp add: agrees_def identity_of_def)
qed

section \<open>The window before the first pin\<close>

text \<open>Two publishers of one new key under two identities, the second arriving between the two halves of the first.\<close>

definition race_first :: signed_record where
  "race_first = live 1 2 5 1000 300 []"

definition race_second :: signed_record where
  "race_second = live 9 2 6 1000 300 []"

definition race_mid :: store where
  "race_mid = (let s0 = store_new None; s1 = s0\<lparr>st_records := AList.update (key_n 2) race_first (st_records s0)\<rparr>
     in s1\<lparr>st_records := AList.update (key_n 2) race_second (st_records s1)\<rparr>)"

definition race_end :: store where
  "race_end = put_finish (key_n 2) (key_n 9) (put_finish (key_n 2) (key_n 1) race_mid)"

lemma race_sample_admissible:
  "admissible toy_ed25519 1000 race_first" "admissible toy_ed25519 1000 race_second"
  by (simp_all add: race_first_def race_second_def sample_checks)

lemma race_sample_fields [simp]:
  "sr_key race_first = key_n 2" "sr_key race_second = key_n 2"
  "sr_identity race_first = key_n 1" "sr_identity race_second = key_n 9"
  by (simp_all add: race_first_def race_second_def)

lemma race_sample_run:
  "rtranclp (race_step toy_ed25519) (store_new None, []) (race_end, [])"
proof -
  let ?s0 = "store_new None"
  let ?s1 = "?s0\<lparr>st_records := AList.update (key_n 2) race_first (st_records ?s0)\<rparr>"
  let ?p1 = "(key_n 2, key_n 1)" and ?p9 = "(key_n 2, key_n 9)"
  have "put_locked toy_ed25519 1000 race_first ?s0 = (Inr Stored, ?s1)"
    by (simp add: put_locked_stored_iff race_sample_admissible wins_def) (simp add: store_new_def)
  from race_lock [OF this, of "[]"] have a: "race_step toy_ed25519 (?s0, []) (?s1, [?p1])" by simp
  have "put_locked toy_ed25519 1000 race_second ?s1 = (Inr Stored, race_mid)"
    by (simp add: put_locked_stored_iff race_sample_admissible wins_def race_mid_def Let_def)
      (simp add: store_new_def supersedes_iff race_first_def race_second_def)
  from race_lock [OF this, of "[?p1]"]
  have b: "race_step toy_ed25519 (?s1, [?p1]) (race_mid, [?p1, ?p9])" by simp
  have d: "race_step toy_ed25519 (race_mid, [?p1, ?p9]) (put_finish (key_n 2) (key_n 1) race_mid, [?p9])"
    using race_finish [of toy_ed25519 race_mid "[]" "key_n 2" "key_n 1" "[?p9]"] by simp
  have e: "race_step toy_ed25519 (put_finish (key_n 2) (key_n 1) race_mid, [?p9]) (race_end, [])"
    using race_finish [of toy_ed25519 "put_finish (key_n 2) (key_n 1) race_mid" "[]" "key_n 2" "key_n 9" "[]"]
    by (simp add: race_end_def)
  from a b d e show ?thesis by (meson rtranclp.rtrancl_into_rtrancl rtranclp.rtrancl_refl)
qed

text \<open>
  Before the first pin it is not: two \<open>put\<close>s of one new key under two identities can both
  pass the binding check. Then both are stored although each \<open>put\<close> returned \<open>Stored\<close>; the store
  ends up pinning the key to one identity while holding and serving a record of the other, and
  listing the key under both.
\<close>

theorem concurrent_first_publish_breaks_binding:
  "rtranclp (race_step toy_ed25519) (store_new None, []) (race_end, []) \<and>
   identity_of (key_n 2) race_end = Some (key_n 1) \<and>
   get 1000 (key_n 2) race_end = Some race_second \<and> sr_identity race_second = key_n 9 \<and>
   identity_records 1000 (key_n 1) 512 race_end = [race_second] \<and>
   identity_records 1000 (key_n 9) 512 race_end = [race_second] \<and>
   \<not> store_inv toy_ed25519 race_end"
proof -
  have h: "held race_end = [key_n 2 \<mapsto> race_second]"
    by (simp add: race_end_def race_mid_def Let_def) (simp add: store_new_def)
  have b: "bound race_end = [key_n 2 \<mapsto> key_n 1]"
    by (simp add: race_end_def race_mid_def Let_def bound_bind) (simp add: store_new_def)
  have ix: "map_of (st_identity_index race_end) = [key_n 1 \<mapsto> [key_n 2], key_n 9 \<mapsto> [key_n 2]]"
    by (simp add: race_end_def race_mid_def Let_def index_bind)
      (simp add: store_new_def fun_eq_iff insort_insert_key_def)
  have x: "\<not> is_expired (sr_record race_second) 1000"
    by (simp add: race_second_def live_expired saturating_add_def)
  have "\<not> store_inv toy_ed25519 race_end"
    by (auto simp: store_inv_def h b)
  with race_sample_run h b ix x show ?thesis
    by (simp add: identity_of_def get_held identity_records_def List.map_filter_def)
qed

lemma race_inv_new: "race_inv c (store_new p)"
  using store_inv_new [of c p] by (simp add: race_inv_def store_inv_def)

lemma store_retired_race:
  "rtranclp (race_step toy_ed25519) (store_live, []) (store_retired, [])"
proof (rule put_is_uninterrupted_race)
  show "put toy_ed25519 1010 (superseded 1 2 6 1010 3) store_live = (Inr Stored, store_retired)"
    unfolding store_retired_eq by (simp add: put_stored_iff sample_checks wins_def supersedes_iff)
qed

lemma store_live_race_inv: "race_inv toy_ed25519 store_live"
  using store_inv_samples(1) by (simp add: race_inv_def store_inv_def)

theorem concurrent_puts_safe_witness:
  "race_inv toy_ed25519 race_end \<and> bound store_retired (key_n 2) = Some (key_n 1)"
  using concurrent_puts_safe [OF race_sample_run race_inv_new]
    concurrent_puts_safe [OF store_retired_race store_live_race_inv] by simp

theorem pin_holds_once_agreed_witness:
  "identity_of (key_n 2) store_retired = Some (key_n 1) \<and>
   sr_identity (superseded 1 2 6 1010 3) = key_n 1"
  using pin_holds_once_agreed [OF store_retired_race store_live_race_inv, of "key_n 2" "key_n 1"]
  by (simp add: identity_of_def)

end
