(* ===== verification/Snapshot.thy ===== *)
theory Snapshot
  imports Samples
begin

text \<open>
  The on-disk snapshot of the store (\<open>encode_snapshot\<close>, \<open>decode_snapshot\<close>, \<open>Store::open\<close>,
  \<open>Store::persist\<close> of \<open>crates/sqnsd/src/store.rs\<close>). The file system is a map from paths to
  contents; the system clock that \<open>open\<close> and each \<open>put\<close> inside it read is a sequence of readings.
\<close>

section \<open>The file format\<close>

definition SNAPSHOT_MAGIC :: bytes where
  "SNAPSHOT_MAGIC = lit ''SQNSDB''"

definition SNAPSHOT_VERSION :: byte where
  "SNAPSHOT_VERSION = 3"

definition encode_snapshot :: "signed_record list \<Rightarrow> (pubkey, pubkey) hashmap \<Rightarrow> bytes" where
  "encode_snapshot records bindings =
     (let buf = SNAPSHOT_MAGIC @ [SNAPSHOT_VERSION];
          buf = buf @ to_be_bytes (of_nat (length records) :: u32);
          buf = fold (\<lambda>rcd buf. buf @ sr_encode rcd) records buf;
          buf = buf @ to_be_bytes (of_nat (length bindings) :: u32);
          sorted = sort_key fst bindings
      in fold (\<lambda>(service_key, identity) buf. buf @ as_bytes service_key @ as_bytes identity) sorted buf)"

definition rd_binding :: "(pubkey \<times> pubkey) rd" where
  "rd_binding =
     rd_bind (rd_pubkey ''binding service key'') (\<lambda>service_key.
     rd_bind (rd_pubkey ''binding identity'') (\<lambda>identity.
     rd_return (service_key, identity)))"

definition hm_insert_all :: "('k \<times> 'v) list \<Rightarrow> ('k, 'v) hashmap" where
  "hm_insert_all ps = fold (\<lambda>(k, v) m. AList.update k v m) ps []"

definition snapshot_decode_from :: "(signed_record list \<times> (pubkey \<times> pubkey) list) rd" where
  "snapshot_decode_from =
     rd_bind (rd_bytes (length SNAPSHOT_MAGIC) ''snapshot magic'') (\<lambda>magic.
     if magic \<noteq> SNAPSHOT_MAGIC then rd_fail (E_Record (plain ''not an sqns snapshot file''))
     else
     rd_bind (rd_u8 ''snapshot version'') (\<lambda>version.
     if version \<noteq> SNAPSHOT_VERSION
     then rd_fail (E_Record (Msg ''unsupported snapshot version {version} (this build writes {SNAPSHOT_VERSION})''
                               [unat version] []))
     else
     rd_bind (rd_u32 ''snapshot record count'') (\<lambda>count.
     rd_bind (rd_many (unat count) sr_decode_from) (\<lambda>records.
     rd_bind (rd_u32 ''snapshot binding count'') (\<lambda>binding_count.
     rd_bind (rd_many (unat binding_count) rd_binding) (\<lambda>bindings.
     rd_return (records, bindings)))))))"

definition decode_snapshot :: "bytes \<Rightarrow> (signed_record list \<times> (pubkey, pubkey) hashmap) res" where
  "decode_snapshot b =
     rbind (rd_full snapshot_decode_from ''snapshot'' b) (\<lambda>(records, bindings).
     Inr (records, hm_insert_all bindings))"

section \<open>Opening a store\<close>

datatype disk_file = Absent | Unreadable msg | Contents bytes

fun load_records ::
  "'v verifier_scheme \<Rightarrow> u64 \<Rightarrow> (nat \<Rightarrow> u64) \<Rightarrow> nat \<Rightarrow> signed_record list \<Rightarrow> store \<Rightarrow> store" where
  "load_records c now clock n [] st = st"
| "load_records c now clock n (rcd # records) st =
     (if is_expired (sr_record rcd) now then load_records c now clock n records st
      else load_records c now clock (Suc n) records (snd (put c (clock n) rcd st)))"

definition open_store ::
  "'v verifier_scheme \<Rightarrow> (nat \<Rightarrow> u64) \<Rightarrow> (rstring \<Rightarrow> disk_file) \<Rightarrow> rstring option \<Rightarrow> store res" where
  "open_store c clock fs path =
     (let st = store_new path in
      case path of
        None \<Rightarrow> Inr st
      | Some p \<Rightarrow>
        (case fs p of
           Absent \<Rightarrow> Inr st
         | Unreadable e \<Rightarrow> Inl (E_Io e)
         | Contents b \<Rightarrow>
           (case decode_snapshot b of
              Inl _ \<Rightarrow> Inr st
            | Inr (records, bindings) \<Rightarrow>
                let st = fold (\<lambda>(service_key, identity). bind service_key identity) bindings st;
                    now = clock 0
                in Inr (load_records c now clock 1 records st))))"

section \<open>Writing a snapshot\<close>

text \<open>\<open>Path::with_extension\<close>, for paths whose last component is not \<open>.\<close>\<close>

definition file_stem :: "rstring \<Rightarrow> rstring" where
  "file_stem name =
     (case dropWhile (\<lambda>b. b \<noteq> 46) (rev name) of
        _ # stem_rev \<Rightarrow> if stem_rev = [] then name else rev stem_rev
      | [] \<Rightarrow> name)"

definition with_extension :: "rstring \<Rightarrow> rstring \<Rightarrow> rstring" where
  "with_extension path ext =
     (let p = rev (dropWhile (\<lambda>b. b = 47) (rev path));
          name = rev (takeWhile (\<lambda>b. b \<noteq> 47) (rev p));
          dir = rev (dropWhile (\<lambda>b. b \<noteq> 47) (rev p))
      in if name = [] \<or> name = lit ''..'' then path else dir @ file_stem name @ [46] @ ext)"

text \<open>
  The effects of \<open>persist\<close> on the file system, in order. Each can be the last before a crash,
  and of a write any prefix may have reached the disk. Creating the parent directories changes
  no file. An I/O error makes \<open>persist\<close> return early and leaves one of the same states.
\<close>

datatype fs_op = Create rstring | WriteAll rstring bytes | SyncAll rstring | Rename rstring rstring

fun apply_op :: "fs_op \<Rightarrow> (rstring \<Rightarrow> disk_file) \<Rightarrow> (rstring \<Rightarrow> disk_file)" where
  "apply_op (Create p) fs = fs(p := Contents [])"
| "apply_op (WriteAll p b) fs = fs(p := (case fs p of Contents a \<Rightarrow> Contents (a @ b) | f \<Rightarrow> f))"
| "apply_op (SyncAll p) fs = fs"
| "apply_op (Rename a b) fs = (if a = b then fs else (fs(b := fs a))(a := Absent))"

definition persist_ops :: "store \<Rightarrow> fs_op list" where
  "persist_ops st =
     (case st_path st of
        None \<Rightarrow> []
      | Some path \<Rightarrow>
          let b = encode_snapshot (map snd (st_records st)) (st_bindings st);
              tmp = with_extension path (lit ''tmp'')
          in [Create tmp, WriteAll tmp b, SyncAll tmp, Rename tmp path])"

definition persist :: "store \<Rightarrow> (rstring \<Rightarrow> disk_file) \<Rightarrow> (rstring \<Rightarrow> disk_file)" where
  "persist st fs = fold apply_op (persist_ops st) fs"

text \<open>What a crash can leave behind.\<close>

inductive crash_state :: "fs_op list \<Rightarrow> (rstring \<Rightarrow> disk_file) \<Rightarrow> (rstring \<Rightarrow> disk_file) \<Rightarrow> bool" where
  crash_now: "crash_state ops fs fs"
| crash_torn: "b = a @ lost \<Longrightarrow> crash_state (WriteAll p b # ops) fs (apply_op (WriteAll p a) fs)"
| crash_later: "crash_state ops (apply_op op fs) fs' \<Longrightarrow> crash_state (op # ops) fs fs'"

inductive_cases crash_NilE [elim!]: "crash_state [] fs fs'"
inductive_cases crash_CreateE [elim!]: "crash_state (Create p # ops) fs fs'"
inductive_cases crash_WriteE [elim!]: "crash_state (WriteAll p b # ops) fs fs'"
inductive_cases crash_SyncE [elim!]: "crash_state (SyncAll p # ops) fs fs'"
inductive_cases crash_RenameE [elim!]: "crash_state (Rename p q # ops) fs fs'"

section \<open>The format round-trips\<close>

definition snapshot_ok :: "signed_record list \<times> (pubkey \<times> pubkey) list \<Rightarrow> bool" where
  [wf_defs]: "snapshot_ok s \<longleftrightarrow>
     length (fst s) < 2 ^ 32 \<and> length (snd s) < 2 ^ 32 \<and>
     (\<forall>r \<in> set (fst s). signed_record_ok r) \<and>
     (\<forall>(k, i) \<in> set (snd s). pubkey_ok k \<and> pubkey_ok i)"

abbreviation binding_bytes :: "pubkey \<times> pubkey \<Rightarrow> bytes" where
  "binding_bytes b \<equiv> as_bytes (fst b) @ as_bytes (snd b)"

definition snapshot_bytes :: "signed_record list \<times> (pubkey \<times> pubkey) list \<Rightarrow> bytes" where
  "snapshot_bytes s =
     SNAPSHOT_MAGIC @ SNAPSHOT_VERSION # to_be_bytes (of_nat (length (fst s)) :: u32) @
     concat (map sr_encode (fst s)) @ to_be_bytes (of_nat (length (snd s)) :: u32) @
     concat (map binding_bytes (snd s))"

interpretation binding: wire_codec binding_bytes rd_binding "\<lambda>(k, i). pubkey_ok k \<and> pubkey_ok i"
proof
  fix b assume "case b of (k, i) \<Rightarrow> pubkey_ok k \<and> pubkey_ok i"
  then show "parses rd_binding b (binding_bytes b)"
    unfolding rd_binding_def
    by (intro pubkey.enc_then pubkey.enc_last) auto
next
  fix r b r' assume "rd_binding r = Inr (b, r')"
  then show "(case b of (k, i) \<Rightarrow> pubkey_ok k \<and> pubkey_ok i) \<and> consumed r r' (binding_bytes b)"
    unfolding rd_binding_def
    by (auto simp: rd_bind_Inr_iff dest!: pubkey.dec_canonical intro!: consumed_trans)
qed

lemma snapshot_magic_length: "length SNAPSHOT_MAGIC = 6"
  by (simp add: SNAPSHOT_MAGIC_def lit_def)

lemma count_u32: "of_nat (unat (w :: u32)) = w" "unat w < 4294967296"
  using unat_less_pow [of w] by simp_all

interpretation snapshot: wire_codec snapshot_bytes snapshot_decode_from snapshot_ok
proof
  fix s :: "signed_record list \<times> (pubkey \<times> pubkey) list" assume s: "snapshot_ok s"
  obtain rs bs where rb: "s = (rs, bs)" by (cases s)
  have n: "unat (of_nat (length rs) :: u32) = length rs" "unat (of_nat (length bs) :: u32) = length bs"
    using s by (auto simp: rb snapshot_ok_def intro: unat_of_nat_u32)
  have "parses (rd_many (length rs) sr_decode_from) rs (concat (map sr_encode rs))"
    using s by (intro signed_rec.many_enc) (simp add: rb snapshot_ok_def)
  moreover have "parses (rd_bind (rd_many (length bs) rd_binding) (\<lambda>bs. rd_return (rs, bs))) (rs, bs)
      (concat (map binding_bytes bs))"
    using s by (intro parses_bind_return binding.many_enc) (simp add: rb snapshot_ok_def)
  ultimately show "parses snapshot_decode_from s (snapshot_bytes s)"
    unfolding snapshot_decode_from_def snapshot_bytes_def rd_bytes_def rb fst_conv snd_conv
    by (intro parses_bind [OF parses_take])
      (auto simp: n intro!: parses_u8_then u32.enc_then parses_bind [of "rd_many (length rs) sr_decode_from"])
next
  fix r s r' assume "snapshot_decode_from r = Inr (s, r')"
  then show "snapshot_ok s \<and> consumed r r' (snapshot_bytes s)"
    unfolding snapshot_decode_from_def rd_bytes_def
    by (auto simp: rd_bind_Inr_iff snapshot_ok_def snapshot_bytes_def count_u32 split: if_splits
        dest!: rd_take_consumed field_consumed signed_rec.many_canonical binding.many_canonical
        intro!: consumed_u8 consumed_trans)
qed

lemma fold_append_enc: "fold (\<lambda>x buf. buf @ f x) xs buf = buf @ concat (map f xs)"
  by (induction xs arbitrary: buf) simp_all

lemma encode_snapshot_eq: "encode_snapshot rs bs = snapshot_bytes (rs, sort_key fst bs)"
  using fold_append_enc [of binding_bytes "sort_key fst bs"]
  by (simp add: encode_snapshot_def snapshot_bytes_def fold_append_enc case_prod_unfold Let_def)

lemma hm_insert_all_distinct:
  assumes "hm_wf ps"
  shows "map_of (hm_insert_all ps) = map_of ps" and "hm_wf (hm_insert_all ps)"
proof -
  have "map_of (fold (\<lambda>(k, v) m. AList.update k v m) ps m) =
      (\<lambda>k. case map_of (rev ps) k of None \<Rightarrow> map_of m k | Some v \<Rightarrow> Some v)" for m
    by (induction ps arbitrary: m) (auto simp: fun_eq_iff map_add_def split: option.splits)
  then have "map_of (hm_insert_all ps) = map_of (rev ps)"
    by (auto simp: hm_insert_all_def fun_eq_iff split: option.splits)
  also have "\<dots> = map_of ps" using assms by (intro map_of_perm) (simp_all add: rev_map [symmetric])
  finally show "map_of (hm_insert_all ps) = map_of ps" .
  have "hm_wf m \<Longrightarrow> hm_wf (fold (\<lambda>(k, v) m. AList.update k v m) ps m)" for m
    by (induction ps arbitrary: m) auto
  then show "hm_wf (hm_insert_all ps)" by (simp add: hm_insert_all_def)
qed

section \<open>Loading\<close>

text \<open>
  Loading the records of a store into one that has only its bindings: each is kept or dropped on
  its own, and the bindings do not change.
\<close>

definition loadable :: "'v verifier_scheme \<Rightarrow> store \<Rightarrow> signed_record \<Rightarrow> bool" where
  "loadable c st r \<longleftrightarrow> held st (sr_key r) = None \<and> bound st (sr_key r) = Some (sr_identity r)"

lemma put_loadable:
  assumes "loadable c st r"
  shows "bound (snd (put c now r st)) = bound st \<and>
         held (snd (put c now r st)) = (if admissible c now r then (held st)(sr_key r \<mapsto> r) else held st)"
proof -
  have w: "wins r st" using assms by (auto simp: loadable_def wins_def)
  show ?thesis
  proof (cases "admissible c now r")
    case True
    with w have "put c now r st = (Inr Stored, put_result r st)" by (simp add: put_stored_iff)
    then show ?thesis
      using assms True by (auto simp: held_put_result bound_put_result [OF w] loadable_def)
  next
    case False
    then show ?thesis by (cases rule: put_cases [of c now r st]) auto
  qed
qed

lemma load_records_loadable:
  assumes "distinct (map sr_key rs)" and "\<forall>r \<in> set rs. loadable c st r"
  shows "bound (load_records c now clock n rs st) = bound st \<and>
    (\<forall>k. k \<notin> sr_key ` set rs \<longrightarrow> held (load_records c now clock n rs st) k = held st k) \<and>
    (\<forall>r \<in> set rs. held (load_records c now clock n rs st) (sr_key r) \<in> {None, Some r} \<and>
       (\<not> is_expired (sr_record r) now \<and> (\<forall>m. admissible c (clock m) r) \<longrightarrow>
          held (load_records c now clock n rs st) (sr_key r) = Some r))"
  using assms
proof (induction rs arbitrary: n st)
  case Nil
  then show ?case by simp
next
  case (Cons r rs)
  show ?case
  proof (cases "is_expired (sr_record r) now")
    case True
    with Cons.IH [of st n] Cons.prems show ?thesis by (auto simp: loadable_def)
  next
    case False
    define st1 where "st1 = snd (put c (clock n) r st)"
    have p: "bound st1 = bound st"
      "held st1 = (if admissible c (clock n) r then (held st)(sr_key r \<mapsto> r) else held st)"
      using put_loadable [of c st r "clock n"] Cons.prems(2) unfolding st1_def by auto
    have "\<forall>x \<in> set rs. loadable c st1 x"
      using Cons.prems by (auto simp: loadable_def p rev_image_eqI)
    from Cons.IH [OF _ this, of "Suc n"] Cons.prems False p show ?thesis
      by (auto simp: st1_def [symmetric] loadable_def)
  qed
qed

lemma load_records_inv: "store_inv c st \<Longrightarrow> store_inv c (load_records c now clock n rs st)"
  by (induction rs arbitrary: n st) (auto intro: put_inv)

text \<open>Binding the pairs of a map into an empty store gives that map.\<close>

lemma bind_all:
  assumes "hm_wf bs"
  shows "bound (fold (\<lambda>(k, i). bind k i) bs (store_new p)) = map_of bs \<and>
         st_records (fold (\<lambda>(k, i). bind k i) bs (store_new p)) = [] \<and>
         store_inv c (fold (\<lambda>(k, i). bind k i) bs (store_new p))"
  using assms
proof (induction bs rule: rev_induct)
  case Nil
  then show ?case using store_inv_new [of c p] by (simp add: store_new_def)
next
  case (snoc b bs)
  obtain k i where b: "b = (k, i)" by (cases b)
  define st where "st = fold (\<lambda>(k, i). bind k i) bs (store_new p)"
  have ih: "bound st = map_of bs" "st_records st = []" "store_inv c st"
    using snoc unfolding st_def by auto
  have k: "bound st k = None" using snoc.prems by (auto simp: b ih(1) map_of_eq_None_iff)
  then have "index_inv (bind k i st)"
    using ih(3) by (intro index_inv_bind) (auto simp: store_inv_def)
  then have "store_inv c (bind k i st)"
    using ih by (simp add: store_inv_def record_inv_def hm_wf_bind)
  moreover have "bound (bind k i st) = map_of (bs @ [b])"
    using k ih(1) by (auto simp: bound_bind b map_add_def fun_eq_iff split: option.splits)
  ultimately show ?case by (simp add: b st_def [symmetric] ih(2))
qed

lemma hm_wf_insert_all: "hm_wf (hm_insert_all ps)"
proof -
  have "hm_wf m \<Longrightarrow> hm_wf (fold (\<lambda>(k, v) m. AList.update k v m) ps m)" for m
    by (induction ps arbitrary: m) auto
  then show ?thesis by (simp add: hm_insert_all_def)
qed

section \<open>Properties\<close>

lemma decode_encode_snapshot:
  assumes "length records < 2 ^ 32" and "length bindings < 2 ^ 32" and "hm_wf bindings"
    and "\<forall>r \<in> set records. signed_record_ok r"
    and "\<forall>(k, i) \<in> set bindings. pubkey_ok k \<and> pubkey_ok i"
  shows "\<exists>bindings'. decode_snapshot (encode_snapshot records bindings) = Inr (records, bindings') \<and>
           hm_wf bindings' \<and> map_of bindings' = map_of bindings"
proof -
  have "snapshot_ok (records, sort_key fst bindings)" using assms by (simp add: snapshot_ok_def)
  then have "decode_snapshot (encode_snapshot records bindings) =
      Inr (records, hm_insert_all (sort_key fst bindings))"
    by (auto simp: decode_snapshot_def encode_snapshot_eq snapshot.full_iff)
  moreover have "mset (sort_key fst bindings) = mset bindings" by simp
  moreover from this have "hm_wf (sort_key fst bindings)"
    using assms(3) by (metis mset_map mset_eq_imp_distinct_iff)
  ultimately show ?thesis
    using hm_insert_all_distinct [of "sort_key fst bindings"]
      map_of_perm [of "sort_key fst bindings" bindings] by auto
qed

text \<open>
  The snapshot round-trips: decoding what \<open>encode_snapshot\<close> wrote gives back the records in
  order and the same bindings, for fewer than \<open>2 ^ 32\<close> of each.
\<close>

theorem snapshot_roundtrip:
  assumes "length records < 2 ^ 32" and "length bindings < 2 ^ 32" and "hm_wf bindings"
    and "\<forall>r \<in> set records. signed_record_ok r"
    and "\<forall>(k, i) \<in> set bindings. pubkey_ok k \<and> pubkey_ok i"
  shows "\<exists>bindings'. decode_snapshot (encode_snapshot records bindings) = Inr (records, bindings') \<and>
           hm_wf bindings' \<and> map_of bindings' = map_of bindings"
  using assms by (rule decode_encode_snapshot)

theorem snapshot_roundtrip_witness:
  "\<exists>bs. decode_snapshot (encode_snapshot [] [(key_n 2, key_n 1), (key_n 1, key_n 7)]) = Inr ([], bs) \<and>
     hm_wf bs \<and> map_of bs = map_of [(key_n 2, key_n 1), (key_n 1, key_n 7)]"
  by (rule snapshot_roundtrip) simp_all

lemma open_store_inv:
  assumes "open_store c clock fs path = Inr st"
  shows "store_inv c st"
proof -
  have "hm_wf bs" if "decode_snapshot b = Inr (rs, bs)" for b rs bs
    using that by (auto simp: decode_snapshot_def hm_wf_insert_all)
  then show ?thesis
    using assms
    by (auto simp: open_store_def Let_def store_inv_new bind_all
        split: option.splits disk_file.splits sum.splits intro!: load_records_inv)
qed

text \<open>
  Whatever bytes are in the snapshot file, and whatever the clock shows, an opened store
  satisfies the store invariant: every record in it verifies, so a tampered snapshot injects
  nothing that was not signed. An unreadable format is not fatal.
\<close>

theorem opened_store_inv:
  assumes "open_store c clock fs path = Inr st"
  shows "store_inv c st"
  using assms by (rule open_store_inv)

theorem opened_store_inv_witness:
  "store_inv toy_ed25519 (store_new (Some (lit ''db'')))"
  by (rule opened_store_inv [where clock = "\<lambda>_. 1000" and fs = "\<lambda>_. Contents [0, 1, 2]"
        and path = "Some (lit ''db'')"])
    (simp add: open_store_def decode_snapshot_def rd_full_def snapshot_decode_from_def rd_bytes_def
      rd_bind_def rd_take_eq snapshot_magic_length)

text \<open>What a snapshot must satisfy to be written faithfully.\<close>

definition persistable :: "store \<Rightarrow> bool" where
  "persistable st \<longleftrightarrow>
     length (st_records st) < 2 ^ 32 \<and> length (st_bindings st) < 2 ^ 32 \<and>
     (\<forall>(k, r) \<in> set (st_records st). signed_record_ok r) \<and>
     (\<forall>(k, i) \<in> set (st_bindings st). pubkey_ok k \<and> pubkey_ok i)"

lemma open_persisted:
  assumes inv: "store_inv c st" and ok: "persistable st"
    and disk: "fs p = Contents (encode_snapshot (map snd (st_records st)) (st_bindings st))"
  obtains bs where "hm_wf bs" "map_of bs = bound st"
    and "open_store c clock fs (Some p) =
      Inr (load_records c (clock 0) clock 1 (map snd (st_records st))
        (fold (\<lambda>(k, i). bind k i) bs (store_new (Some p))))"
proof -
  have "\<forall>r \<in> set (map snd (st_records st)). signed_record_ok r" "hm_wf (st_bindings st)"
    using ok inv by (auto simp: persistable_def store_inv_def)
  with decode_encode_snapshot [of "map snd (st_records st)" "st_bindings st"] ok that show ?thesis
    by (auto simp: persistable_def open_store_def disk Let_def)
qed

lemma reopen_store:
  assumes "store_inv c st" and "persistable st"
    and "fs p = Contents (encode_snapshot (map snd (st_records st)) (st_bindings st))"
    and "\<forall>k r n. held st k = Some r \<longrightarrow> rec_issued_at (sr_record r) \<le> clock n + MAX_CLOCK_SKEW"
  shows "\<exists>st'. open_store c clock fs (Some p) = Inr st' \<and>
    (\<forall>k. identity_of k st' = identity_of k st) \<and>
    (\<forall>k r. held st' k = Some r \<longrightarrow> held st k = Some r) \<and>
    (\<forall>k r. held st k = Some r \<and> (\<forall>n. timely (sr_record r) (clock n)) \<longrightarrow> held st' k = Some r)"
proof -
  obtain bs where bs: "hm_wf bs" "map_of bs = bound st"
    and opened: "open_store c clock fs (Some p) =
      Inr (load_records c (clock 0) clock 1 (map snd (st_records st))
        (fold (\<lambda>(k, i). bind k i) bs (store_new (Some p))))"
    using open_persisted [OF assms(1,2), of fs p clock] assms(3) by blast
  define rs where "rs = map snd (st_records st)"
  define s0 where "s0 = fold (\<lambda>(k, i). bind k i) bs (store_new (Some p))"
  define s1 where "s1 = load_records c (clock 0) clock 1 rs s0"
  have s0: "bound s0 = bound st" "st_records s0 = []"
    using bind_all [OF bs(1), of "Some p" c] bs(2) unfolding s0_def by auto
  have wf: "hm_wf (st_records st)" using assms(1) by (simp add: store_inv_def)
  have rs: "r \<in> set rs \<longleftrightarrow> held st (sr_key r) = Some r" for r
    using hm_values_iff [OF wf, of r] assms(1) unfolding rs_def store_inv_def record_inv_def by metis
  have key: "sr_key r = k" and valid: "valid_record c (sr_record r) \<and> delegated c (sr_record r) \<and>
      signed_by c (expected_signer (sr_record r)) r" and bnd: "bound st k = Some (sr_identity r)"
    if "held st k = Some r" for k r
    using assms(1) that by (auto simp: store_inv_def record_inv_def)
  have "map sr_key rs = map fst (st_records st)"
    using wf key by (auto simp: rs_def map_of_eq_Some_iff)
  then have dist: "distinct (map sr_key rs)" using wf by simp
  have loadable: "\<forall>r \<in> set rs. loadable c s0 r"
    using bnd by (auto simp: rs loadable_def s0)
  note load = load_records_loadable [OF dist loadable, of "clock 0" clock 1, folded s1_def]
  have sub: "held st k = Some r" if "held s1 k = Some r" for k r
  proof (cases "k \<in> sr_key ` set rs")
    case True
    then obtain x where x: "x \<in> set rs" "k = sr_key x" by blast
    with load that have "r = x" by fastforce
    with x rs show ?thesis by simp
  next
    case False
    with load that s0 show ?thesis by simp
  qed
  have sup: "held s1 k = Some r" if h: "held st k = Some r" and t: "\<And>n. timely (sr_record r) (clock n)" for k r
  proof -
    have "admissible c (clock m) r" for m
      using valid [OF h] t assms(4) h by (auto simp: admissible_def)
    moreover have "\<not> is_expired (sr_record r) (clock 0)" using t [of 0] by (auto simp: timely_def)
    moreover have "r \<in> set rs" using h key [OF h] by (simp add: rs)
    ultimately show ?thesis using load key [OF h] by blast
  qed
  have "bound s1 = bound st" using load s0 by simp
  then have "\<forall>k. identity_of k s1 = identity_of k st" by (simp add: identity_of_def)
  moreover have "open_store c clock fs (Some p) = Inr s1"
    unfolding s1_def s0_def rs_def by (rule opened)
  ultimately show ?thesis using sub sup by blast
qed

text \<open>The live sample record fits the encoding; so does the store that holds it.\<close>

text \<open>
  C22. A restart loses no retirement, no binding and no record that is still good. Opening the
  snapshot of a store gives a store with the same bindings, that holds nothing the old one did
  not hold, and that holds every retirement and every live record that is unexpired (with its
  delegation) at the time of loading, provided the clock is not set back so far that records look
  issued in the future.
\<close>

theorem restart_keeps_state:
  assumes "store_inv c st" and "persistable st"
    and "fs p = Contents (encode_snapshot (map snd (st_records st)) (st_bindings st))"
    and "\<forall>k r n. held st k = Some r \<longrightarrow> rec_issued_at (sr_record r) \<le> clock n + MAX_CLOCK_SKEW"
  shows "\<exists>st'. open_store c clock fs (Some p) = Inr st' \<and>
    (\<forall>k. identity_of k st' = identity_of k st) \<and>
    (\<forall>k r. held st' k = Some r \<longrightarrow> held st k = Some r) \<and>
    (\<forall>k r. held st k = Some r \<and> (\<forall>n. timely (sr_record r) (clock n)) \<longrightarrow> held st' k = Some r)"
  using assms by (rule reopen_store)

lemma live_encoding_ok:
  "signed_record_ok (live 1 2 5 1000 300 [v4_endpoint 5300])"
proof -
  let ?r = "live 1 2 5 1000 300 [v4_endpoint 5300]"
  have "record_ok (sr_record ?r)"
    by (simp add: record_ok_def delegation_ok_def endpoint_ok_def v4_endpoint_def endpoint_new_def live_def)
  moreover have "length (record_encode (sr_record ?r)) \<le> 65535"
    by (simp add: record_encode_eq delegation_encode_into_eq endpoint_encode_into_eq v4_endpoint_def
        endpoint_new_def live_def)
  moreover have "length (sr_signature ?r) = 64" by (simp add: live_def)
  ultimately show ?thesis by (simp add: signed_record_ok_def)
qed

lemma store_live_fields:
  "st_records store_live = [(key_n 2, live 1 2 5 1000 300 [v4_endpoint 5300])]"
  "st_bindings store_live = [(key_n 2, key_n 1)]"
  unfolding store_live_eq by (simp_all add: put_result_new_fields)

theorem restart_keeps_state_witness:
  "\<exists>st'. open_store toy_ed25519 (\<lambda>_. 1100)
       ((\<lambda>_. Absent)(lit ''db'' := Contents (encode_snapshot (map snd (st_records store_live)) (st_bindings store_live))))
       (Some (lit ''db'')) = Inr st' \<and>
     identity_of (key_n 2) st' = Some (key_n 1) \<and>
     held st' (key_n 2) = Some (live 1 2 5 1000 300 [v4_endpoint 5300])"
proof -
  have ok: "persistable store_live"
    by (simp add: persistable_def store_live_fields live_encoding_ok)
  let ?fs = "(\<lambda>_. Absent)(lit ''db'' := Contents (encode_snapshot (map snd (st_records store_live)) (st_bindings store_live)))"
  have "timely (sr_record (live 1 2 5 1000 300 [v4_endpoint 5300])) 1100"
    by (rule live_timely) (simp_all add: saturating_add_def)
  moreover have "\<exists>st'. open_store toy_ed25519 (\<lambda>_. 1100) ?fs (Some (lit ''db'')) = Inr st' \<and>
      (\<forall>k. identity_of k st' = identity_of k store_live) \<and>
      (\<forall>k r. held st' k = Some r \<longrightarrow> held store_live k = Some r) \<and>
      (\<forall>k r. held store_live k = Some r \<and> (\<forall>n::nat. timely (sr_record r) 1100) \<longrightarrow> held st' k = Some r)"
    by (rule restart_keeps_state [OF store_inv_samples(1) ok])
      (auto simp: MAX_CLOCK_SKEW_def split: if_splits)
  ultimately show ?thesis by (auto simp: identity_of_def)
qed



text \<open>
  With a snapshot path that ends in \<open>.tmp\<close> the temporary file is the snapshot itself, and a
  crash right after it was created leaves an empty file in place of the previous snapshot.
\<close>

theorem persist_not_atomic_for_tmp_path:
  assumes "st_path st = Some (lit ''records.tmp'')"
  shows "\<exists>fs'. crash_state (persist_ops st) fs fs' \<and> fs' (lit ''records.tmp'') = Contents []"
proof -
  have w: "with_extension (lit ''records.tmp'') (lit ''tmp'') = lit ''records.tmp''"
    by (simp add: with_extension_def file_stem_def lit_def Let_def)
  let ?fs = "apply_op (Create (lit ''records.tmp'')) fs"
  have "crash_state (persist_ops st) fs ?fs"
    by (simp add: persist_ops_def assms Let_def w crash_later crash_now del: apply_op.simps)
  then show ?thesis by auto
qed

theorem persist_not_atomic_for_tmp_path_witness:
  "\<exists>fs'. crash_state (persist_ops (store_new (Some (lit ''records.tmp'')))) (\<lambda>_. Contents [1, 2, 3]) fs' \<and>
     fs' (lit ''records.tmp'') = Contents []"
  by (rule persist_not_atomic_for_tmp_path) (simp add: store_new_def)

end
