(* ===== verification/Cache.thy ===== *)
theory Cache
  imports Record_Auth
begin

text \<open>
  The answer cache of \<open>crates/sqns-client/src/cache.rs\<close>, which the resolver and the server's
  upstream relay share, and the contract they rely on (locale \<open>answer_cache\<close>): a positive hit is
  an unexpired record that was put under its own key, so whatever holds of every record that was
  put holds of every record that comes out.
\<close>

section \<open>The model\<close>

definition NEGATIVE_TTL :: u64 where
  "NEGATIVE_TTL = 30"

datatype entry = Found signed_record | Missing u64

record cache =
  ca_entries :: "(pubkey, entry) hashmap"

definition cache_new :: cache where
  "cache_new = \<lparr>ca_entries = []\<rparr>"

definition cache_get :: "u64 \<Rightarrow> pubkey \<Rightarrow> cache \<Rightarrow> signed_record option option \<times> cache" where
  "cache_get now key ca =
     (case map_of (ca_entries ca) key of
        Some (Found rcd) \<Rightarrow>
          if \<not> is_expired (sr_record rcd) now then (Some (Some rcd), ca)
          else (None, ca\<lparr>ca_entries := AList.delete key (ca_entries ca)\<rparr>)
      | Some (Missing until) \<Rightarrow>
          if now < until then (Some None, ca)
          else (None, ca\<lparr>ca_entries := AList.delete key (ca_entries ca)\<rparr>)
      | None \<Rightarrow> (None, ca))"

definition cache_put :: "signed_record \<Rightarrow> cache \<Rightarrow> cache" where
  "cache_put rcd ca = ca\<lparr>ca_entries := AList.update (sr_key rcd) (Found rcd) (ca_entries ca)\<rparr>"

definition put_missing :: "u64 \<Rightarrow> pubkey \<Rightarrow> cache \<Rightarrow> cache" where
  "put_missing now key ca = ca\<lparr>ca_entries := AList.update key (Missing (now + NEGATIVE_TTL)) (ca_entries ca)\<rparr>"

definition invalidate :: "pubkey \<Rightarrow> cache \<Rightarrow> cache" where
  "invalidate key ca = ca\<lparr>ca_entries := AList.delete key (ca_entries ca)\<rparr>"

definition cache_clear :: "cache \<Rightarrow> cache" where
  "cache_clear ca = ca\<lparr>ca_entries := []\<rparr>"

definition entry_fresh :: "u64 \<Rightarrow> entry \<Rightarrow> bool" where
  "entry_fresh now e =
     (case e of Found rcd \<Rightarrow> \<not> is_expired (sr_record rcd) now | Missing until \<Rightarrow> now < until)"

definition cache_purge :: "u64 \<Rightarrow> cache \<Rightarrow> nat \<times> cache" where
  "cache_purge now ca =
     (let before = length (ca_entries ca);
          entries = filter (\<lambda>(_, e). entry_fresh now e) (ca_entries ca)
      in (before - length entries, ca\<lparr>ca_entries := entries\<rparr>))"

definition cache_len :: "cache \<Rightarrow> nat" where
  "cache_len ca = length (ca_entries ca)"

definition cache_is_empty :: "cache \<Rightarrow> bool" where
  "cache_is_empty ca \<longleftrightarrow> cache_len ca = 0"

section \<open>The contract\<close>

locale answer_cache =
  fixes get1 :: "u64 \<Rightarrow> pubkey \<Rightarrow> 's \<Rightarrow> signed_record option option \<times> 's"
    and put1 :: "signed_record \<Rightarrow> 's \<Rightarrow> 's"
    and miss1 :: "u64 \<Rightarrow> pubkey \<Rightarrow> 's \<Rightarrow> 's"
    and drop1 :: "pubkey \<Rightarrow> 's \<Rightarrow> 's"
    and purge1 :: "u64 \<Rightarrow> 's \<Rightarrow> nat \<times> 's"
    and found :: "'s \<Rightarrow> pubkey \<Rightarrow> signed_record option"
    and wf1 :: "'s \<Rightarrow> bool"
  assumes hit: "fst (get1 now k s) = Some (Some r) \<Longrightarrow> found s k = Some r \<and> \<not> is_expired (sr_record r) now"
    and get_sub: "found (snd (get1 now k s)) j = Some r \<Longrightarrow> found s j = Some r"
    and put_found: "found (put1 r s) = (found s)(sr_key r \<mapsto> r)"
    and miss_found: "found (miss1 now k s) = (found s)(k := None)"
    and drop_found: "found (drop1 k s) = (found s)(k := None)"
    and purge_sub: "wf1 s \<Longrightarrow> found (snd (purge1 now s)) j = Some r \<Longrightarrow> found s j = Some r"
    and keeps_wf: "wf1 s \<Longrightarrow> wf1 (snd (get1 now k s))" "wf1 s \<Longrightarrow> wf1 (put1 r s)" "wf1 s \<Longrightarrow> wf1 (miss1 now k s)"
      "wf1 s \<Longrightarrow> wf1 (drop1 k s)" "wf1 s \<Longrightarrow> wf1 (snd (purge1 now s))"
begin

text \<open>Every record in the cache satisfies \<open>P\<close> for the key it is cached under.\<close>

abbreviation vetted :: "(pubkey \<Rightarrow> signed_record \<Rightarrow> bool) \<Rightarrow> 's \<Rightarrow> bool" where
  "vetted P s \<equiv> wf1 s \<and> (\<forall>k r. found s k = Some r \<longrightarrow> P k r)"

lemma vetted_hit:
  "vetted P s \<Longrightarrow> fst (get1 now k s) = Some (Some r) \<Longrightarrow> P k r \<and> \<not> is_expired (sr_record r) now"
  using hit by blast

lemma vetted_get: "vetted P s \<Longrightarrow> vetted P (snd (get1 now k s))"
  using get_sub keeps_wf by blast

lemma vetted_put: "vetted P s \<Longrightarrow> P (sr_key r) r \<Longrightarrow> vetted P (put1 r s)"
  by (simp add: put_found keeps_wf)

lemma vetted_miss: "vetted P s \<Longrightarrow> vetted P (miss1 now k s)"
  by (simp add: miss_found keeps_wf)

lemma vetted_drop: "vetted P s \<Longrightarrow> vetted P (drop1 k s)"
  by (simp add: drop_found keeps_wf)

lemma vetted_purge: "vetted P s \<Longrightarrow> vetted P (snd (purge1 now s))"
  using purge_sub [of s now] keeps_wf(5) [of s now] by blast

text \<open>A fresh answer is returned until it expires.\<close>

lemma vetted_put_hit: "found (put1 r s) (sr_key r) = Some r"
  by (simp add: put_found)

end

definition found_in :: "cache \<Rightarrow> pubkey \<Rightarrow> signed_record option" where
  "found_in ca k = (case map_of (ca_entries ca) k of Some (Found r) \<Rightarrow> Some r | _ \<Rightarrow> None)"

lemma map_of_delete [simp]: "map_of (AList.delete k m) = (map_of m)(k := None)"
  by (rule AList.delete_conv')

interpretation ca: answer_cache cache_get cache_put put_missing invalidate cache_purge found_in "\<lambda>ca. hm_wf (ca_entries ca)"
proof
  fix s now j r
  assume "hm_wf (ca_entries s)" and "found_in (snd (cache_purge now s)) j = Some r"
  then show "found_in s j = Some r"
    by (auto simp: cache_purge_def found_in_def map_of_filter Let_def split: option.splits entry.splits if_splits)
qed (auto simp: cache_get_def cache_put_def put_missing_def invalidate_def cache_purge_def found_in_def fun_eq_iff Let_def
      split: option.splits entry.splits if_splits intro: distinct_delete)

lemma hm_wf_new [simp]: "hm_wf (ca_entries cache_new)"
  by (simp add: cache_new_def)

lemma found_in_new [simp]: "found_in cache_new k = None"
  by (simp add: found_in_def cache_new_def)

section \<open>What a lookup in the cache answers\<close>

fun entry_answer :: "entry \<Rightarrow> signed_record option" where
  "entry_answer (Found r) = Some r"
| "entry_answer (Missing _) = None"

lemma cache_get_fst:
  "fst (cache_get now k ca) =
     (case map_of (ca_entries ca) k of
        None \<Rightarrow> None
      | Some e \<Rightarrow> if entry_fresh now e then Some (entry_answer e) else None)"
  by (auto simp: cache_get_def entry_fresh_def split: option.splits entry.splits)

lemma cache_get_snd:
  "map_of (ca_entries (snd (cache_get now k ca))) =
     (case map_of (ca_entries ca) k of
        None \<Rightarrow> map_of (ca_entries ca)
      | Some e \<Rightarrow> if entry_fresh now e then map_of (ca_entries ca) else (map_of (ca_entries ca))(k := None))"
  by (auto simp: cache_get_def entry_fresh_def split: option.splits entry.splits)

text \<open>
  A cache answers for a key exactly from the last thing put for it: the record as long as it is
  unexpired, a cached absence for \<open>NEGATIVE_TTL\<close> seconds, and nothing otherwise; looking up does
  not change any answer at that time.
\<close>

theorem cache_get_spec:
  "fst (cache_get now k ca) =
     (case map_of (ca_entries ca) k of
        None \<Rightarrow> None
      | Some e \<Rightarrow> if entry_fresh now e then Some (entry_answer e) else None) \<and>
   fst (cache_get now j (snd (cache_get now k ca))) = fst (cache_get now j ca) \<and>
   fst (cache_get now j (cache_put r ca)) =
     (if j = sr_key r then if is_expired (sr_record r) now then None else Some (Some r)
      else fst (cache_get now j ca)) \<and>
   fst (cache_get now j (put_missing now k ca)) =
     (if j = k then if now < now + NEGATIVE_TTL then Some None else None
      else fst (cache_get now j ca)) \<and>
   fst (cache_get now j (invalidate k ca)) = (if j = k then None else fst (cache_get now j ca))"
proof (intro conjI)
  show "fst (cache_get now j (snd (cache_get now k ca))) = fst (cache_get now j ca)"
    by (cases "map_of (ca_entries ca) k"; cases "j = k") (simp_all add: cache_get_fst cache_get_snd)
  show "fst (cache_get now j (cache_put r ca)) =
      (if j = sr_key r then if is_expired (sr_record r) now then None else Some (Some r)
       else fst (cache_get now j ca))"
    by (simp add: cache_get_fst cache_put_def entry_fresh_def)
  show "fst (cache_get now j (put_missing now k ca)) =
      (if j = k then if now < now + NEGATIVE_TTL then Some None else None else fst (cache_get now j ca))"
    by (simp add: cache_get_fst put_missing_def entry_fresh_def)
  show "fst (cache_get now j (invalidate k ca)) = (if j = k then None else fst (cache_get now j ca))"
    by (simp add: cache_get_fst invalidate_def)
qed (rule cache_get_fst)

end
