(* ===== verification/Protocol.thy ===== *)
theory Protocol
  imports Record_Codec
begin

text \<open>
  The wire protocol of \<open>crates/sqns-core/src/protocol.rs\<close>: error codes, requests, responses, their
  payloads, and the frames \<open>[type:u8][length:u32][payload]\<close>. A stream is the list of bytes still
  to be read; writing to it yields the bytes written.
\<close>

section \<open>Messages\<close>

definition MAX_MESSAGE_LEN :: u32 where "MAX_MESSAGE_LEN = 1048576"
definition MAX_SYNC_BATCH :: u16 where "MAX_SYNC_BATCH = 512"
definition MAX_RECURSE :: byte where "MAX_RECURSE = 8"
definition DEFAULT_RECURSE :: byte where "DEFAULT_RECURSE = 4"

definition REQ_LOOKUP :: byte where "REQ_LOOKUP = 0x01"
definition REQ_PUBLISH :: byte where "REQ_PUBLISH = 0x02"
definition REQ_STATUS :: byte where "REQ_STATUS = 0x03"
definition REQ_SYNC :: byte where "REQ_SYNC = 0x04"
definition REQ_LOOKUP_IDENTITY :: byte where "REQ_LOOKUP_IDENTITY = 0x05"

definition RESP_ANSWER :: byte where "RESP_ANSWER = 0x81"
definition RESP_PUBLISHED :: byte where "RESP_PUBLISHED = 0x82"
definition RESP_STATUS :: byte where "RESP_STATUS = 0x83"
definition RESP_RECORDS :: byte where "RESP_RECORDS = 0x84"
definition RESP_ERROR :: byte where "RESP_ERROR = 0xff"

lemmas frame_types =
  REQ_LOOKUP_def REQ_PUBLISH_def REQ_STATUS_def REQ_SYNC_def REQ_LOOKUP_IDENTITY_def
  RESP_ANSWER_def RESP_PUBLISHED_def RESP_STATUS_def RESP_RECORDS_def RESP_ERROR_def

datatype error_code =
    EC_Malformed | EC_Unsupported | EC_BadSignature | EC_Stale | EC_RateLimited | EC_Internal
  | EC_NotAuthorized | EC_Revoked | EC_UpstreamFailed | EC_Superseded | EC_BadDelegation

fun code_as_u16 :: "error_code \<Rightarrow> u16" where
  "code_as_u16 EC_Malformed = 1"
| "code_as_u16 EC_Unsupported = 2"
| "code_as_u16 EC_BadSignature = 3"
| "code_as_u16 EC_Stale = 4"
| "code_as_u16 EC_RateLimited = 5"
| "code_as_u16 EC_Internal = 6"
| "code_as_u16 EC_NotAuthorized = 7"
| "code_as_u16 EC_Revoked = 8"
| "code_as_u16 EC_UpstreamFailed = 11"
| "code_as_u16 EC_Superseded = 10"
| "code_as_u16 EC_BadDelegation = 9"

definition from_u16 :: "u16 \<Rightarrow> error_code" where
  "from_u16 v =
     (if v = 1 then EC_Malformed else if v = 2 then EC_Unsupported
      else if v = 3 then EC_BadSignature else if v = 4 then EC_Stale
      else if v = 5 then EC_RateLimited else if v = 7 then EC_NotAuthorized
      else if v = 8 then EC_Revoked else if v = 10 then EC_Superseded
      else if v = 11 then EC_UpstreamFailed else if v = 9 then EC_BadDelegation
      else EC_Internal)"

datatype request =
    Lookup pubkey byte
  | LookupIdentity pubkey
  | Publish signed_record
  | Status
  | Sync u64 u16

fun request_frame_type :: "request \<Rightarrow> byte" where
  "request_frame_type (Lookup _ _) = REQ_LOOKUP"
| "request_frame_type (LookupIdentity _) = REQ_LOOKUP_IDENTITY"
| "request_frame_type (Publish _) = REQ_PUBLISH"
| "request_frame_type Status = REQ_STATUS"
| "request_frame_type (Sync _ _) = REQ_SYNC"

fun request_encode_payload :: "request \<Rightarrow> bytes" where
  "request_encode_payload (Lookup key recurse) = as_bytes key @ [recurse]"
| "request_encode_payload (LookupIdentity identity) = as_bytes identity"
| "request_encode_payload (Publish rcd) = sr_encode_into rcd []"
| "request_encode_payload Status = []"
| "request_encode_payload (Sync since limit) = to_be_bytes since @ to_be_bytes limit"

definition request_decode_from :: "byte \<Rightarrow> request rd" where
  "request_decode_from frame_type =
     (if frame_type = REQ_LOOKUP then
        rd_bind (rd_pubkey ''lookup key'') (\<lambda>key.
        rd_bind (rd_u8 ''lookup recursion budget'') (\<lambda>recurse.
        rd_return (Lookup key (min recurse MAX_RECURSE))))
      else if frame_type = REQ_LOOKUP_IDENTITY then
        rd_bind (rd_pubkey ''identity key'') (\<lambda>identity. rd_return (LookupIdentity identity))
      else if frame_type = REQ_PUBLISH then
        rd_bind sr_decode_from (\<lambda>rcd. rd_return (Publish rcd))
      else if frame_type = REQ_STATUS then rd_return Status
      else if frame_type = REQ_SYNC then
        rd_bind (rd_u64 ''sync since'') (\<lambda>since.
        rd_bind (rd_u16 ''sync limit'') (\<lambda>limit. rd_return (Sync since limit)))
      else rd_fail (E_Protocol (Msg ''unknown request type {other:#x}'' [unat frame_type] [])))"

definition request_decode :: "byte \<Rightarrow> bytes \<Rightarrow> request res" where
  "request_decode frame_type payload = rd_full (request_decode_from frame_type) ''request'' payload"

record status_info =
  si_records :: u64
  si_cached :: u64
  si_peers :: u32
  si_upstreams :: u32
  si_uptime_secs :: u64
  si_version :: rstring

datatype response =
    Answer "signed_record option" "signed_record option"
  | Published u64 u64
  | StatusResp status_info
  | Records "signed_record list" bool
  | ErrorResp error_code rstring

fun response_frame_type :: "response \<Rightarrow> byte" where
  "response_frame_type (Answer _ _) = RESP_ANSWER"
| "response_frame_type (Published _ _) = RESP_PUBLISHED"
| "response_frame_type (StatusResp _) = RESP_STATUS"
| "response_frame_type (Records _ _) = RESP_RECORDS"
| "response_frame_type (ErrorResp _ _) = RESP_ERROR"

fun put_slot :: "signed_record option \<Rightarrow> bytes \<Rightarrow> bytes" where
  "put_slot (Some rcd) buf = sr_encode_into rcd (buf @ [1])"
| "put_slot None buf = buf @ [0]"

fun response_encode_payload :: "response \<Rightarrow> bytes" where
  "response_encode_payload (Answer rcd succ) = put_slot succ (put_slot rcd [])"
| "response_encode_payload (Published serial expires) = to_be_bytes serial @ to_be_bytes expires"
| "response_encode_payload (StatusResp info) =
     put_string (to_be_bytes (si_records info) @ to_be_bytes (si_cached info) @
       to_be_bytes (si_peers info) @ to_be_bytes (si_upstreams info) @
       to_be_bytes (si_uptime_secs info)) (si_version info)"
| "response_encode_payload (Records records complete) =
     fold sr_encode_into records
       (to_be_bytes (of_nat (length records) :: u32) @ [if complete then 1 else 0])"
| "response_encode_payload (ErrorResp code message) =
     put_string (to_be_bytes (code_as_u16 code)) message"

definition rd_slot :: "signed_record option rd" where
  "rd_slot =
     rd_bind (rd_u8 ''answer presence'') (\<lambda>present.
       if present = 0 then rd_return None
       else if present = 1 then rd_bind sr_decode_from (\<lambda>rcd. rd_return (Some rcd))
       else rd_fail (E_Protocol (Msg ''invalid answer presence byte {other:#x}'' [unat present] [])))"

definition response_decode_from :: "byte \<Rightarrow> response rd" where
  "response_decode_from frame_type =
     (if frame_type = RESP_ANSWER then
        rd_bind rd_slot (\<lambda>rcd. rd_bind rd_slot (\<lambda>succ. rd_return (Answer rcd succ)))
      else if frame_type = RESP_PUBLISHED then
        rd_bind (rd_u64 ''published serial'') (\<lambda>serial.
        rd_bind (rd_u64 ''published expires_at'') (\<lambda>expires. rd_return (Published serial expires)))
      else if frame_type = RESP_STATUS then
        rd_bind (rd_u64 ''status records'') (\<lambda>records.
        rd_bind (rd_u64 ''status cached'') (\<lambda>cached.
        rd_bind (rd_u32 ''status peers'') (\<lambda>peers.
        rd_bind (rd_u32 ''status upstreams'') (\<lambda>upstreams.
        rd_bind (rd_u64 ''status uptime'') (\<lambda>uptime.
        rd_bind (rd_string ''status version'') (\<lambda>version.
        rd_return (StatusResp
          \<lparr>si_records = records, si_cached = cached, si_peers = peers, si_upstreams = upstreams,
           si_uptime_secs = uptime, si_version = version\<rparr>)))))))
      else if frame_type = RESP_RECORDS then
        rd_bind (rd_u32 ''sync count'') (\<lambda>count.
        if unat count > unat MAX_SYNC_BATCH
        then rd_fail (E_Protocol (Msg ''sync batch of {count} exceeds the {MAX_SYNC_BATCH} cap'' [unat count] []))
        else
        rd_bind (rd_u8 ''sync complete'') (\<lambda>complete.
        rd_bind (rd_many (unat count) sr_decode_from) (\<lambda>records.
        rd_return (Records records (complete \<noteq> 0)))))
      else if frame_type = RESP_ERROR then
        rd_bind (rd_u16 ''error code'') (\<lambda>code.
        rd_bind (rd_string ''error message'') (\<lambda>message. rd_return (ErrorResp (from_u16 code) message)))
      else rd_fail (E_Protocol (Msg ''unknown response type {other:#x}'' [unat frame_type] [])))"

definition response_decode :: "byte \<Rightarrow> bytes \<Rightarrow> response res" where
  "response_decode frame_type payload = rd_full (response_decode_from frame_type) ''response'' payload"

fun into_server_error :: "response \<Rightarrow> error" where
  "into_server_error (ErrorResp code message) = E_Server (code_as_u16 code) message"
| "into_server_error other = E_Protocol (plain ''unexpected response: {other:?}'')"

section \<open>Frames\<close>

definition write_frame :: "byte \<Rightarrow> bytes \<Rightarrow> bytes res" where
  "write_frame frame_type payload =
     (if length payload > unat MAX_MESSAGE_LEN
      then Inl (E_Protocol (Msg ''message of {} bytes exceeds the {MAX_MESSAGE_LEN} byte cap''
                  [length payload] []))
      else let header = frame_type # to_be_bytes (of_nat (length payload) :: u32)
           in Inr (header @ payload))"

text \<open>\<open>AsyncReadExt::read_exact\<close>.\<close>

definition read_exact :: "nat \<Rightarrow> bytes \<Rightarrow> (bytes \<times> bytes) res" where
  "read_exact n stream =
     (if length stream < n then Inl (E_Io (plain ''early eof'')) else Inr (take n stream, drop n stream))"

definition read_frame :: "bytes \<Rightarrow> ((byte \<times> bytes) \<times> bytes) res" where
  "read_frame stream =
     rbind (read_exact 5 stream) (\<lambda>(header, stream).
     let len = from_be_bytes [header ! 1, header ! 2, header ! 3, header ! 4] :: u32 in
     if len > MAX_MESSAGE_LEN
     then Inl (E_Protocol (Msg ''peer announced a {len} byte message, over the {MAX_MESSAGE_LEN} byte cap''
                 [unat len] []))
     else
     rbind (read_exact (unat len) stream) (\<lambda>(payload, stream).
     Inr ((header ! 0, payload), stream)))"

definition request_write_to :: "request \<Rightarrow> bytes res" where
  "request_write_to q = write_frame (request_frame_type q) (request_encode_payload q)"

definition request_read_from :: "bytes \<Rightarrow> (request \<times> bytes) res" where
  "request_read_from stream =
     rbind (read_frame stream) (\<lambda>((typ, payload), stream).
     rbind (request_decode typ payload) (\<lambda>q. Inr (q, stream)))"

definition response_write_to :: "response \<Rightarrow> bytes res" where
  "response_write_to a = write_frame (response_frame_type a) (response_encode_payload a)"

definition response_read_from :: "bytes \<Rightarrow> (response \<times> bytes) res" where
  "response_read_from stream =
     rbind (read_frame stream) (\<lambda>((typ, payload), stream).
     rbind (response_decode typ payload) (\<lambda>a. Inr (a, stream)))"

section \<open>Well-formed messages\<close>

fun request_ok :: "request \<Rightarrow> bool" where
  "request_ok (Lookup key _) \<longleftrightarrow> pubkey_ok key"
| "request_ok (LookupIdentity identity) \<longleftrightarrow> pubkey_ok identity"
| "request_ok (Publish rcd) \<longleftrightarrow> signed_record_ok rcd"
| "request_ok _ \<longleftrightarrow> True"

text \<open>What the receiver makes of a request: the hop budget is clamped.\<close>

fun clamped :: "request \<Rightarrow> request" where
  "clamped (Lookup key recurse) = Lookup key (min recurse MAX_RECURSE)"
| "clamped q = q"

fun slot_ok :: "signed_record option \<Rightarrow> bool" where
  "slot_ok None \<longleftrightarrow> True"
| "slot_ok (Some rcd) \<longleftrightarrow> signed_record_ok rcd"

fun response_ok :: "response \<Rightarrow> bool" where
  "response_ok (Answer rcd succ) \<longleftrightarrow> slot_ok rcd \<and> slot_ok succ"
| "response_ok (StatusResp info) \<longleftrightarrow> string_ok (si_version info)"
| "response_ok (Records records _) \<longleftrightarrow> length records \<le> 512 \<and> (\<forall>r \<in> set records. signed_record_ok r)"
| "response_ok (ErrorResp _ message) \<longleftrightarrow> string_ok message"
| "response_ok (Published _ _) \<longleftrightarrow> True"

section \<open>Payloads\<close>

lemma from_u16_code [simp]: "from_u16 (code_as_u16 c) = c"
  by (cases c) (simp_all add: from_u16_def)

lemma parses_request:
  "request_ok q \<Longrightarrow> parses (request_decode_from (request_frame_type q)) (clamped q) (request_encode_payload q)"
  by (cases q)
    (auto simp: request_decode_from_def frame_types sr_encode_into_def
      intro!: field_thens pubkey.enc_then pubkey.enc_last signed_rec.enc_last parses_return u8.enc_last)

lemma request_decode_canonical:
  assumes "request_decode_from t r = Inr (q, r')"
  shows "\<exists>q'. request_ok q' \<and> t = request_frame_type q' \<and> q = clamped q' \<and>
              consumed r r' (request_encode_payload q')"
proof -
  consider (l) key n where "t = REQ_LOOKUP" "q = clamped (Lookup key n)" "pubkey_ok key"
      "consumed r r' (as_bytes key @ [n])"
    | (i) key where "t = REQ_LOOKUP_IDENTITY" "q = LookupIdentity key" "pubkey_ok key"
      "consumed r r' (as_bytes key)"
    | (p) rcd where "t = REQ_PUBLISH" "q = Publish rcd" "signed_record_ok rcd" "consumed r r' (sr_encode rcd)"
    | (s) "t = REQ_STATUS" "q = Status" "r' = r"
    | (y) a b where "t = REQ_SYNC" "q = Sync a b" "consumed r r' (to_be_bytes a @ to_be_bytes b)"
    using assms
    by (auto simp: request_decode_from_def rd_bind_Inr_iff split: if_splits
        dest!: pubkey.dec_canonical signed_rec.dec_canonical field_consumed rd_u8_consumed
        intro: consumed_trans)
  then show ?thesis
  proof cases
    case (l key n)
    then show ?thesis by (intro exI [of _ "Lookup key n"]) simp
  next
    case (i key)
    then show ?thesis by (intro exI [of _ "LookupIdentity key"]) simp
  next
    case (p rcd)
    then show ?thesis by (intro exI [of _ "Publish rcd"]) (simp add: sr_encode_into_def)
  next
    case s
    then show ?thesis by (intro exI [of _ Status]) simp
  next
    case (y a b)
    then show ?thesis by (intro exI [of _ "Sync a b"]) simp
  qed
qed

text \<open>A whole-payload decode is the payload decoder followed by \<open>finish\<close>.\<close>

lemma rd_full_parses: "parses m x bs \<Longrightarrow> rd_full m what bs = Inr x"
  by (simp add: parses_def rd_full_def rd_finish_def remaining_rest)

lemma rd_full_consumed:
  "rd_full m what bs = Inr x \<Longrightarrow>
   \<exists>r. m (reader_new bs) = Inr (x, r) \<and> (\<forall>b. consumed (reader_new bs) r b \<longrightarrow> bs = b)"
  by (auto simp: rd_full_def rd_finish_def remaining_rest consumed_def split: if_splits)

lemma request_decode_iff:
  "request_decode t payload = Inr q \<longleftrightarrow>
     (\<exists>q'. request_ok q' \<and> t = request_frame_type q' \<and> q = clamped q' \<and> payload = request_encode_payload q')"
proof
  assume "request_decode t payload = Inr q"
  then have "rd_full (request_decode_from t) ''request'' payload = Inr q"
    by (simp only: request_decode_def)
  from rd_full_consumed [OF this] obtain r where
      d: "request_decode_from t (reader_new payload) = Inr (q, r)"
    and all: "\<And>b. consumed (reader_new payload) r b \<Longrightarrow> payload = b"
    by auto
  from request_decode_canonical [OF d] all
  show "\<exists>q'. request_ok q' \<and> t = request_frame_type q' \<and> q = clamped q' \<and>
      payload = request_encode_payload q'"
    by fast
qed (auto simp: request_decode_def intro: rd_full_parses parses_request)

lemma put_string_to: "put_string buf s = buf @ put_string [] s"
  by (simp add: put_string_def)

lemma put_slot_append: "put_slot s buf = buf @ put_slot s []"
  by (cases s) (simp_all add: sr_encode_into_def)

lemma fold_sr_encode_into: "fold sr_encode_into rs buf = buf @ concat (map sr_encode rs)"
  by (induction rs arbitrary: buf) (simp_all add: sr_encode_into_def)

interpretation slot: wire_codec "\<lambda>s. put_slot s []" rd_slot slot_ok
proof
  fix s assume "slot_ok s"
  then show "parses rd_slot s (put_slot s [])"
    by (cases s)
      (auto simp: rd_slot_def sr_encode_into_def intro!: parses_u8_then parses_return signed_rec.enc_last)
next
  fix r s r' assume "rd_slot r = Inr (s, r')"
  then consider "s = None" "rd_u8 ''answer presence'' r = Inr (0, r')"
    | rcd r1 where "s = Some rcd" "rd_u8 ''answer presence'' r = Inr (1, r1)"
        "sr_decode_from r1 = Inr (rcd, r')"
    by (auto simp: rd_slot_def rd_bind_Inr_iff split: if_splits)
  then show "slot_ok s \<and> consumed r r' (put_slot s [])"
  proof cases
    case 1
    then show ?thesis using rd_u8_consumed by simp
  next
    case 2
    then show ?thesis
      using signed_rec.dec_canonical [OF 2(3)] consumed_u8 [OF 2(2)] by (simp add: sr_encode_into_def)
  qed
qed

lemma parses_response:
  assumes "response_ok a"
  shows "parses (response_decode_from (response_frame_type a)) a (response_encode_payload a)"
proof (cases a)
  case (Answer rcd succ)
  have "parses (rd_bind rd_slot (\<lambda>rcd. rd_bind rd_slot (\<lambda>succ. rd_return (Answer rcd succ)))) a
      (put_slot rcd [] @ put_slot succ [])"
    using assms unfolding Answer by (intro slot.enc_then slot.enc_last) simp_all
  then show ?thesis
    using put_slot_append [of succ "put_slot rcd []"] by (simp add: Answer response_decode_from_def)
next
  case (Published serial expires)
  then show ?thesis by (auto simp: response_decode_from_def frame_types intro!: field_thens)
next
  case (StatusResp info)
  with assms show ?thesis
    unfolding StatusResp response_encode_payload.simps
    by (subst put_string_to) (auto simp: response_decode_from_def frame_types intro!: field_thens)
next
  case (Records records complete)
  with assms have n: "unat (of_nat (length records) :: u32) = length records"
    by (intro unat_of_nat_u32) simp
  from assms Records have "parses (rd_bind (rd_many (length records) sr_decode_from) (\<lambda>records.
      rd_return (Records records complete))) a (concat (map sr_encode records))"
    unfolding Records by (intro parses_bind_return signed_rec.many_enc) simp
  with assms Records show ?thesis
    by (auto simp: response_decode_from_def frame_types fold_sr_encode_into n MAX_SYNC_BATCH_def
        intro!: u32.enc_then parses_u8_then)
next
  case (ErrorResp code message)
  with assms show ?thesis
    unfolding ErrorResp response_encode_payload.simps
    by (subst put_string_to) (auto simp: response_decode_from_def frame_types intro!: field_thens)
qed

lemma response_decode_ok: "response_decode_from t r = Inr (a, r') \<Longrightarrow> response_ok a"
  by (auto simp: response_decode_from_def rd_bind_Inr_iff MAX_SYNC_BATCH_def split: if_splits
      dest!: slot.dec_canonical signed_rec.many_canonical string.dec_canonical)

section \<open>Framing\<close>

lemma write_frame_ok:
  "length p \<le> 1048576 \<Longrightarrow> write_frame t p = Inr (t # to_be_bytes (of_nat (length p) :: u32) @ p)"
  by (simp add: write_frame_def MAX_MESSAGE_LEN_def)

lemma write_frame_Inr:
  "write_frame t p = Inr b \<Longrightarrow> length p \<le> 1048576 \<and> b = t # to_be_bytes (of_nat (length p) :: u32) @ p"
  by (auto simp: write_frame_def MAX_MESSAGE_LEN_def split: if_splits)

lemma read_frame_eq:
  assumes "length h = 4"
  shows "read_frame (t # h @ s) =
    (if (from_be_bytes h :: u32) > MAX_MESSAGE_LEN
     then Inl (E_Protocol (Msg ''peer announced a {len} byte message, over the {MAX_MESSAGE_LEN} byte cap''
                 [unat (from_be_bytes h :: u32)] []))
     else rbind (read_exact (unat (from_be_bytes h :: u32)) s) (\<lambda>(payload, s). Inr ((t, payload), s)))"
proof -
  obtain a b c d where h: "h = [a, b, c, d]"
    using assms by (auto simp: numeral_eq_Suc length_Suc_conv)
  have "read_exact 5 (t # h @ s) = Inr (t # h, s)" by (simp add: read_exact_def h)
  then show ?thesis by (simp add: read_frame_def h Let_def)
qed

lemma read_write_frame:
  assumes "write_frame t p = Inr b"
  shows "read_frame (b @ s) = Inr ((t, p), s)"
proof -
  let ?n = "of_nat (length p) :: u32"
  have n: "unat ?n = length p" and le: "\<not> ?n > MAX_MESSAGE_LEN"
    using write_frame_Inr [OF assms]
    by (auto simp: unat_of_nat_u32 MAX_MESSAGE_LEN_def word_less_nat_alt)
  have "from_be_bytes (to_be_bytes ?n) = ?n" by (rule from_to_be_bytes) simp
  with write_frame_Inr [OF assms] n le show ?thesis
    by (simp add: read_frame_eq read_exact_def)
qed

lemma read_frame_Inr:
  assumes "read_frame s = Inr ((t, p), s')"
  shows "length p \<le> 1048576 \<and> s = t # to_be_bytes (of_nat (length p) :: u32) @ p @ s'"
proof -
  have "length s \<ge> 5" using assms by (auto simp: read_frame_def read_exact_def split: if_splits)
  then obtain u l where l: "s = u # l" "length l \<ge> 4" by (cases s) auto
  define h r where "h = take 4 l" and "r = drop 4 l"
  then have s: "s = u # h @ r" and h: "length h = 4" using l by simp_all
  let ?n = "from_be_bytes h :: u32"
  have "unat ?n \<le> 1048576" and "u = t" "length r \<ge> unat ?n" "p = take (unat ?n) r" "s' = drop (unat ?n) r"
    using assms
    by (auto simp: s read_frame_eq [OF h] read_exact_def MAX_MESSAGE_LEN_def word_less_nat_alt split: if_splits)
  moreover from this have "of_nat (length p) = ?n" by simp
  moreover have "to_be_bytes ?n = h" using h by (intro to_from_be_bytes) simp
  ultimately show ?thesis by (simp add: s)
qed

section \<open>Sizes\<close>

lemma length_sr_encode: "signed_record_ok s \<Longrightarrow> length (sr_encode s) \<le> 65601"
  by (simp add: signed_record_ok_def sr_encode_eq)

lemma length_request_payload: "request_ok q \<Longrightarrow> length (request_encode_payload q) \<le> 65601"
  by (cases q) (simp_all add: pubkey_ok_def sr_encode_into_def length_sr_encode)

lemma length_put_slot: "slot_ok s \<Longrightarrow> length (put_slot s []) \<le> 65602"
  by (cases s) (simp_all add: sr_encode_into_def length_sr_encode)

text \<open>Every response but a batch of records fits a frame.\<close>

fun is_batch :: "response \<Rightarrow> bool" where
  "is_batch (Records _ _) = True"
| "is_batch _ = False"

lemma length_response_payload:
  assumes "response_ok a" and "\<not> is_batch a"
  shows "length (response_encode_payload a) \<le> 1048576"
proof (cases a)
  case (Answer rcd succ)
  have "length (put_slot succ (put_slot rcd [])) = length (put_slot rcd []) + length (put_slot succ [])"
    by (subst put_slot_append) simp
  with assms Answer length_put_slot [of rcd] length_put_slot [of succ] show ?thesis by simp
qed (use assms in \<open>simp_all add: put_string_def string_ok_def\<close>)

end
