(* ===== verification/Link.thy ===== *)
theory Link
  imports Protocol
begin

text \<open>
  Pooled connections to other servers (\<open>crates/sqnsd/src/link.rs\<close>; the resolver's
  \<open>request_server\<close> follows the same scheme), and the texts that callers put into their error
  messages. Connections, and with them everything the other side does, are parameters: \<open>connect\<close>
  and \<open>exchange\<close>, each threading a state \<open>'w\<close> of the outside world.
\<close>

section \<open>Links\<close>

record ('a, 'c) peer_link =
  li_addr :: 'a
  li_conn :: "'c option"

definition peer_link_new :: "'a \<Rightarrow> ('a, 'c) peer_link" where
  "peer_link_new addr = \<lparr>li_addr = addr, li_conn = None\<rparr>"

definition peer_request ::
  "('a \<Rightarrow> 'w \<Rightarrow> 'c res \<times> 'w) \<Rightarrow> ('c \<Rightarrow> request \<Rightarrow> 'w \<Rightarrow> response res \<times> 'w) \<Rightarrow>
   request \<Rightarrow> ('a, 'c) peer_link \<Rightarrow> 'w \<Rightarrow> response res \<times> ('a, 'c) peer_link \<times> 'w" where
  "peer_request connect exchange req li w =
     (let redial = (\<lambda>li w.
            case connect (li_addr li) w of
              (Inl e, w) \<Rightarrow> (Inl e, li, w)
            | (Inr conn, w) \<Rightarrow>
              (case exchange conn req w of
                 (Inl e, w) \<Rightarrow> (Inl e, li, w)
               | (Inr resp, w) \<Rightarrow> (Inr resp, li\<lparr>li_conn := Some conn\<rparr>, w)))
      in case li_conn li of
           None \<Rightarrow> redial li w
         | Some conn \<Rightarrow>
           (case exchange conn req w of
              (Inr resp, w) \<Rightarrow> (Inr resp, li, w)
            | (Inl _, w) \<Rightarrow> redial (li\<lparr>li_conn := None\<rparr>) w))"

text \<open>The pool keeps a connection exactly when its last exchange succeeded.\<close>

lemma peer_request_pool:
  assumes "peer_request connect exchange req li w = (out, li', w')"
  shows "(is_ok out \<longleftrightarrow> li_conn li' \<noteq> None) \<and> li_addr li' = li_addr li \<and>
         (\<forall>resp. out = Inr resp \<longrightarrow> (\<exists>conn w1. li_conn li' = Some conn \<and> exchange conn req w1 = (Inr resp, w')))"
  using assms
  by (auto simp: peer_request_def Let_def split: option.splits prod.splits sum.splits)

section \<open>Texts\<close>

text \<open>How values are rendered in error messages.\<close>

record 'l texts =
  show_error :: "error \<Rightarrow> rstring"
  show_link :: "'l \<Rightarrow> rstring"
  debug_code :: "error_code \<Rightarrow> rstring"
  debug_response :: "response \<Rightarrow> rstring"
  stale_message :: "u64 \<Rightarrow> pubkey \<Rightarrow> rstring"

text \<open>\<open>{}: {e}\<close> and \<open>[..].join("; ")\<close>\<close>

definition link_error :: "'l texts \<Rightarrow> 'l \<Rightarrow> rstring \<Rightarrow> rstring" where
  "link_error tx l e = show_link tx l @ lit '': '' @ e"

fun join :: "rstring \<Rightarrow> rstring list \<Rightarrow> rstring" where
  "join sep [] = []"
| "join sep [x] = x"
| "join sep (x # y # xs) = x @ sep @ join sep (y # xs)"

end
