(* ===== verification/Upstream.thy ===== *)
theory Upstream
  imports Store Cache Link
begin

text \<open>
  Asking other servers (\<open>crates/sqnsd/src/upstream.rs\<close>). One exchange over a link, or its
  time-out, is the parameter \<open>ask\<close>, which threads a state \<open>'w\<close> of the outside world. The in-flight semaphore
  only delays requests and is not modelled. A handler reads the clock several times while it waits;
  \<open>clock n\<close> is its \<open>n\<close>-th reading.
\<close>

section \<open>The relay\<close>

datatype ask_outcome = Responded response | AskFailed error | TimedOut

record relayed =
  rl_record :: signed_record
  rl_successor :: "signed_record option"

record 'l upstream =
  up_links :: "'l list"
  up_cache :: "cache option"

definition upstream_new :: "'l list \<Rightarrow> bool \<Rightarrow> 'l upstream" where
  "upstream_new links use_cache =
     \<lparr>up_links = links, up_cache = (if use_cache then Some cache_new else None)\<rparr>"

definition up_is_empty :: "'l upstream \<Rightarrow> bool" where
  "up_is_empty up \<longleftrightarrow> up_links up = []"

definition up_len :: "'l upstream \<Rightarrow> nat" where
  "up_len up = length (up_links up)"

definition up_cached :: "'l upstream \<Rightarrow> nat" where
  "up_cached up = (case up_cache up of None \<Rightarrow> 0 | Some ca \<Rightarrow> cache_len ca)"

definition up_purge :: "u64 \<Rightarrow> 'l upstream \<Rightarrow> nat \<times> 'l upstream" where
  "up_purge now up =
     (case up_cache up of
        None \<Rightarrow> (0, up)
      | Some ca \<Rightarrow> let (n, ca) = cache_purge now ca in (n, up\<lparr>up_cache := Some ca\<rparr>))"

definition accept :: "'v verifier_scheme \<Rightarrow> u64 \<Rightarrow> store \<Rightarrow> pubkey \<Rightarrow> signed_record \<Rightarrow> unit res" where
  "accept c now st key rcd =
     rbind (verify_answer c rcd key now) (\<lambda>_.
       case identity_of key st of
         Some bnd \<Rightarrow>
           if sr_identity rcd \<noteq> bnd
           then Inl (E_Delegation (Msg ''{key} is bound to identity {bound} here, but upstream answered for {}''
                       [] [as_bytes key, as_bytes bnd, as_bytes (sr_identity rcd)]))
           else Inr ()
       | None \<Rightarrow> Inr ())"

definition accept_successor ::
  "'v verifier_scheme \<Rightarrow> u64 \<Rightarrow> store \<Rightarrow> signed_record \<Rightarrow> signed_record \<Rightarrow> signed_record option" where
  "accept_successor c now st rcd succ =
     (case successor (sr_record rcd) of
        None \<Rightarrow> None
      | Some expected \<Rightarrow>
          if sr_key succ \<noteq> expected then None
          else if is_ok (accept c now st expected succ) then Some succ else None)"

definition cached_successor ::
  "u64 \<Rightarrow> signed_record \<Rightarrow> cache \<Rightarrow> signed_record option \<times> cache" where
  "cached_successor now rcd ca =
     (case successor (sr_record rcd) of
        None \<Rightarrow> (None, ca)
      | Some nxt \<Rightarrow> let (hit, ca) = cache_get now nxt ca
                     in ((case hit of Some (Some s) \<Rightarrow> Some s | _ \<Rightarrow> None), ca))"

definition cache_relayed :: "signed_record \<Rightarrow> signed_record option \<Rightarrow> cache option \<Rightarrow> cache option" where
  "cache_relayed rcd succ ca =
     map_option (\<lambda>ca. let ca = cache_put rcd ca in case succ of None \<Rightarrow> ca | Some s \<Rightarrow> cache_put s ca) ca"

text \<open>
  The loop over the links. It ends with a relayed answer or with the collected errors and the
  number of upstreams that answered.
\<close>

fun up_loop ::
  "'v verifier_scheme \<Rightarrow> 'l texts \<Rightarrow> ('l \<Rightarrow> request \<Rightarrow> 'w \<Rightarrow> ask_outcome \<times> 'w) \<Rightarrow> (nat \<Rightarrow> u64) \<Rightarrow> store \<Rightarrow>
   pubkey \<Rightarrow> request \<Rightarrow> 'l list \<Rightarrow> nat \<Rightarrow> rstring list \<Rightarrow> nat \<Rightarrow> cache option \<Rightarrow> 'w \<Rightarrow>
   (relayed + rstring list \<times> nat) \<times> cache option \<times> 'w" where
  "up_loop c tx ask clock st key req [] i errors answered ca w = (Inr (errors, answered), ca, w)"
| "up_loop c tx ask clock st key req (l # ls) i errors answered ca w =
     (case ask l req w of
        (AskFailed e, w) \<Rightarrow>
          up_loop c tx ask clock st key req ls (Suc i) (errors @ [link_error tx l (show_error tx e)]) answered ca w
      | (TimedOut, w) \<Rightarrow>
          up_loop c tx ask clock st key req ls (Suc i) (errors @ [link_error tx l (lit ''timed out'')]) answered ca w
      | (Responded (Answer (Some rcd) succ), w) \<Rightarrow>
          (case accept c (clock (2 + 2 * i)) st key rcd of
             Inl e \<Rightarrow>
               up_loop c tx ask clock st key req ls (Suc i) (errors @ [link_error tx l (show_error tx e)])
                 (Suc answered) ca w
           | Inr _ \<Rightarrow>
               let succ = (case succ of None \<Rightarrow> None | Some s \<Rightarrow> accept_successor c (clock (3 + 2 * i)) st rcd s)
               in (Inl \<lparr>rl_record = rcd, rl_successor = succ\<rparr>, cache_relayed rcd succ ca, w))
      | (Responded (Answer None _), w) \<Rightarrow>
          up_loop c tx ask clock st key req ls (Suc i) errors (Suc answered) ca w
      | (Responded (ErrorResp code message), w) \<Rightarrow>
          up_loop c tx ask clock st key req ls (Suc i)
            (errors @ [link_error tx l (debug_code tx code @ lit '': '' @ message)]) answered ca w
      | (Responded other, w) \<Rightarrow>
          up_loop c tx ask clock st key req ls (Suc i)
            (errors @ [link_error tx l (lit ''unexpected '' @ debug_response tx other)]) answered ca w)"

definition up_ask ::
  "'v verifier_scheme \<Rightarrow> 'l texts \<Rightarrow> ('l \<Rightarrow> request \<Rightarrow> 'w \<Rightarrow> ask_outcome \<times> 'w) \<Rightarrow> (nat \<Rightarrow> u64) \<Rightarrow> store \<Rightarrow>
   pubkey \<Rightarrow> byte \<Rightarrow> 'l upstream \<Rightarrow> 'w \<Rightarrow> relayed option res \<times> 'l upstream \<times> 'w" where
  "up_ask c tx ask clock st key recurse up w =
     (let req = Lookup key recurse in
      case up_loop c tx ask clock st key req (up_links up) 0 [] 0 (up_cache up) w of
        (Inl relayed, ca, w) \<Rightarrow> (Inr (Some relayed), up\<lparr>up_cache := ca\<rparr>, w)
      | (Inr (errors, answered), ca, w) \<Rightarrow>
          if answered = length (up_links up)
          then (Inr None,
                up\<lparr>up_cache := map_option (put_missing (clock (2 + 2 * length (up_links up))) key) ca\<rparr>, w)
          else if answered > 0 then (Inr None, up\<lparr>up_cache := ca\<rparr>, w)
          else (Inl (E_Server (code_as_u16 EC_UpstreamFailed)
                  (lit ''no upstream could answer ('' @ join (lit ''; '') errors @ lit '')'')),
                up\<lparr>up_cache := ca\<rparr>, w))"

definition up_lookup ::
  "'v verifier_scheme \<Rightarrow> 'l texts \<Rightarrow> ('l \<Rightarrow> request \<Rightarrow> 'w \<Rightarrow> ask_outcome \<times> 'w) \<Rightarrow> (nat \<Rightarrow> u64) \<Rightarrow> store \<Rightarrow>
   pubkey \<Rightarrow> byte \<Rightarrow> 'l upstream \<Rightarrow> 'w \<Rightarrow> relayed option res \<times> 'l upstream \<times> 'w" where
  "up_lookup c tx ask clock st key recurse up w =
     (case up_cache up of
        None \<Rightarrow> up_ask c tx ask clock st key recurse up w
      | Some ca \<Rightarrow>
          let (hit, ca) = cache_get (clock 0) key ca in
          (case hit of
             Some (Some rcd) \<Rightarrow>
               let (succ, ca) = cached_successor (clock 1) rcd ca
               in (Inr (Some \<lparr>rl_record = rcd, rl_successor = succ\<rparr>), up\<lparr>up_cache := Some ca\<rparr>, w)
           | Some None \<Rightarrow> (Inr None, up\<lparr>up_cache := Some ca\<rparr>, w)
           | None \<Rightarrow> up_ask c tx ask clock st key recurse (up\<lparr>up_cache := Some ca\<rparr>) w))"

section \<open>What the relay accepts\<close>

lemma accept_iff:
  "accept c now st k r = Inr u \<longleftrightarrow>
     verify_answer c r k now = Inr () \<and> (\<forall>i. identity_of k st = Some i \<longrightarrow> sr_identity r = i)"
  by (auto simp: accept_def split: option.splits)

lemma accept_successor_Some:
  "accept_successor c now st rcd s = Some s' \<longleftrightarrow>
     s' = s \<and> successor (sr_record rcd) = Some (sr_key s) \<and> is_ok (accept c now st (sr_key s) s)"
  by (auto simp: accept_successor_def split: option.splits if_splits)

text \<open>Every record in the relay cache passed the checks when it was cached.\<close>

definition cache_vetted :: "'v verifier_scheme \<Rightarrow> cache option \<Rightarrow> bool" where
  "cache_vetted c ca \<longleftrightarrow> (case ca of None \<Rightarrow> True | Some x \<Rightarrow> ca.vetted (chain_ok c) x)"

text \<open>What a relayed answer to a question about a key has to satisfy.\<close>

definition relayed_ok :: "'v verifier_scheme \<Rightarrow> pubkey \<Rightarrow> relayed \<Rightarrow> bool" where
  "relayed_ok c k rel \<longleftrightarrow>
     chain_ok c k (rl_record rel) \<and>
     (\<forall>s. rl_successor rel = Some s \<longrightarrow>
        successor (sr_record (rl_record rel)) = Some (sr_key s) \<and> chain_ok c (sr_key s) s)"

lemma cache_vetted_None [simp]: "cache_vetted c None"
  by (simp add: cache_vetted_def)

lemma cache_vetted_Some: "cache_vetted c (Some x) \<longleftrightarrow> ca.vetted (chain_ok c) x"
  by (simp add: cache_vetted_def)

lemma cache_vetted_relayed:
  assumes "cache_vetted c ca" and "chain_ok c (sr_key r) r"
    and "\<And>s. succ = Some s \<Longrightarrow> chain_ok c (sr_key s) s"
  shows "cache_vetted c (cache_relayed r succ ca)"
proof (cases ca)
  case (Some x)
  have "ca.vetted (chain_ok c) (cache_put r x)"
    using assms(1,2) by (intro ca.vetted_put) (simp_all add: Some cache_vetted_Some)
  then show ?thesis
    using assms(3) ca.vetted_put [of "cache_put r x" "chain_ok c"]
    by (cases succ) (simp_all add: Some cache_vetted_Some cache_relayed_def)
qed (simp add: cache_relayed_def)

lemma cache_vetted_get: "cache_vetted c (Some ca) \<Longrightarrow> cache_vetted c (Some (snd (cache_get now k ca)))"
  using ca.vetted_get [of ca "chain_ok c"] by (simp add: cache_vetted_Some)

lemma cache_vetted_missing: "cache_vetted c ca \<Longrightarrow> cache_vetted c (map_option (put_missing now k) ca)"
  using ca.vetted_miss [of _ "chain_ok c" now k] by (cases ca) (simp_all add: cache_vetted_Some)

lemma cache_vetted_purge: "cache_vetted c (up_cache up) \<Longrightarrow> cache_vetted c (up_cache (snd (up_purge now up)))"
  using ca.vetted_purge [of _ "chain_ok c" now]
  by (cases "up_cache up") (auto simp: up_purge_def cache_vetted_Some case_prod_unfold Let_def)

lemma cached_successor_ok:
  assumes "cached_successor now r ca = (succ, ca')" and "cache_vetted c (Some ca)"
  shows "cache_vetted c (Some ca') \<and>
    (\<forall>s. succ = Some s \<longrightarrow> successor (sr_record r) = Some (sr_key s) \<and> chain_ok c (sr_key s) s)"
proof (cases "successor (sr_record r)")
  case None
  with assms show ?thesis by (simp add: cached_successor_def)
next
  case (Some nxt)
  have hit: "chain_ok c nxt s" if "fst (cache_get now nxt ca) = Some (Some s)" for s
    using ca.vetted_hit [OF _ that, of "chain_ok c"] assms(2) by (simp add: cache_vetted_Some)
  have "succ = Some s \<Longrightarrow> fst (cache_get now nxt ca) = Some (Some s)" for s
    using assms(1) Some by (auto simp: cached_successor_def split: prod.splits option.splits)
  moreover have "ca' = snd (cache_get now nxt ca)"
    using assms(1) Some by (auto simp: cached_successor_def split: prod.splits)
  ultimately show ?thesis
    using Some hit cache_vetted_get [OF assms(2)] by (auto simp: chain_ok_def)
qed

text \<open>The loop, for any link behaviour.\<close>

lemma up_loop_relayed:
  assumes "up_loop c tx ask clock st key req ls i errs n ca w = (Inl rel, ca', w')" and "cache_vetted c ca"
  shows "relayed_ok c key rel \<and> cache_vetted c ca' \<and>
    (\<exists>t. timely (sr_record (rl_record rel)) t) \<and>
    (\<forall>i. identity_of key st = Some i \<longrightarrow> sr_identity (rl_record rel) = i)"
  using assms
proof (induction ls arbitrary: i errs n ca w)
  case Nil
  then show ?case by simp
next
  case (Cons l ls)
  show ?case
  proof (cases "\<exists>rcd succ w1. ask l req w = (Responded (Answer (Some rcd) succ), w1) \<and>
      is_ok (accept c (clock (2 + 2 * i)) st key rcd)")
    case True
    then obtain rcd succ w1 where a: "ask l req w = (Responded (Answer (Some rcd) succ), w1)"
      and ok: "accept c (clock (2 + 2 * i)) st key rcd = Inr ()" by (auto simp: is_ok_iff)
    let ?s = "case succ of None \<Rightarrow> None | Some s \<Rightarrow> accept_successor c (clock (3 + 2 * i)) st rcd s"
    have rel: "rel = \<lparr>rl_record = rcd, rl_successor = ?s\<rparr>" and ca': "ca' = cache_relayed rcd ?s ca"
      using Cons.prems(1) ok by (auto simp: a Let_def)
    have r: "chain_ok c key rcd" "timely (sr_record rcd) (clock (2 + 2 * i))"
        "\<forall>i. identity_of key st = Some i \<longrightarrow> sr_identity rcd = i"
      using ok by (auto simp: accept_iff verify_answer_chain)
    have s: "successor (sr_record rcd) = Some (sr_key s) \<and> chain_ok c (sr_key s) s" if "?s = Some s" for s
      using that
      by (auto simp: accept_successor_Some is_ok_iff accept_iff verify_answer_chain split: option.splits)
    have "cache_vetted c ca'"
      unfolding ca' using r(1) s by (intro cache_vetted_relayed [OF Cons.prems(2)]) (auto simp: chain_ok_def)
    with r s show ?thesis by (auto simp: rel relayed_ok_def)
  next
    case False
    then show ?thesis
      using Cons.prems Cons.IH
      by (auto simp: is_ok_iff split: prod.splits ask_outcome.splits response.splits option.splits sum.splits)
  qed
qed

lemma up_loop_exhausted:
  assumes "up_loop c tx ask clock st key req ls i errs n ca w = (Inr (errs', n'), ca', w')"
  shows "ca' = ca \<and> n \<le> n' \<and> n' \<le> n + length ls"
  using assms
proof (induction ls arbitrary: i errs n w)
  case Nil
  then show ?case by simp
next
  case (Cons l ls)
  then show ?case
    by (fastforce simp: Let_def split: prod.splits ask_outcome.splits response.splits option.splits sum.splits)
qed

lemma up_ask_ok:
  assumes "up_ask c tx ask clock st key recurse up w = (out, up', w')" and "cache_vetted c (up_cache up)"
  shows "cache_vetted c (up_cache up') \<and> up_links up' = up_links up \<and>
    (\<forall>rel. out = Inr (Some rel) \<longrightarrow> relayed_ok c key rel)"
proof -
  obtain res ca w1 where l: "up_loop c tx ask clock st key (Lookup key recurse) (up_links up) 0 [] 0
      (up_cache up) w = (res, ca, w1)"
    by (cases "up_loop c tx ask clock st key (Lookup key recurse) (up_links up) 0 [] 0 (up_cache up) w") auto
  show ?thesis
  proof (cases res)
    case (Inl rel)
    with assms l up_loop_relayed [OF l [unfolded Inl] assms(2)] show ?thesis
      by (auto simp: up_ask_def Let_def)
  next
    case (Inr p)
    obtain errs n where p: "p = (errs, n)" by (cases p)
    have "ca = up_cache up" using up_loop_exhausted [OF l [unfolded Inr p]] by simp
    with assms l Inr p show ?thesis
      by (auto simp: up_ask_def Let_def cache_vetted_missing split: if_splits)
  qed
qed

lemma up_lookup_ok:
  assumes "up_lookup c tx ask clock st key recurse up w = (out, up', w')" and "cache_vetted c (up_cache up)"
  shows "cache_vetted c (up_cache up') \<and> up_links up' = up_links up \<and>
    (\<forall>rel. out = Inr (Some rel) \<longrightarrow> relayed_ok c key rel)"
proof (cases "up_cache up")
  case None
  with assms show ?thesis using up_ask_ok [OF _ assms(2)] by (simp add: up_lookup_def)
next
  case (Some ca)
  define ca1 where "ca1 = snd (cache_get (clock 0) key ca)"
  have v1: "cache_vetted c (Some ca1)"
    unfolding ca1_def using assms(2) Some by (intro cache_vetted_get) simp
  show ?thesis
  proof (cases "fst (cache_get (clock 0) key ca)")
    case None
    then have "up_ask c tx ask clock st key recurse (up\<lparr>up_cache := Some ca1\<rparr>) w = (out, up', w')"
      using assms(1) Some by (simp add: up_lookup_def ca1_def case_prod_unfold Let_def)
    from up_ask_ok [OF this] v1 show ?thesis by simp
  next
    case hit: (Some h)
    show ?thesis
    proof (cases h)
      case None
      then show ?thesis
        using assms(1) Some hit v1 by (auto simp: up_lookup_def ca1_def case_prod_unfold Let_def)
    next
      case h: (Some rcd)
      obtain succ ca2 where s: "cached_successor (clock 1) rcd ca1 = (succ, ca2)" by fastforce
      have "chain_ok c key rcd"
        using ca.vetted_hit [of ca "chain_ok c" "clock 0" key rcd] assms(2) Some hit h
        by (simp add: cache_vetted_Some)
      moreover have "out = Inr (Some \<lparr>rl_record = rcd, rl_successor = succ\<rparr>)"
        and "up' = up\<lparr>up_cache := Some ca2\<rparr>"
        using assms(1) Some hit h s by (auto simp: up_lookup_def ca1_def case_prod_unfold Let_def)
      ultimately show ?thesis
        using cached_successor_ok [OF s v1] by (auto simp: relayed_ok_def)
    qed
  qed
qed

text \<open>How a link that answers the same way every time counts.\<close>

definition answers :: "ask_outcome \<Rightarrow> bool" where
  "answers out \<longleftrightarrow> (\<exists>r s. out = Responded (Answer r s))"

definition accepted_by ::
  "'v verifier_scheme \<Rightarrow> u64 \<Rightarrow> store \<Rightarrow> pubkey \<Rightarrow> ask_outcome \<Rightarrow> bool" where
  "accepted_by c now st key out \<longleftrightarrow>
     (\<exists>r s. out = Responded (Answer (Some r) s) \<and> is_ok (accept c now st key r))"

lemma answers_simps [simp]:
  "answers (Responded (Answer r s))" "\<not> answers (AskFailed e)" "\<not> answers TimedOut"
  "\<not> answers (Responded (Published a b))" "\<not> answers (Responded (StatusResp i))"
  "\<not> answers (Responded (Records rs x))" "\<not> answers (Responded (ErrorResp code m))"
  by (simp_all add: answers_def)

lemma accepted_by_simps [simp]:
  "accepted_by c now st key (Responded (Answer (Some r) s)) \<longleftrightarrow> is_ok (accept c now st key r)"
  "\<not> accepted_by c now st key (Responded (Answer None s))"
  "\<not> accepted_by c now st key (AskFailed e)" "\<not> accepted_by c now st key TimedOut"
  "\<not> accepted_by c now st key (Responded (Published a b))"
  "\<not> accepted_by c now st key (Responded (StatusResp i))"
  "\<not> accepted_by c now st key (Responded (Records rs x))"
  "\<not> accepted_by c now st key (Responded (ErrorResp code m))"
  by (simp_all add: accepted_by_def)

lemma up_loop_stateless:
  assumes "\<And>n. clock n = now"
  shows "((\<exists>l \<in> set ls. accepted_by c now st key (f l)) \<longrightarrow>
      (\<exists>rel ca'. up_loop c tx (\<lambda>l q w. (f l, w)) clock st key req ls i errs n ca w = (Inl rel, ca', w))) \<and>
    (\<not> (\<exists>l \<in> set ls. accepted_by c now st key (f l)) \<longrightarrow> (\<exists>errs'. up_loop c tx (\<lambda>l q w. (f l, w)) clock st key req ls i errs n ca w =
           (Inr (errs', n + length (filter (\<lambda>l. answers (f l)) ls)), ca, w)))"
proof (induction ls arbitrary: i errs n)
  case Nil
  show ?case by simp
next
  case (Cons l ls)
  note ih = Cons.IH [of "Suc i"]
  show ?case
  proof (cases "f l")
    case (Responded resp)
    show ?thesis
    proof (cases resp)
      case (Answer r s)
      show ?thesis
      proof (cases r)
        case None
        with Responded Answer ih [of errs "Suc n"] show ?thesis by simp
      next
        case (Some rcd)
        show ?thesis
        proof (cases "accept c now st key rcd")
          case (Inl e)
          with Responded Answer Some assms ih [of "errs @ [link_error tx l (show_error tx e)]" "Suc n"]
          show ?thesis by simp
        next
          case (Inr u)
          with Responded Answer Some assms show ?thesis by (simp add: Let_def)
        qed
      qed
    qed (use Responded ih in simp_all)
  qed (use ih in simp_all)
qed

end
