(* ===== verification/Server.thy ===== *)
theory Server
  imports Snapshot Upstream
begin

text \<open>
  The request handlers and the maintenance loop of \<open>crates/sqnsd/src/server.rs\<close>. A handler maps a
  request and the server's state to a response, the new state, the records to push to the peers
  (the task that \<open>handle_publish\<close> spawns, see theory \<open>Replication\<close>) and the new state of the
  outside world. Accepting connections, the handshake, signals and logging are not modelled.
\<close>

section \<open>Requests\<close>

record 'l server =
  sv_store :: store
  sv_upstream :: "'l upstream"
  sv_peers :: nat
  sv_allow_sync :: bool

text \<open>What a handler reads from its surroundings.\<close>

record ('l, 'w) env =
  en_texts :: "'l texts"
  en_ask :: "'l \<Rightarrow> request \<Rightarrow> 'w \<Rightarrow> ask_outcome \<times> 'w"
  en_clock :: "nat \<Rightarrow> u64"
  en_uptime :: u64
  en_version :: rstring

definition status :: "('l, 'w) env \<Rightarrow> 'l server \<Rightarrow> status_info" where
  "status en sv =
     \<lparr>si_records = of_nat (store_len (sv_store sv)), si_cached = of_nat (up_cached (sv_upstream sv)),
      si_peers = of_nat (sv_peers sv), si_upstreams = of_nat (up_len (sv_upstream sv)),
      si_uptime_secs = en_uptime en, si_version = en_version en\<rparr>"

fun publish_code :: "error \<Rightarrow> error_code" where
  "publish_code (E_Signature _) = EC_BadSignature"
| "publish_code (E_Revoked _ _ _) = EC_Revoked"
| "publish_code (E_Superseded _ _) = EC_Superseded"
| "publish_code (E_Delegation _) = EC_BadDelegation"
| "publish_code _ = EC_Malformed"

definition handle_publish ::
  "'v verifier_scheme \<Rightarrow> ('l, 'w) env \<Rightarrow> signed_record \<Rightarrow> 'l server \<Rightarrow>
   response \<times> 'l server \<times> signed_record list" where
  "handle_publish c en rcd sv =
     (let key = sr_key rcd; serial = rec_serial (sr_record rcd); expires = expires_at (sr_record rcd);
          (out, st) = put c (en_clock en 0) rcd (sv_store sv);
          sv = sv\<lparr>sv_store := st\<rparr>
      in case out of
           Inr Stored \<Rightarrow> (Published serial expires, sv, [rcd])
         | Inr Stale \<Rightarrow> (ErrorResp EC_Stale (stale_message (en_texts en) serial key), sv, [])
         | Inl e \<Rightarrow> (ErrorResp (publish_code e) (show_error (en_texts en) e), sv, []))"

definition handle_lookup ::
  "'v verifier_scheme \<Rightarrow> ('l, 'w) env \<Rightarrow> pubkey \<Rightarrow> byte \<Rightarrow> 'l server \<Rightarrow> 'w \<Rightarrow> response \<times> 'l server \<times> 'w" where
  "handle_lookup c en key recurse sv w =
     (case get (en_clock en 0) key (sv_store sv) of
        Some rcd \<Rightarrow>
          let succ = (case successor (sr_record rcd) of
                        None \<Rightarrow> None
                      | Some nxt \<Rightarrow> get (en_clock en 1) nxt (sv_store sv))
          in (Answer (Some rcd) succ, sv, w)
      | None \<Rightarrow>
          if recurse = 0 \<or> up_is_empty (sv_upstream sv) then (Answer None None, sv, w)
          else
          (case up_lookup c (en_texts en) (en_ask en) (\<lambda>n. en_clock en (n + 2)) (sv_store sv) key
                  (recurse - 1) (sv_upstream sv) w of
             (out, up, w) \<Rightarrow>
               let sv = sv\<lparr>sv_upstream := up\<rparr> in
               (case out of
                  Inr (Some rel) \<Rightarrow> (Answer (Some (rl_record rel)) (rl_successor rel), sv, w)
                | Inr None \<Rightarrow> (Answer None None, sv, w)
                | Inl e \<Rightarrow> (ErrorResp EC_UpstreamFailed (show_error (en_texts en) e), sv, w))))"

definition u16_clamp :: "u16 \<Rightarrow> u16 \<Rightarrow> u16 \<Rightarrow> u16" where
  "u16_clamp x lo hi = (if x < lo then lo else if x > hi then hi else x)"

fun handle ::
  "'v verifier_scheme \<Rightarrow> ('l, 'w) env \<Rightarrow> request \<Rightarrow> 'l server \<Rightarrow> 'w \<Rightarrow>
   response \<times> 'l server \<times> signed_record list \<times> 'w" where
  "handle c en (Lookup key recurse) sv w =
     (let (resp, sv, w) = handle_lookup c en key recurse sv w in (resp, sv, [], w))"
| "handle c en (LookupIdentity identity) sv w =
     (Records (identity_records (en_clock en 0) identity (unat MAX_SYNC_BATCH) (sv_store sv)) True, sv, [], w)"
| "handle c en (Publish rcd) sv w =
     (let (resp, sv, pushes) = handle_publish c en rcd sv in (resp, sv, pushes, w))"
| "handle c en Status sv w = (StatusResp (status en sv), sv, [], w)"
| "handle c en (Sync since_at limit) sv w =
     (if \<not> sv_allow_sync sv
      then (ErrorResp EC_NotAuthorized (lit ''this server does not answer sync requests''), sv, [], w)
      else
      let limit = unat (u16_clamp limit 1 MAX_SYNC_BATCH);
          (records, complete) = since (en_clock en 0) since_at limit (sv_store sv)
      in (Records records complete, sv, [], w))"

text \<open>
  One stream of a connection: the bytes sent back, or \<open>None\<close> when the response cannot be written
  and the stream is dropped.
\<close>

definition serve_stream ::
  "'v verifier_scheme \<Rightarrow> ('l, 'w) env \<Rightarrow> bytes \<Rightarrow> 'l server \<Rightarrow> 'w \<Rightarrow>
   bytes option \<times> 'l server \<times> signed_record list \<times> 'w" where
  "serve_stream c en stream sv w =
     (let (resp, sv, pushes, w) =
        (case request_read_from stream of
           Inr (req, _) \<Rightarrow> handle c en req sv w
         | Inl e \<Rightarrow> (ErrorResp EC_Malformed (show_error (en_texts en) e), sv, [], w))
      in case response_write_to resp of
           Inl _ \<Rightarrow> (None, sv, pushes, w)
         | Inr b \<Rightarrow> (Some b, sv, pushes, w))"

section \<open>Maintenance\<close>

record 'l daemon =
  dm_server :: "'l server"
  dm_fs :: "rstring \<Rightarrow> disk_file"
  dm_persisted_revision :: u64

definition maintenance_start :: "'l server \<Rightarrow> (rstring \<Rightarrow> disk_file) \<Rightarrow> 'l daemon" where
  "maintenance_start sv fs = \<lparr>dm_server = sv, dm_fs = fs, dm_persisted_revision = u64_max\<rparr>"

definition purge_tick :: "u64 \<Rightarrow> u64 \<Rightarrow> 'l daemon \<Rightarrow> 'l daemon" where
  "purge_tick now now' dm =
     (let sv = dm_server dm;
          (removed, st) = purge_expired now (sv_store sv);
          (dropped, up) = up_purge now' (sv_upstream sv)
      in dm\<lparr>dm_server := sv\<lparr>sv_store := st, sv_upstream := up\<rparr>\<rparr>)"

text \<open>\<open>written\<close> says whether \<open>persist\<close> succeeded; when it fails it leaves the file system in a state \<open>failed\<close>.\<close>

definition persist_tick :: "bool \<Rightarrow> (rstring \<Rightarrow> disk_file) \<Rightarrow> 'l daemon \<Rightarrow> 'l daemon" where
  "persist_tick written failed dm =
     (let st = sv_store (dm_server dm) in
      if snapshot_path st = None then dm
      else
      let rev = revision st in
      if rev = dm_persisted_revision dm then dm
      else if written
      then dm\<lparr>dm_fs := persist st (dm_fs dm), dm_persisted_revision := rev\<rparr>
      else dm\<lparr>dm_fs := failed\<rparr>)"

text \<open>The end of \<open>serve\<close>: a final snapshot, written or not as in \<open>persist_tick\<close>.\<close>

definition shutdown :: "bool \<Rightarrow> (rstring \<Rightarrow> disk_file) \<Rightarrow> 'l daemon \<Rightarrow> 'l daemon" where
  "shutdown written failed dm =
     (let st = sv_store (dm_server dm) in
      if snapshot_path st \<noteq> None
      then dm\<lparr>dm_fs := (if written then persist st (dm_fs dm) else failed)\<rparr>
      else dm)"

section \<open>What the handlers keep\<close>

definition server_inv :: "'v verifier_scheme \<Rightarrow> 'l server \<Rightarrow> bool" where
  "server_inv c sv \<longleftrightarrow> store_inv c (sv_store sv) \<and> cache_vetted c (up_cache (sv_upstream sv))"

lemma handle_lookup_store:
  "handle_lookup c en key n sv w = (resp, sv', w') \<Longrightarrow> sv_store sv' = sv_store sv"
  by (auto simp: handle_lookup_def Let_def split: option.splits if_splits prod.splits sum.splits)

lemma handle_lookup_inv:
  assumes "handle_lookup c en key n sv w = (resp, sv', w')" and "server_inv c sv"
  shows "server_inv c sv'"
proof (cases "get (en_clock en 0) key (sv_store sv) \<noteq> None \<or> n = 0 \<or> up_is_empty (sv_upstream sv)")
  case True
  with assms show ?thesis by (auto simp: handle_lookup_def Let_def split: option.splits)
next
  case False
  obtain out up w1 where up: "up_lookup c (en_texts en) (en_ask en) (\<lambda>n. en_clock en (n + 2)) (sv_store sv)
      key (n - 1) (sv_upstream sv) w = (out, up, w1)"
    by (cases "up_lookup c (en_texts en) (en_ask en) (\<lambda>n. en_clock en (n + 2)) (sv_store sv) key (n - 1)
      (sv_upstream sv) w") auto
  have "cache_vetted c (up_cache up)" using up_lookup_ok [OF up] assms(2) by (simp add: server_inv_def)
  moreover have "sv' = sv\<lparr>sv_upstream := up\<rparr>"
    using assms(1) False up by (auto simp: handle_lookup_def Let_def split: option.splits sum.splits)
  ultimately show ?thesis using assms(2) by (simp add: server_inv_def)
qed

lemma handle_publish_inv:
  "handle_publish c en rcd sv = (resp, sv', pushes) \<Longrightarrow> server_inv c sv \<Longrightarrow> server_inv c sv'"
  using put_inv [of c "sv_store sv" "en_clock en 0" rcd]
  by (auto simp: handle_publish_def server_inv_def Let_def split: prod.splits sum.splits put_outcome.splits)

lemma handle_inv:
  assumes "handle c en req sv w = (resp, sv', pushes, w')" and "server_inv c sv"
  shows "server_inv c sv'"
  using assms
  by (cases req)
    (auto simp: Let_def split: prod.splits if_splits dest: handle_lookup_inv handle_publish_inv)

lemma server_inv_put:
  "server_inv c sv \<Longrightarrow> server_inv c (sv\<lparr>sv_store := snd (put c now r (sv_store sv))\<rparr>)"
  by (simp add: server_inv_def put_inv)

end
