(* ===== verification/Server_Props.thy ===== *)
theory Server_Props
  imports Server
begin

text \<open>
  The properties of the server: what it answers, what it stores and pushes, how far a lookup
  travels, what an absent answer means, and when its snapshot is up to date.
\<close>

section \<open>Answers\<close>

text \<open>
  C16. Whatever the upstream servers send, a server whose store and relay cache hold only verified
  records answers a lookup only with a record for the key that was asked whose delegation and
  signature verify; a successor record that travels with it is for the key its tombstone names and
  verifies too. The server's state keeps this property.
\<close>

theorem lookup_answers_verified:
  assumes "server_inv c sv" and "handle c en (Lookup key recurse) sv w = (resp, sv', pushes, w')"
  shows "server_inv c sv' \<and> sv_store sv' = sv_store sv \<and> pushes = [] \<and>
    (\<forall>r s. resp = Answer (Some r) s \<longrightarrow>
       chain_ok c key r \<and>
       (\<forall>x. s = Some x \<longrightarrow> successor (sr_record r) = Some (sr_key x) \<and> chain_ok c (sr_key x) x))"
proof -
  have l: "handle_lookup c en key recurse sv w = (resp, sv', w')" and p: "pushes = []"
    using assms(2) by (auto split: prod.splits)
  have held: "chain_ok c k r" if "get now k (sv_store sv) = Some r" for now k r
    using assms(1) that by (auto simp: get_held server_inv_def store_inv_def record_inv_def chain_ok_def)
  have "chain_ok c key r \<and> (\<forall>x. s = Some x \<longrightarrow> successor (sr_record r) = Some (sr_key x) \<and> chain_ok c (sr_key x) x)"
    if a: "resp = Answer (Some r) s" for r s
  proof (cases "get (en_clock en 0) key (sv_store sv)")
    case (Some rcd)
    then have "r = rcd" and "s = (case successor (sr_record rcd) of None \<Rightarrow> None
        | Some nxt \<Rightarrow> get (en_clock en 1) nxt (sv_store sv))"
      using l a by (auto simp: handle_lookup_def Let_def)
    then show ?thesis using held Some by (fastforce simp: chain_ok_def split: option.splits)
  next
    case None
    obtain out up w1 where up: "up_lookup c (en_texts en) (en_ask en) (\<lambda>n. en_clock en (n + 2)) (sv_store sv)
        key (recurse - 1) (sv_upstream sv) w = (out, up, w1)"
      by (cases "up_lookup c (en_texts en) (en_ask en) (\<lambda>n. en_clock en (n + 2)) (sv_store sv) key (recurse - 1)
        (sv_upstream sv) w") auto
    then obtain rel where "out = Inr (Some rel)" "r = rl_record rel" "s = rl_successor rel"
      using l a None by (auto simp: handle_lookup_def Let_def split: if_splits sum.splits option.splits)
    with up_lookup_ok [OF up] assms(1) show ?thesis by (auto simp: server_inv_def relayed_ok_def)
  qed
  with handle_lookup_inv [OF l assms(1)] handle_lookup_store [OF l] p show ?thesis by blast
qed

text \<open>A server for the witnesses: a store with one record, two upstreams that never answer.\<close>

definition sample_texts :: "nat texts" where
  "sample_texts = \<lparr>show_error = (\<lambda>_. lit ''error''), show_link = (\<lambda>_. lit ''peer''),
     debug_code = (\<lambda>_. lit ''code''), debug_response = (\<lambda>_. lit ''response''),
     stale_message = (\<lambda>_ _. lit ''stale'')\<rparr>"

definition sample_env :: "(nat, (nat \<times> request) list) env" where
  "sample_env = \<lparr>en_texts = sample_texts, en_ask = (\<lambda>l q w. (TimedOut, w @ [(l, q)])),
     en_clock = (\<lambda>_. 1100), en_uptime = 5, en_version = lit ''0.2.0''\<rparr>"

definition sample_server :: "nat server" where
  "sample_server = \<lparr>sv_store = store_live, sv_upstream = upstream_new [0, 1] True, sv_peers = 0,
     sv_allow_sync = True\<rparr>"

lemma sample_server_inv: "server_inv toy_ed25519 sample_server"
  by (simp add: server_inv_def sample_server_def store_inv_samples upstream_new_def cache_vetted_Some)

lemma sample_lookup:
  "handle toy_ed25519 sample_env (Lookup (key_n 2) 4) sample_server [] =
     (Answer (Some (live 1 2 5 1000 300 [v4_endpoint 5300])) None, sample_server, [], [])"
proof -
  have "get 1100 (key_n 2) store_live = Some (live 1 2 5 1000 300 [v4_endpoint 5300])"
    by (simp add: get_held live_expired saturating_add_def)
  moreover have "successor (sr_record (live 1 2 5 1000 300 [v4_endpoint 5300])) = None"
    by (simp add: successor_def)
  ultimately show ?thesis by (simp add: handle_lookup_def sample_server_def sample_env_def)
qed

theorem lookup_answers_verified_witness:
  "chain_ok toy_ed25519 (key_n 2) (live 1 2 5 1000 300 [v4_endpoint 5300])"
  using lookup_answers_verified [OF sample_server_inv sample_lookup] by blast

text \<open>
  C29. Publishing. The server confirms a record and pushes it to its peers exactly when the store
  accepts it; otherwise it answers with an error, pushes nothing and keeps its state. A retired
  key is reported as such, and the confirmation carries the record's own serial and expiry.
\<close>

theorem publish_spec:
  assumes "handle c en (Publish r) sv w = (resp, sv', pushes, w')"
  shows "(if admissible c (en_clock en 0) r \<and> wins r (sv_store sv)
          then resp = Published (rec_serial (sr_record r)) (expires_at (sr_record r)) \<and> pushes = [r] \<and>
               held (sv_store sv') (sr_key r) = Some r
          else (\<exists>code m. resp = ErrorResp code m) \<and> pushes = [] \<and> sv' = sv) \<and>
         sv_upstream sv' = sv_upstream sv \<and> w' = w"
proof (cases rule: put_cases [of c "en_clock en 0" r "sv_store sv"])
  case Stored
  with assms show ?thesis by (auto simp: handle_publish_def Let_def held_put_result)
next
  case Stale
  then have "\<not> (admissible c (en_clock en 0) r \<and> wins r (sv_store sv))"
    using put_stored_iff [of c "en_clock en 0" r "sv_store sv" "put_result r (sv_store sv)"] by auto
  with Stale assms show ?thesis by (auto simp: handle_publish_def Let_def)
next
  case (Rejected e)
  then have "\<not> (admissible c (en_clock en 0) r \<and> wins r (sv_store sv))"
    using put_stored_iff [of c "en_clock en 0" r "sv_store sv" "put_result r (sv_store sv)"] by auto
  with Rejected assms show ?thesis by (auto simp: handle_publish_def Let_def)
qed

theorem publish_spec_witness:
  "\<exists>sv'. handle toy_ed25519 sample_env (Publish (superseded 1 2 6 1010 3)) sample_server [] =
     (Published 6 u64_max, sv', [superseded 1 2 6 1010 3], []) \<and>
     held (sv_store sv') (key_n 2) = Some (superseded 1 2 6 1010 3)"
proof -
  let ?r = "superseded 1 2 6 1010 3"
  obtain resp sv' pushes w' where h: "handle toy_ed25519 sample_env (Publish ?r) sample_server [] =
      (resp, sv', pushes, w')"
    by (cases "handle toy_ed25519 sample_env (Publish ?r) sample_server []") auto
  have "admissible toy_ed25519 (en_clock sample_env 0) ?r \<and> wins ?r (sv_store sample_server)"
    by (simp add: sample_checks sample_env_def sample_server_def wins_def supersedes_iff)
  moreover have "expires_at (sr_record ?r) = u64_max" by (simp add: expires_at_def)
  ultimately show ?thesis using publish_spec [OF h] h by (auto)
qed

section \<open>Hops\<close>

text \<open>
  The outside world as a log of the questions that were asked.
\<close>

lemma up_loop_log:
  assumes "up_loop c tx (\<lambda>l q w. (f l q w, w @ [(l, q)])) clock st key req ls i errs n ca w = (out, ca', w')"
  shows "\<exists>asked. w' = w @ map (\<lambda>l. (l, req)) asked \<and> (\<exists>k. asked = take k ls)"
  using assms
proof (induction ls arbitrary: i errs n w)
  case Nil
  then show ?case by simp
next
  case (Cons l ls)
  show ?case
  proof (cases "accepted_by c (clock (2 + 2 * i)) st key (f l req w)")
    case True
    then have "w' = w @ [(l, req)]"
      using Cons.prems by (auto simp: accepted_by_def is_ok_iff Let_def)
    then show ?thesis by (intro exI [of _ "[l]"]) (auto intro: exI [of _ 1])
  next
    case False
    then obtain errs' n' where
      "up_loop c tx (\<lambda>l q w. (f l q w, w @ [(l, q)])) clock st key req ls (Suc i) errs' n' ca (w @ [(l, req)]) =
         (out, ca', w')"
      using Cons.prems
      by (auto simp: accepted_by_def is_ok_iff split: ask_outcome.splits response.splits option.splits sum.splits)
    from Cons.IH [OF this] obtain asked k where
      "w' = (w @ [(l, req)]) @ map (\<lambda>l. (l, req)) asked" "asked = take k ls" by blast
    then show ?thesis by (intro exI [of _ "l # asked"]) (auto intro: exI [of _ "Suc k"])
  qed
qed

lemma up_ask_log:
  assumes "up_ask c tx (\<lambda>l q w. (f l q w, w @ [(l, q)])) clock st key recurse up w = (out, up', w')"
  shows "\<exists>k. w' = w @ map (\<lambda>l. (l, Lookup key recurse)) (take k (up_links up))"
proof -
  obtain res ca w1 where l: "up_loop c tx (\<lambda>l q w. (f l q w, w @ [(l, q)])) clock st key (Lookup key recurse)
      (up_links up) 0 [] 0 (up_cache up) w = (res, ca, w1)"
    by (cases "up_loop c tx (\<lambda>l q w. (f l q w, w @ [(l, q)])) clock st key (Lookup key recurse)
      (up_links up) 0 [] 0 (up_cache up) w") auto
  with assms have "w' = w1" by (auto simp: up_ask_def Let_def split: sum.splits prod.splits if_splits)
  with up_loop_log [OF l] show ?thesis by auto
qed

lemma up_lookup_log:
  assumes "up_lookup c tx (\<lambda>l q w. (f l q w, w @ [(l, q)])) clock st key recurse up w = (out, up', w')"
  shows "\<exists>k. w' = w @ map (\<lambda>l. (l, Lookup key recurse)) (take k (up_links up))"
proof -
  have "w' = w \<or> (\<exists>up1. up_links up1 = up_links up \<and>
      up_ask c tx (\<lambda>l q w. (f l q w, w @ [(l, q)])) clock st key recurse up1 w = (out, up', w'))"
  proof (cases "up_cache up")
    case None
    with assms show ?thesis by (auto simp: up_lookup_def)
  next
    case (Some ca)
    with assms show ?thesis
      by (auto simp: up_lookup_def Let_def split: prod.splits option.splits
          intro!: exI [of _ "up\<lparr>up_cache := Some _\<rparr>"])
  qed
  then show ?thesis
  proof
    assume "w' = w"
    then show ?thesis by (intro exI [of _ 0]) simp
  next
    assume "\<exists>up1. up_links up1 = up_links up \<and>
      up_ask c tx (\<lambda>l q w. (f l q w, w @ [(l, q)])) clock st key recurse up1 w = (out, up', w')"
    then obtain up1 where links: "up_links up1 = up_links up"
      and ask: "up_ask c tx (\<lambda>l q w. (f l q w, w @ [(l, q)])) clock st key recurse up1 w = (out, up', w')"
      by blast
    from up_ask_log [OF ask] show ?thesis unfolding links .
  qed
qed



section \<open>Absence\<close>

text \<open>
  What the relay says when it finds nothing. For upstreams that each answer in a fixed way
  and an empty relay cache: it relays an answer exactly when some upstream gives an acceptable
  one; it reports an error exactly when there are upstreams and none of them answered at all; in
  every other case, as soon as a single upstream answered, it reports that there is no record.
\<close>

theorem upstream_absence:
  assumes "\<And>n. clock n = now" and "up_cache up = None"
    and "up_lookup c tx (\<lambda>l q w. (f l, w)) clock st key recurse up w = (out, up', w')"
  shows "((\<exists>rel. out = Inr (Some rel)) \<longleftrightarrow> (\<exists>l \<in> set (up_links up). accepted_by c now st key (f l))) \<and>
         ((\<exists>e. out = Inl e) \<longleftrightarrow> up_links up \<noteq> [] \<and> (\<forall>l \<in> set (up_links up). \<not> answers (f l)))"
proof -
  let ?ls = "up_links up" and ?q = "Lookup key recurse"
  have ask: "up_ask c tx (\<lambda>l q w. (f l, w)) clock st key recurse up w = (out, up', w')"
    using assms(2,3) by (simp add: up_lookup_def)
  note loop = up_loop_stateless [where now = now and ls = ?ls and f = f and key = key and st = st and c = c and tx = tx
      and clock = clock and req = ?q and i = 0 and errs = "[]" and n = 0 and ca = "up_cache up" and w = w, OF assms(1)]
  show ?thesis
  proof (cases "\<exists>l \<in> set ?ls. accepted_by c now st key (f l)")
    case True
    then have "\<exists>l \<in> set ?ls. answers (f l)" unfolding accepted_by_def answers_def by blast
    moreover obtain rel ca' where "up_loop c tx (\<lambda>l q w. (f l, w)) clock st key ?q ?ls 0 [] 0 (up_cache up) w =
        (Inl rel, ca', w)"
      using loop True by blast
    ultimately show ?thesis using True ask by (auto simp: up_ask_def Let_def)
  next
    case False
    with loop obtain errs where
      "up_loop c tx (\<lambda>l q w. (f l, w)) clock st key ?q ?ls 0 [] 0 (up_cache up) w =
         (Inr (errs, length (filter (\<lambda>l. answers (f l)) ?ls)), up_cache up, w)" by auto
    then have "out = (if length (filter (\<lambda>l. answers (f l)) ?ls) = length ?ls \<or>
          filter (\<lambda>l. answers (f l)) ?ls \<noteq> [] then Inr None
        else Inl (E_Server (code_as_u16 EC_UpstreamFailed)
          (lit ''no upstream could answer ('' @ join (lit ''; '') errs @ lit '')'')))"
      using ask by (auto simp: up_ask_def Let_def split: if_splits)
    with False show ?thesis by (auto simp: filter_empty_conv)
  qed
qed

theorem upstream_absence_witness:
  "\<exists>up'. up_lookup toy_ed25519 sample_texts
      (\<lambda>l q w. (if l = 0 then TimedOut else Responded (Answer None None), w)) (\<lambda>_. 1100) (store_new None)
      (key_n 2) 3 (upstream_new [0, 1] False) () = (Inr None, up', ())"
proof -
  let ?f = "\<lambda>l :: nat. if l = 0 then TimedOut else Responded (Answer None None)"
  obtain out up' where l: "up_lookup toy_ed25519 sample_texts (\<lambda>l q w. (?f l, w)) (\<lambda>_. 1100) (store_new None)
      (key_n 2) 3 (upstream_new [0, 1] False) () = (out, up', ())"
    by (cases "up_lookup toy_ed25519 sample_texts (\<lambda>l q w. (?f l, w)) (\<lambda>_. 1100) (store_new None)
      (key_n 2) 3 (upstream_new [0, 1] False) ()") auto
  from upstream_absence [OF refl _ l] have "\<not> (\<exists>rel. out = Inr (Some rel))" and "\<not> (\<exists>e. out = Inl e)"
    by (simp_all add: upstream_new_def)
  then have "out = Inr None" by (metis old.sum.exhaust option.exhaust)
  with l show ?thesis by blast
qed

text \<open>
  A refused answer is remembered as absence: when the only upstream answers with a record that
  fails the relay's checks, the relay caches that the key has no record, and for the next
  \<open>NEGATIVE_TTL\<close> seconds it says so without asking anyone.
\<close>

theorem refused_answer_cached_as_absent:
  assumes "up_links up = [l]" and "up_cache up = Some cache_new"
    and "\<And>w. fst (ask l (Lookup key recurse) w) = Responded (Answer (Some r) s)"
    and "\<not> is_ok (accept c (clock 2) st key r)"
    and "up_lookup c tx ask clock st key recurse up w = (out, up', w')"
    and "later < clock 4 + NEGATIVE_TTL"
  shows "out = Inr None \<and>
    fst (up_lookup c tx ask' (\<lambda>_. later) st' key recurse' up' w'') = Inr None \<and>
    snd (snd (up_lookup c tx ask' (\<lambda>_. later) st' key recurse' up' w'')) = w''"
proof -
  obtain e where e: "accept c (clock 2) st key r = Inl e"
    using assms(4) by (cases "accept c (clock 2) st key r") auto
  obtain w1 where w1: "ask l (Lookup key recurse) w = (Responded (Answer (Some r) s), w1)"
    using assms(3) [of w] by (cases "ask l (Lookup key recurse) w") auto
  have get: "cache_get now key cache_new = (None, cache_new)" for now
    by (simp add: cache_get_def cache_new_def)
  have "out = Inr None" and "up' = up\<lparr>up_cache := Some (put_missing (clock 4) key cache_new)\<rparr>"
    using assms(1,2,5) e by (auto simp: up_lookup_def up_ask_def get w1 numeral_eq_Suc)
  moreover have "cache_get later key (put_missing (clock 4) key cache_new) =
      (Some None, put_missing (clock 4) key cache_new)"
    using assms(6) by (simp add: cache_get_def put_missing_def)
  ultimately show ?thesis by (simp add: up_lookup_def)
qed

theorem refused_answer_cached_as_absent_witness:
  "fst (up_lookup toy_ed25519 sample_texts
      (\<lambda>l q w. (Responded (Answer (Some (live 1 3 5 1000 300 [])) None), w)) (\<lambda>_. 1100) (store_new None)
      (key_n 2) 3 (upstream_new [0] True) ()) = Inr None"
proof -
  let ?r = "live 1 3 5 1000 300 []"
  let ?ask = "\<lambda>(l :: nat) (q :: request) (w :: unit). (Responded (Answer (Some ?r) None), w)"
  obtain out up' where l: "up_lookup toy_ed25519 sample_texts ?ask (\<lambda>_. 1100) (store_new None)
      (key_n 2) 3 (upstream_new [0] True) () = (out, up', ())"
    by (cases "up_lookup toy_ed25519 sample_texts ?ask (\<lambda>_. 1100) (store_new None)
      (key_n 2) 3 (upstream_new [0] True) ()") auto
  have "out = Inr None \<and>
    fst (up_lookup toy_ed25519 sample_texts ?ask (\<lambda>_. 1110) (store_new None) (key_n 2) 3 up' ()) = Inr None \<and>
    snd (snd (up_lookup toy_ed25519 sample_texts ?ask (\<lambda>_. 1110) (store_new None) (key_n 2) 3 up' ())) = ()"
  proof (rule refused_answer_cached_as_absent [OF _ _ _ _ l])
    show "\<not> is_ok (accept toy_ed25519 1100 (store_new None) (key_n 2) ?r)"
      by (auto simp: is_ok_iff accept_iff verify_answer_chain chain_ok_def)
  qed (simp_all add: upstream_new_def NEGATIVE_TTL_def)
  with l show ?thesis by simp
qed

section \<open>Snapshots\<close>

text \<open>One step of the daemon's life: a publish or another \<open>put\<close>, a sweep, or a tick of the snapshot writer.\<close>

inductive daemon_step :: "'v verifier_scheme \<Rightarrow> 'l daemon \<Rightarrow> 'l daemon \<Rightarrow> bool" for c where
  daemon_put: "st' = snd (put c now r (sv_store (dm_server dm))) \<Longrightarrow>
     daemon_step c dm (dm\<lparr>dm_server := (dm_server dm)\<lparr>sv_store := st'\<rparr>\<rparr>)"
| daemon_purge: "daemon_step c dm (purge_tick now now' dm)"
| daemon_persist: "daemon_step c dm (persist_tick written failed dm)"

text \<open>The file at the snapshot's path is the snapshot of the store.\<close>

definition snapshot_current :: "'l daemon \<Rightarrow> bool" where
  "snapshot_current dm \<longleftrightarrow>
     (\<forall>p. snapshot_path (sv_store (dm_server dm)) = Some p \<longrightarrow>
        dm_fs dm p = Contents (encode_snapshot (map snd (st_records (sv_store (dm_server dm))))
                        (st_bindings (sv_store (dm_server dm)))))"

definition daemon_inv :: "'l daemon \<Rightarrow> bool" where
  "daemon_inv dm \<longleftrightarrow>
     (dm_persisted_revision dm = u64_max \<or>
      dm_persisted_revision dm \<le> revision (sv_store (dm_server dm))) \<and>
     (dm_persisted_revision dm = revision (sv_store (dm_server dm)) \<longrightarrow> snapshot_current dm)"

lemma revision_put:
  "snd (put c now r st) = st \<or> revision (snd (put c now r st)) = revision st + 1"
  by (cases rule: put_cases [of c now r st]) (auto simp: revision_def put_result_def)

lemma put_path [simp]: "snapshot_path (snd (put c now r st)) = snapshot_path st"
  by (cases rule: put_cases [of c now r st]) (auto simp: snapshot_path_def put_result_def)

lemma revision_purge:
  "snd (purge_expired now st) = st \<or> revision (snd (purge_expired now st)) = revision st + 1"
proof (cases "fst (purge_expired now st) = 0")
  case True
  then have "filter (\<lambda>(_, r). \<not> is_expired (sr_record r) now) (st_records st) = st_records st"
    by (auto simp: purge_count filter_empty_conv intro!: filter_True)
  then show ?thesis by (simp add: purge_expired_def Let_def)
next
  case False
  then show ?thesis by (auto simp: purge_expired_def Let_def revision_def)
qed

lemma daemon_inv_bump:
  assumes "daemon_inv dm" and "unat (revision (sv_store (dm_server dm))) + 2 < 2 ^ 64"
    and "dm_persisted_revision dm' = dm_persisted_revision dm" and "dm_fs dm' = dm_fs dm"
    and "sv_store (dm_server dm') = sv_store (dm_server dm) \<or>
         revision (sv_store (dm_server dm')) = revision (sv_store (dm_server dm)) + 1"
    and "snapshot_path (sv_store (dm_server dm')) = snapshot_path (sv_store (dm_server dm))"
  shows "daemon_inv dm'"
proof (cases "sv_store (dm_server dm') = sv_store (dm_server dm)")
  case True
  with assms show ?thesis by (simp add: daemon_inv_def snapshot_current_def)
next
  case False
  let ?r = "revision (sv_store (dm_server dm))"
  from False assms have r: "revision (sv_store (dm_server dm')) = ?r + 1" by simp
  have u: "unat (?r + 1) = unat ?r + 1" using assms(2) by (simp add: unat_word_ariths)
  then have "?r < ?r + 1" by (simp add: word_less_nat_alt)
  moreover have "unat (?r + 1) \<noteq> unat (u64_max)"
    using assms(2) u unat_max_word [where 'a = 64] by simp
  then have "?r + 1 \<noteq> u64_max" by (rule contrapos_nn) (simp only:)
  ultimately have "?r < ?r + 1" "?r + 1 \<noteq> u64_max" .
  with assms r show ?thesis by (auto simp: daemon_inv_def)
qed

lemma persist_tick_inv:
  assumes "daemon_inv dm" and "snapshot_path (sv_store (dm_server dm)) = Some p"
    and "with_extension p (lit ''tmp'') \<noteq> p"
  shows "daemon_inv (persist_tick written failed dm) \<and>
    (written \<longrightarrow> snapshot_current (persist_tick written failed dm))"
proof -
  have "persist (sv_store (dm_server dm)) fs p =
      Contents (encode_snapshot (map snd (st_records (sv_store (dm_server dm)))) (st_bindings (sv_store (dm_server dm))))"
    for fs
    using assms(2,3) by (simp add: persist_def persist_ops_def snapshot_path_def Let_def)
  then show ?thesis
    using assms by (auto simp: persist_tick_def daemon_inv_def snapshot_current_def Let_def)
qed

lemma daemon_step_inv:
  assumes "daemon_step c dm dm'" and "daemon_inv dm"
    and "unat (revision (sv_store (dm_server dm))) + 2 < 2 ^ 64"
    and "snapshot_path (sv_store (dm_server dm)) = Some p" and "with_extension p (lit ''tmp'') \<noteq> p"
  shows "daemon_inv dm' \<and> snapshot_path (sv_store (dm_server dm')) = Some p \<and>
    unat (revision (sv_store (dm_server dm'))) \<le> unat (revision (sv_store (dm_server dm))) + 1"
  using assms(1)
proof cases
  case (daemon_put st' now r)
  have "daemon_inv dm'"
    by (rule daemon_inv_bump [OF assms(2,3)]) (use revision_put in \<open>auto simp: daemon_put\<close>)
  with revision_put [of c now r "sv_store (dm_server dm)"] assms(3,4) show ?thesis
    by (auto simp: daemon_put unat_word_ariths)
next
  case (daemon_purge now now')
  have path: "snapshot_path (snd (purge_expired now st)) = snapshot_path st" for st
    by (simp add: snapshot_path_def)
  have f: "sv_store (dm_server dm') = snd (purge_expired now (sv_store (dm_server dm)))"
    "dm_persisted_revision dm' = dm_persisted_revision dm" "dm_fs dm' = dm_fs dm"
    by (simp_all add: daemon_purge purge_tick_def Let_def case_prod_unfold)
  have "daemon_inv dm'"
    by (rule daemon_inv_bump [OF assms(2,3)]) (use f path revision_purge in auto)
  with revision_purge [of now "sv_store (dm_server dm)"] assms(3,4) path show ?thesis
    by (auto simp: f unat_word_ariths)
next
  case (daemon_persist written failed)
  with persist_tick_inv [OF assms(2,4,5), of written failed] assms(4) show ?thesis
    by (auto simp: persist_tick_def Let_def)
qed

lemma daemon_run_inv:
  assumes "(daemon_step c ^^ n) dm dm'" and "daemon_inv dm"
    and "unat (revision (sv_store (dm_server dm))) + n + 2 < 2 ^ 64"
    and "snapshot_path (sv_store (dm_server dm)) = Some p" and "with_extension p (lit ''tmp'') \<noteq> p"
  shows "daemon_inv dm' \<and> snapshot_path (sv_store (dm_server dm')) = Some p"
  using assms
proof (induction n arbitrary: dm)
  case 0
  then show ?case by auto
next
  case (Suc n)
  from Suc.prems(1) obtain d where d: "daemon_step c dm d" and run: "(daemon_step c ^^ n) d dm'"
    by (metis relpowp_Suc_D2)
  have "unat (revision (sv_store (dm_server dm))) + 2 < 2 ^ 64" using Suc.prems(3) by simp
  from daemon_step_inv [OF d Suc.prems(2) this Suc.prems(4,5)] Suc.IH [OF run] Suc.prems(3,5)
  show ?case by auto
qed



end
