(* ===== verification/Protocol_Props.thy ===== *)
theory Protocol_Props
  imports Protocol Samples
begin

text \<open>
  The properties of the wire protocol: what one side writes the other reads back, the receiver
  accepts nothing else, hop budgets are bounded on receipt, and which messages fit a frame.
\<close>

lemma request_wire:
  assumes "request_ok q"
  shows "\<exists>b. request_write_to q = Inr b \<and> request_read_from (b @ s) = Inr (clamped q, s)"
proof -
  have "length (request_encode_payload q) \<le> 1048576" using length_request_payload [OF assms] by simp
  then obtain b where b: "request_write_to q = Inr b"
    by (simp add: request_write_to_def write_frame_ok)
  have "request_decode (request_frame_type q) (request_encode_payload q) = Inr (clamped q)"
    using assms by (auto simp: request_decode_iff)
  with b read_write_frame [of _ _ b s] show ?thesis
    by (simp add: request_write_to_def request_read_from_def)
qed

lemma response_wire:
  assumes "response_ok a" and "response_write_to a = Inr b"
  shows "response_read_from (b @ s) = Inr (a, s)"
proof -
  have "response_decode (response_frame_type a) (response_encode_payload a) = Inr a"
    unfolding response_decode_def by (rule rd_full_parses [OF parses_response [OF assms(1)]])
  with assms(2) read_write_frame [of "response_frame_type a" "response_encode_payload a" b s] show ?thesis
    by (simp add: response_write_to_def response_read_from_def)
qed

text \<open>
  Every well-formed request fits a frame, and the receiver reads from the stream exactly that
  request, with the hop budget clamped to \<open>MAX_RECURSE\<close>, leaving the rest of the stream untouched.
\<close>

theorem request_roundtrip:
  assumes "request_ok q"
  shows "\<exists>b. request_write_to q = Inr b \<and> request_read_from (b @ s) = Inr (clamped q, s)"
  using assms by (rule request_wire)

theorem request_roundtrip_witness:
  "\<exists>b. request_write_to (Lookup (key_n 2) 200) = Inr b \<and>
       request_read_from (b @ [7]) = Inr (Lookup (key_n 2) MAX_RECURSE, [7])"
  using request_roundtrip [of "Lookup (key_n 2) 200" "[7]"] by (simp add: min_def MAX_RECURSE_def)

text \<open>
  C25. The server accepts a stream as a request exactly when it starts with a frame of at most
  \<open>MAX_MESSAGE_LEN\<close> payload bytes that is the encoding of a well-formed request; what it then acts
  on is that request with its hop budget clamped, so no caller gets more than \<open>MAX_RECURSE\<close> hops.
\<close>

theorem request_read_sound:
  assumes "request_read_from stream = Inr (q, tail)"
  shows "(\<exists>q'. request_ok q' \<and> q = clamped q' \<and>
            stream = request_frame_type q' # to_be_bytes (of_nat (length (request_encode_payload q')) :: u32) @
              request_encode_payload q' @ tail) \<and>
         (\<forall>key recurse. q = Lookup key recurse \<longrightarrow> recurse \<le> MAX_RECURSE)"
proof -
  obtain t p where f: "read_frame stream = Inr ((t, p), tail)" and "request_decode t p = Inr q"
    using assms by (auto simp: request_read_from_def)
  then obtain q' where q': "request_ok q'" "t = request_frame_type q'" "q = clamped q'"
      "p = request_encode_payload q'"
    by (auto simp: request_decode_iff)
  then have "\<forall>key recurse. q = Lookup key recurse \<longrightarrow> recurse \<le> MAX_RECURSE"
    by (cases q') auto
  with q' read_frame_Inr [OF f] show ?thesis by auto
qed

theorem request_read_sound_witness:
  "\<exists>q'. request_ok q' \<and> Status = clamped q' \<and>
     [3, 0, 0, 0, 0, 9] = request_frame_type q' #
        to_be_bytes (of_nat (length (request_encode_payload q')) :: u32) @ request_encode_payload q' @ [9]"
proof -
  have "request_read_from [3, 0, 0, 0, 0, 9] = Inr (Status, [9])"
    by (simp add: request_read_from_def read_frame_def read_exact_def from_be_bytes_def be_val_def
        MAX_MESSAGE_LEN_def request_decode_def rd_full_def request_decode_from_def frame_types
        rd_return_def rd_finish_def remaining_def reader_new_def)
  from request_read_sound [OF this] show ?thesis by blast
qed

text \<open>
  C26. Every well-formed response that is not a batch of records fits a frame, and any
  well-formed response that was written is read back as it was.
\<close>

theorem response_roundtrip:
  assumes "response_ok a"
  shows "(\<not> is_batch a \<longrightarrow> is_ok (response_write_to a)) \<and>
         (\<forall>b. response_write_to a = Inr b \<longrightarrow> response_read_from (b @ s) = Inr (a, s))"
  using response_wire [OF assms] length_response_payload [OF assms]
  by (auto simp: response_write_to_def write_frame_ok)

theorem response_roundtrip_witness:
  "\<exists>b. response_write_to (Published 5 1300) = Inr b \<and>
       response_read_from (b @ [7]) = Inr (Published 5 1300, [7])"
  using response_roundtrip [of "Published 5 1300" "[7]"] by (auto simp: is_ok_iff)

text \<open>
  Records with 240 endpoints that have names of 255 bytes: each passes \<open>validate\<close> and fits its own
  length prefix.
\<close>

definition big_record :: "byte \<Rightarrow> signed_record" where
  "big_record k = live 1 k 5 1000 300 (replicate 240 (endpoint_new (Name (replicate 255 97)) 5300))"

lemma big_record_ok: "signed_record_ok (big_record k)"
proof -
  have "record_ok (sr_record (big_record k))"
    by (simp add: big_record_def live_def record_ok_def delegation_ok_def endpoint_ok_def endpoint_new_def
        short_string_ok_def utf8_valid_ascii)
  moreover have "length (record_encode (sr_record (big_record k))) \<le> 65535"
    by (simp add: big_record_def record_encode_eq live_def length_concat sum_list_replicate
        endpoint_encode_into_eq endpoint_new_def put_short_string_def delegation_encode_into_eq)
  moreover have "length (sr_signature (big_record k)) = 64" by (simp add: big_record_def live_def)
  ultimately show ?thesis by (simp add: signed_record_ok_def)
qed

lemma length_big_record: "length (sr_encode (big_record k)) > 63000"
  by (simp add: sr_encode_eq big_record_def record_encode_eq live_def length_concat sum_list_replicate
      endpoint_encode_into_eq endpoint_new_def put_short_string_def delegation_encode_into_eq)

lemma length_big_batch: "length (concat (map sr_encode (map big_record ks))) \<ge> 63000 * length ks"
proof (induction ks)
  case (Cons k ks)
  then show ?case using length_big_record [of k] by simp
qed simp

text \<open>
  A batch within the cap of \<open>MAX_SYNC_BATCH\<close> records need not fit a frame: for 17 and more
  different keys with large (but valid and individually encodable) records, writing the response
  fails, although the batch has far fewer than 512 records.
\<close>

theorem batch_may_exceed_frame:
  assumes "17 \<le> length ks" and "length ks \<le> 250" and "1 \<notin> set ks"
  shows "response_ok (Records (map big_record ks) complete) \<and>
         (\<forall>k \<in> set ks. admissible toy_ed25519 1000 (big_record k)) \<and>
         (\<exists>e. response_write_to (Records (map big_record ks) complete) = Inl e)"
proof (intro conjI)
  show "response_ok (Records (map big_record ks) complete)"
    using assms by (auto simp: big_record_ok)
  show "\<forall>k \<in> set ks. admissible toy_ed25519 1000 (big_record k)"
  proof
    fix k assume "k \<in> set ks"
    with assms(3) have "1 \<noteq> k" by auto
    then show "admissible toy_ed25519 1000 (big_record k)" by (simp add: big_record_def sample_checks)
  qed
  have "63000 * 17 \<le> 63000 * length ks" using assms(1) by simp
  then have "length (response_encode_payload (Records (map big_record ks) complete)) > 1048576"
    using length_big_batch [of ks] by (simp add: fold_sr_encode_into)
  then show "\<exists>e. response_write_to (Records (map big_record ks) complete) = Inl e"
    by (simp add: response_write_to_def write_frame_def MAX_MESSAGE_LEN_def del: response_encode_payload.simps)
qed

theorem batch_may_exceed_frame_witness:
  "\<exists>e. response_write_to (Records (map big_record [2,3,4,5,6,7,8,9,10,11,12,13,14,15,16,17,18]) True) = Inl e"
  using batch_may_exceed_frame [of "[2,3,4,5,6,7,8,9,10,11,12,13,14,15,16,17,18]" True] by simp

text \<open>
  The length of an error text is cast to 16 bits without a check: a text of 65536 bytes or more, as the relay can
  make by joining what its upstreams said, is written, but the client cannot read the response.
\<close>

theorem long_error_unreadable:
  assumes "65535 < length message" and "length message \<le> 1000000"
  shows "\<exists>b e. response_write_to (ErrorResp code message) = Inr b \<and> response_read_from b = Inl e"
proof -
  let ?a = "ErrorResp code message" and ?p = "response_encode_payload (ErrorResp code message)"
  have p: "?p = to_be_bytes (code_as_u16 code) @ put_string [] message" by (simp add: put_string_def)
  have "length ?p \<le> 1048576" using assms(2) by (simp add: put_string_def)
  then obtain b where b: "response_write_to ?a = Inr b" by (auto simp: response_write_to_def write_frame_ok)
  have "response_decode RESP_ERROR ?p \<noteq> Inr x" for x
  proof
    assume "response_decode RESP_ERROR ?p = Inr x"
    then obtain r where "response_decode_from RESP_ERROR (reader_new ?p) = Inr (x, r)" and r: "rest r = []"
      unfolding response_decode_def rd_full_def by (auto simp: rd_finish_def remaining_rest split: if_splits)
    then obtain cd m r1 where c: "rd_u16 ''error code'' (reader_new ?p) = Inr (cd, r1)" and m: "rd_string ''error message'' r1 = Inr (m, r)"
      by (auto simp: response_decode_from_def rd_bind_def rd_return_def frame_types split: sum.splits)
    have "?p = to_be_bytes cd @ put_string [] m" and "string_ok m"
      using u16.dec_canonical [OF c] string.dec_canonical [OF m] r by (auto simp: consumed_def)
    then have "length message = length m" unfolding p by (auto simp: put_string_def dest: arg_cong [of _ _ length])
    with \<open>string_ok m\<close> assms(1) show False by (simp add: string_ok_def)
  qed
  then obtain e where "response_decode RESP_ERROR ?p = Inl e" by (cases "response_decode RESP_ERROR ?p") auto
  then have "response_read_from b = Inl e"
    using b read_write_frame [of "response_frame_type ?a" ?p b "[]"] by (simp add: response_write_to_def response_read_from_def)
  with b show ?thesis by blast
qed

end
