(* ===== verification/Replication.thy ===== *)
theory Replication
  imports Store Protocol
begin

text \<open>
  Replication (\<open>crates/sqnsd/src/replication.rs\<close>). A peer is reached through \<open>request\<close>, one
  exchange over its link (\<open>PeerLink::request\<close>), which threads the state \<open>'w\<close> of the outside world.
  The timer that drives \<open>run\<close> is not modelled; a round of it is \<open>pull_all\<close>. Each \<open>put\<close> reads the
  clock; \<open>clock n\<close> is the \<open>n\<close>-th reading.
\<close>

section \<open>The model\<close>

record 'l peer =
  pr_link :: 'l
  pr_watermark :: u64

definition peer_new :: "'l \<Rightarrow> 'l peer" where
  "peer_new link = \<lparr>pr_link = link, pr_watermark = 0\<rparr>"

definition replicator_new :: "'l list \<Rightarrow> 'l peer list" where
  "replicator_new links = map peer_new links"

definition peer_count :: "'l peer list \<Rightarrow> nat" where
  "peer_count peers = length peers"

type_synonym ('l, 'w) requester = "'l \<Rightarrow> request \<Rightarrow> 'w \<Rightarrow> response res \<times> 'w"

text \<open>Every outcome of a push is logged and otherwise ignored.\<close>

fun push :: "('l, 'w) requester \<Rightarrow> signed_record \<Rightarrow> 'l peer list \<Rightarrow> 'w \<Rightarrow> 'w" where
  "push request rcd [] w = w"
| "push request rcd (p # ps) w = push request rcd ps (snd (request (pr_link p) (Publish rcd) w))"

text \<open>The loop over a batch: what was new is counted, refusals are logged.\<close>

fun apply_batch ::
  "'v verifier_scheme \<Rightarrow> (nat \<Rightarrow> u64) \<Rightarrow> nat \<Rightarrow> signed_record list \<Rightarrow> nat \<times> store \<Rightarrow> nat \<times> store" where
  "apply_batch c clock n [] (applied, st) = (applied, st)"
| "apply_batch c clock n (r # rs) (applied, st) =
     (let (out, st) = put c (clock n) r st in
      apply_batch c clock (Suc n) rs
        ((case out of Inr outcome \<Rightarrow> if stored outcome then applied + 1 else applied | Inl _ \<Rightarrow> applied), st))"

definition batch_high :: "u64 \<Rightarrow> signed_record list \<Rightarrow> u64" where
  "batch_high since_at records =
     (case map (\<lambda>r. rec_issued_at (sr_record r)) records of
        [] \<Rightarrow> since_at
      | t # ts \<Rightarrow> fold max ts t)"

lemma cursor_progress: "(a :: u64) < b \<Longrightarrow> 18446744073709551616 - unat b < 18446744073709551616 - unat a"
  using unat_less_pow [of b] by (simp add: word_less_nat_alt)

function pull_loop ::
  "'v verifier_scheme \<Rightarrow> ('l, 'w) requester \<Rightarrow> (nat \<Rightarrow> u64) \<Rightarrow> 'l \<Rightarrow> nat \<Rightarrow> u64 \<Rightarrow> nat \<Rightarrow> u64 \<Rightarrow> store \<Rightarrow> 'w \<Rightarrow>
   nat res \<times> u64 \<times> store \<times> 'w" where
  "pull_loop c request clock link n since_at applied watermark st w =
     (case request link (Sync since_at MAX_SYNC_BATCH) w of
        (Inl e, w) \<Rightarrow> (Inl e, watermark, st, w)
      | (Inr (Records records complete), w) \<Rightarrow>
          let high = batch_high since_at records;
              (applied, st) = apply_batch c clock n records (applied, st);
              watermark = high
          in if complete then (Inr applied, watermark, st, w)
             else if high \<le> since_at then (Inr applied, watermark, st, w)
             else pull_loop c request clock link (n + length records) high applied watermark st w
      | (Inr (ErrorResp code message), w) \<Rightarrow>
          (Inl (into_server_error (ErrorResp code message)), watermark, st, w)
      | (Inr other, w) \<Rightarrow> (Inl (E_Protocol (plain ''unexpected sync response: {other:?}'')), watermark, st, w))"
  by auto
termination
  by (relation "measure (\<lambda>(c, request, clock, link, n, since_at, applied, watermark, st, w). 2 ^ 64 - unat since_at)")
    (auto simp: not_le intro: cursor_progress)

definition pull ::
  "'v verifier_scheme \<Rightarrow> ('l, 'w) requester \<Rightarrow> (nat \<Rightarrow> u64) \<Rightarrow> 'l peer \<Rightarrow> store \<Rightarrow> 'w \<Rightarrow>
   nat res \<times> 'l peer \<times> store \<times> 'w" where
  "pull c request clock p st w =
     (let (out, watermark, st, w) =
        pull_loop c request clock (pr_link p) 0 (pr_watermark p) 0 (pr_watermark p) st w
      in (out, p\<lparr>pr_watermark := watermark\<rparr>, st, w))"

text \<open>One round of \<open>run\<close>: every peer in turn, errors logged.\<close>

fun pull_all ::
  "'v verifier_scheme \<Rightarrow> ('l, 'w) requester \<Rightarrow> (nat \<Rightarrow> nat \<Rightarrow> u64) \<Rightarrow> nat \<Rightarrow> 'l peer list \<Rightarrow> store \<Rightarrow> 'w \<Rightarrow>
   'l peer list \<times> store \<times> 'w" where
  "pull_all c request clock i [] st w = ([], st, w)"
| "pull_all c request clock i (p # ps) st w =
     (let (_, p, st, w) = pull c request (clock i) p st w;
          (ps, st, w) = pull_all c request clock (Suc i) ps st w
      in (p # ps, st, w))"

declare pull_loop.simps [simp del]

section \<open>A batch is a sequence of puts\<close>

lemma apply_batch_feed:
  "snd (apply_batch c clock n rs (a, st)) =
     feed c (zip (map clock [n..<n + length rs]) rs) st"
proof (induction rs arbitrary: n a st)
  case (Cons r rs)
  obtain out st' where p: "put c (clock n) r st = (out, st')" by fastforce
  have "[n..<n + length (r # rs)] = n # [Suc n..<Suc n + length rs]" by (simp add: upt_rec)
  then show ?case using Cons.IH [of "Suc n" _ st'] by (simp add: p del: upt_Suc)
qed simp

lemma fold_max_ge: "(t :: u64) \<le> fold max ts t \<and> (\<forall>x \<in> set ts. x \<le> fold max ts t)"
proof (induction ts arbitrary: t)
  case (Cons a ts)
  from Cons.IH [of "max a t"] show ?case by auto
qed simp

lemma fold_max_in: "fold max ts (t :: u64) \<in> insert t (set ts)"
proof (induction ts arbitrary: t)
  case (Cons a ts)
  from Cons.IH [of "max a t"] show ?case by (auto simp: max_def split: if_splits)
qed simp

lemma batch_high_ge: "r \<in> set rs \<Longrightarrow> rec_issued_at (sr_record r) \<le> batch_high s rs"
  using fold_max_ge by (cases rs) (auto simp: batch_high_def)

lemma batch_high_in:
  "rs \<noteq> [] \<Longrightarrow> \<exists>r \<in> set rs. batch_high s rs = rec_issued_at (sr_record r)"
  using fold_max_in [of "map (\<lambda>r. rec_issued_at (sr_record r)) (tl rs)" "rec_issued_at (sr_record (hd rs))"]
  by (cases rs) (auto simp: batch_high_def)

text \<open>The ways a step of the loop goes on.\<close>

lemma pull_loop_cases:
  assumes "pull_loop c request clock l n s a wm st w = (out, wm', st', w')"
  obtains (stop) e w1 where "st' = st" "wm' = wm" "out = Inl e" "w' = w1"
      "snd (request l (Sync s MAX_SYNC_BATCH) w) = w1"
      "\<not> (\<exists>rs x. fst (request l (Sync s MAX_SYNC_BATCH) w) = Inr (Records rs x))"
  | (last) rs x w1 where "request l (Sync s MAX_SYNC_BATCH) w = (Inr (Records rs x), w1)"
      "x \<or> batch_high s rs \<le> s" "out = Inr (fst (apply_batch c clock n rs (a, st)))" "wm' = batch_high s rs"
      "st' = snd (apply_batch c clock n rs (a, st))" "w' = w1"
  | (more) rs w1 where "request l (Sync s MAX_SYNC_BATCH) w = (Inr (Records rs False), w1)"
      "s < batch_high s rs"
      "pull_loop c request clock l (n + length rs) (batch_high s rs) (fst (apply_batch c clock n rs (a, st)))
         (batch_high s rs) (snd (apply_batch c clock n rs (a, st))) w1 = (out, wm', st', w')"
proof -
  obtain m w1 where q: "request l (Sync s MAX_SYNC_BATCH) w = (m, w1)" by fastforce
  show ?thesis
  proof (cases "\<exists>rs x. m = Inr (Records rs x)")
    case True
    then obtain rs x where m: "m = Inr (Records rs x)" by blast
    show ?thesis
    proof (cases "x \<or> batch_high s rs \<le> s")
      case True
      then show ?thesis
        using assms q m that(2) by (simp add: pull_loop.simps [of c request clock l n s a wm] Let_def case_prod_unfold split: if_splits)
    next
      case False
      then show ?thesis
        using assms q m that(3)
        by (simp add: pull_loop.simps [of c request clock l n s a wm] Let_def case_prod_unfold not_le split: if_splits)
    qed
  next
    case False
    then show ?thesis
      using assms q that(1)
      by (auto simp: pull_loop.simps [of c request clock l n s a wm] split: sum.splits response.splits)
  qed
qed

text \<open>
  Whatever a peer answers, the store changes only by \<open>put\<close>s of records it answered with, which
  satisfy every \<open>P\<close> that all of its answers satisfy.
\<close>

definition batches :: "(signed_record \<Rightarrow> bool) \<Rightarrow> ('l, 'w) requester \<Rightarrow> bool" where
  "batches P request \<longleftrightarrow>
     (\<forall>l q w rs x w'. request l q w = (Inr (Records rs x), w') \<longrightarrow> (\<forall>r \<in> set rs. P r))"

lemma batchesD: "batches P request \<Longrightarrow> request l q w = (Inr (Records rs x), w') \<Longrightarrow> \<forall>r \<in> set rs. P r"
  unfolding batches_def by blast

lemma pull_loop_feed_all:
  "pull_loop c request clock l n s a wm st w = (out, wm', st', w') \<Longrightarrow>
   batches P request \<Longrightarrow>
   \<exists>xs. st' = feed c xs st \<and> (\<forall>r \<in> snd ` set xs. P r)"
proof (induction "2 ^ 64 - unat s" arbitrary: n s a wm st w rule: less_induct)
  case less
  have batch: "\<forall>r \<in> snd ` set (zip (map clock [n..<n + length rs]) rs). P r" if "\<forall>r \<in> set rs. P r" for rs
    using that by (auto dest: set_zip_rightD)
  show ?case
    using less.prems(1)
  proof (cases rule: pull_loop_cases)
    case (stop e w1)
    then show ?thesis by (intro exI [of _ "[]"]) simp
  next
    case (last rs x w1)
    with batch [of rs] batchesD [OF less.prems(2) last(1)] show ?thesis by (auto simp: apply_batch_feed)
  next
    case (more rs w1)
    have "2 ^ 64 - unat (batch_high s rs) < 2 ^ 64 - unat s"
      using cursor_progress [OF more(2)] by simp
    from less.hyps [OF this more(3) less.prems(2)] obtain xs where
      xs: "st' = feed c xs (snd (apply_batch c clock n rs (a, st)))"
      "\<forall>r \<in> snd ` set xs. P r" by blast
    with batch [of rs] batchesD [OF less.prems(2) more(1)] show ?thesis
      unfolding apply_batch_feed
      by (intro exI [of _ "zip (map clock [n..<n + length rs]) rs @ xs"]) (auto simp: image_Un)
  qed
qed

lemma pull_loop_feed:
  assumes "pull_loop c request clock l n s a wm st w = (out, wm', st', w')"
  shows "\<exists>xs. st' = feed c xs st"
  using pull_loop_feed_all [OF assms, of "\<lambda>_. True"] by (auto simp: batches_def)

lemma pull_feed_all:
  assumes "pull c request clock p st w = (out, p', st', w')"
    and "batches P request"
  shows "\<exists>xs. st' = feed c xs st \<and> (\<forall>r \<in> snd ` set xs. P r)"
proof -
  obtain wm where "pull_loop c request clock (pr_link p) 0 (pr_watermark p) 0 (pr_watermark p) st w = (out, wm, st', w')"
    using assms(1) by (auto simp: pull_def Let_def split: prod.splits)
  from pull_loop_feed_all [OF this, of P] assms(2) show ?thesis by blast
qed

lemma pull_feed:
  assumes "pull c request clock p st w = (out, p', st', w')"
  shows "\<exists>xs. st' = feed c xs st"
  using pull_feed_all [OF assms, of "\<lambda>_. True"] by (auto simp: batches_def)

lemma pull_all_feed:
  "pull_all c request clock i ps st w = (ps', st', w') \<Longrightarrow>
   batches P request \<Longrightarrow>
   \<exists>xs. st' = feed c xs st \<and> (\<forall>r \<in> snd ` set xs. P r)"
proof (induction ps arbitrary: i st w ps' st')
  case Nil
  then show ?case by (intro exI [of _ "[]"]) simp
next
  case (Cons p ps)
  obtain out p1 st1 w1 where p: "pull c request (clock i) p st w = (out, p1, st1, w1)"
    by (cases "pull c request (clock i) p st w") auto
  obtain ps1 where r: "pull_all c request clock (Suc i) ps st1 w1 = (ps1, st', w')"
    using Cons.prems(1) p by (auto split: prod.splits)
  from pull_feed_all [OF p, of P] Cons.prems(2) obtain xs
    where xs: "st1 = feed c xs st" "\<forall>r \<in> snd ` set xs. P r" by blast
  from Cons.IH [OF r Cons.prems(2)] obtain ys
    where "st' = feed c ys st1" "\<forall>r \<in> snd ` set ys. P r" by blast
  with xs show ?case by (intro exI [of _ "xs @ ys"]) (auto simp: image_Un)
qed

section \<open>What a store covers\<close>

text \<open>A store has nothing to gain from a record: it holds one at least as good, or knows the key under another identity.\<close>

definition covers :: "store \<Rightarrow> signed_record \<Rightarrow> bool" where
  "covers st r \<longleftrightarrow>
     (\<exists>i. bound st (sr_key r) = Some i \<and> i \<noteq> sr_identity r) \<or>
     (\<exists>t. held st (sr_key r) = Some t \<and> \<not> supersedes (sr_record r) (sr_record t))"

lemma covers_put:
  assumes "admissible c now r"
  shows "covers (snd (put c now r st)) r"
proof (cases rule: put_cases [of c now r st])
  case Stored
  then show ?thesis by (simp add: covers_def held_put_result supersedes_irrefl)
next
  case Stale
  then have "\<not> wins r st" using put_stored_iff [of c now r st "put_result r st"] assms by auto
  with Stale show ?thesis by (auto simp: covers_def wins_def supersedes_iff)
next
  case (Rejected e)
  then have "\<not> wins r st" using put_stored_iff [of c now r st "put_result r st"] assms by auto
  with Rejected show ?thesis by (auto simp: covers_def wins_def supersedes_iff)
qed

lemma covers_keeps: "covers st r \<Longrightarrow> covers (snd (put c now x st)) r"
  unfolding covers_def
  using put_bound [of st "sr_key r" _ c now x] put_progress [of st "sr_key r" _ c now x] supersedes_trans
  by blast

lemma covers_feed:
  "covers st r \<Longrightarrow> covers (feed c xs st) r"
  by (induction xs arbitrary: st) (auto intro: covers_keeps)

lemma covers_batch:
  "r \<in> set rs \<Longrightarrow> (\<And>m. admissible c (clock m) r) \<Longrightarrow> covers (snd (apply_batch c clock n rs (a, st))) r"
proof (induction rs arbitrary: n a st)
  case (Cons x rs)
  obtain out st' where p: "put c (clock n) x st = (out, st')" by fastforce
  show ?case
  proof (cases "x = r")
    case True
    then have "covers st' r" using covers_put [OF Cons.prems(2) [of n], of st] p by simp
    then show ?thesis using apply_batch_feed [of c clock "Suc n" rs] by (simp add: p covers_feed)
  next
    case False
    with Cons show ?thesis by (simp add: p)
  qed
qed simp

end
