(* ===== verification/Replication_Props.thy ===== *)
theory Replication_Props
  imports Replication Samples
begin

text \<open>
  The properties of replication: no peer can harm the store, a pull ends, a pull from an honest
  peer catches up, and the two cases in which records are left behind.
\<close>

section \<open>Any peer\<close>

text \<open>
  C17. Replication needs no trust between servers: whatever a peer answers, a pull keeps the store
  invariant (so only verified records get in), loses no retirement and no binding, and replaces
  records only by ones that supersede them.
\<close>

theorem pull_is_safe:
  assumes "store_inv c st" and "pull c request clock p st w = (out, p', st', w')"
  shows "store_inv c st' \<and>
    (\<forall>k t. held st k = Some t \<and> is_terminal (sr_record t) \<longrightarrow> held st' k = Some t) \<and>
    (\<forall>k i. identity_of k st = Some i \<longrightarrow> identity_of k st' = Some i) \<and>
    (\<forall>k t. held st k = Some t \<longrightarrow>
       (\<exists>t'. held st' k = Some t' \<and> (t' = t \<or> supersedes (sr_record t') (sr_record t))))"
proof -
  obtain xs where xs: "st' = feed c xs st"
    using pull_feed [OF assms(2)] by blast
  show ?thesis
    unfolding xs identity_of_def
    using st.feed_inv [OF assms(1)] st.feed_terminal [where s = st] st.feed_bound [where s = st]
      st.feed_forward [where s = st] by blast
qed

text \<open>A peer that serves two records and then hangs up, for the witnesses.\<close>

definition sample_requester :: "(nat, unit) requester" where
  "sample_requester l q w =
     (case q of
        Sync s n \<Rightarrow> if s = 0 then (Inr (Records [live 1 2 5 1000 300 [], live 1 3 9 1000 300 []] False), w)
                    else (Inl (E_Connection (plain ''closed'')), w)
      | _ \<Rightarrow> (Inl (E_Connection (plain ''closed'')), w))"

theorem pull_is_safe_witness:
  "\<exists>out p' st'. pull toy_ed25519 sample_requester (\<lambda>_. 1100) (peer_new 0) (store_new None) () = (out, p', st', ()) \<and>
     store_inv toy_ed25519 st'"
proof -
  obtain out p' st' where "pull toy_ed25519 sample_requester (\<lambda>_. 1100) (peer_new 0) (store_new None) () = (out, p', st', ())"
    by (cases "pull toy_ed25519 sample_requester (\<lambda>_. 1100) (peer_new 0) (store_new None) ()") auto
  with pull_is_safe [OF store_inv_new this] show ?thesis by blast
qed

lemma pull_loop_log:
  "pull_loop c (\<lambda>l q w. (f l q w, w @ [q])) clock l n s a wm st w = (out, wm', st', w') \<Longrightarrow>
   \<exists>ss. w' = w @ map (\<lambda>s. Sync s MAX_SYNC_BATCH) (s # ss) \<and> sorted_wrt (<) (s # ss)"
proof (induction "2 ^ 64 - unat s" arbitrary: n s a wm st w rule: less_induct)
  case less
  show ?case
    using less.prems
  proof (cases rule: pull_loop_cases)
    case (stop e w1)
    then show ?thesis by (intro exI [of _ "[]"]) simp
  next
    case (last rs x w1)
    then show ?thesis by (intro exI [of _ "[]"]) simp
  next
    case (more rs w1)
    have d: "2 ^ 64 - unat (batch_high s rs) < 2 ^ 64 - unat s" using cursor_progress [OF more(2)] by simp
    from less.hyps [OF d more(3)] obtain ss where
      w': "w' = w1 @ map (\<lambda>s. Sync s MAX_SYNC_BATCH) (batch_high s rs # ss)"
      and ss: "sorted_wrt (<) (batch_high s rs # ss)" by blast
    have "w1 = w @ [Sync s MAX_SYNC_BATCH]" using more(1) by simp
    moreover have "sorted_wrt (<) (s # batch_high s rs # ss)" using ss more(2) by auto
    ultimately show ?thesis using w' by (intro exI [of _ "batch_high s rs # ss"]) simp
  qed
qed

text \<open>
  C30. A pull ends, whatever the peer answers: it asks with cursors that strictly increase, the
  first being the watermark, so there are at most as many questions as there are seconds above it.
\<close>

theorem pull_terminates:
  assumes "pull c (\<lambda>l q w. (f l q w, w @ [q])) clock p st [] = (out, p', st', asked)"
  shows "\<exists>cursors. asked = map (\<lambda>s. Sync s MAX_SYNC_BATCH) (pr_watermark p # cursors) \<and>
           sorted_wrt (<) (pr_watermark p # cursors) \<and>
           length asked \<le> 2 ^ 64 - unat (pr_watermark p)"
proof -
  let ?s = "pr_watermark p"
  obtain wm where "pull_loop c (\<lambda>l q w. (f l q w, w @ [q])) clock (pr_link p) 0 ?s 0 ?s st [] = (out, wm, st', asked)"
    using assms by (auto simp: pull_def Let_def split: prod.splits)
  from pull_loop_log [OF this] obtain ss where a: "asked = map (\<lambda>s. Sync s MAX_SYNC_BATCH) (?s # ss)"
    and ss: "sorted_wrt (<) (?s # ss)" by auto
  have "sorted_wrt (<) (map unat (?s # ss))"
    using ss by (simp add: sorted_wrt_map word_less_nat_alt [symmetric])
  then have "distinct (map unat (?s # ss))" by (simp only: strict_sorted_iff)
  moreover have "set (map unat (?s # ss)) \<subseteq> {unat ?s..<2 ^ 64}"
    using ss unat_less_pow [where 'a = 64] by (force simp: word_less_nat_alt)
  ultimately have "length (?s # ss) \<le> 2 ^ 64 - unat ?s"
    using card_mono [of "{unat ?s..<2 ^ 64}" "set (map unat (?s # ss))"]
    by (metis card_atLeastLessThan distinct_card finite_atLeastLessThan length_map)
  with a ss show ?thesis by auto
qed

theorem pull_terminates_witness:
  "\<exists>out p' st' asked.
     pull toy_ed25519 (\<lambda>l q w. (Inr (Records [live 1 2 5 1000 300 []] False), w @ [q])) (\<lambda>_. 1100)
       (peer_new (0 :: nat)) (store_new None) [] = (out, p', st', asked) \<and> length asked \<le> 2 ^ 64"
proof -
  obtain out p' st' asked where "pull toy_ed25519 (\<lambda>l q w. (Inr (Records [live 1 2 5 1000 300 []] False), w @ [q]))
      (\<lambda>_. 1100) (peer_new (0 :: nat)) (store_new None) [] = (out, p', st', asked)"
    by (cases "pull toy_ed25519 (\<lambda>l q w. (Inr (Records [live 1 2 5 1000 300 []] False), w @ [q]))
      (\<lambda>_. 1100) (peer_new (0 :: nat)) (store_new None) []") auto
  with pull_terminates [OF this] show ?thesis by (auto simp: peer_new_def)
qed

section \<open>An honest peer\<close>

text \<open>A peer that answers every sync request from its own store, as \<open>Server::handle\<close> does.\<close>

definition honest :: "u64 \<Rightarrow> store \<Rightarrow> ('l, 'w) requester" where
  "honest now stp l q w =
     (case q of
        Sync s limit \<Rightarrow> (let (records, complete) = since now s (unat limit) stp in (Inr (Records records complete), w))
      | _ \<Rightarrow> (Inl (E_Protocol (plain ''not a sync request'')), w))"

lemma honest_sync:
  "honest now stp l (Sync s MAX_SYNC_BATCH) w =
     (Inr (Records (take 512 (sync_list now s stp)) (length (sync_list now s stp) \<le> 512)), w)"
  by (simp add: honest_def since_eq MAX_SYNC_BATCH_def)

lemma sorted_map_fst: "sorted (ps :: (u64 \<times> pubkey) list) \<Longrightarrow> sorted (map fst ps)"
  by (induction ps) (auto simp: less_eq_prod_def)

lemma sorted_issued: "sorted (map (\<lambda>r. rec_issued_at (sr_record r)) (sync_list now s stp))"
proof -
  have "sorted (map fst (map sync_key (sync_list now s stp)))"
    by (rule sorted_map_fst) (rule sorted_sync_list)
  then show ?thesis by (simp add: comp_def sync_key_def)
qed

text \<open>Fewer than a batch of records carry one issue time, so a full batch moves the cursor.\<close>

definition spread :: "u64 \<Rightarrow> store \<Rightarrow> bool" where
  "spread now stp \<longleftrightarrow>
     (\<forall>t. length (filter (\<lambda>r. rec_issued_at (sr_record r) = t) (sync_list now 0 stp)) < 512)"

lemma sync_list_filter:
  "sync_list now s stp = filter (\<lambda>r. s \<le> rec_issued_at (sr_record r)) (sync_list now 0 stp)"
proof -
  have "filter (\<lambda>r. s \<le> rec_issued_at (sr_record r)) (sort_key sync_key xs) =
      sort_key sync_key (filter (\<lambda>r. s \<le> rec_issued_at (sr_record r)) xs)" for xs
    by (rule filter_sort)
  then show ?thesis
    by (simp add: sync_list_def sync_eligible_def [abs_def] conj_commute)
qed

lemma batch_moves_cursor:
  assumes "spread now stp" and "length (sync_list now s stp) > 512"
  shows "s < batch_high s (take 512 (sync_list now s stp))"
proof (rule ccontr)
  let ?b = "take 512 (sync_list now s stp)"
  assume "\<not> ?thesis"
  then have "\<forall>r \<in> set ?b. rec_issued_at (sr_record r) \<le> s"
    using batch_high_ge [of _ ?b s] by fastforce
  moreover have "\<forall>r \<in> set ?b. s \<le> rec_issued_at (sr_record r)"
    by (subst sync_list_filter) (auto dest: in_set_takeD)
  ultimately have eq: "\<forall>r \<in> set ?b. rec_issued_at (sr_record r) = s" by force
  have "length ?b = length (filter (\<lambda>r. rec_issued_at (sr_record r) = s) ?b)"
    using eq by simp
  also have "\<dots> \<le> length (filter (\<lambda>r. rec_issued_at (sr_record r) = s) (sync_list now s stp))"
    by (metis append_take_drop_id filter_append le_add1 length_append)
  also have "\<dots> \<le> length (filter (\<lambda>r. rec_issued_at (sr_record r) = s) (sync_list now 0 stp))"
  proof -
    have "filter (\<lambda>r. rec_issued_at (sr_record r) = s) (sync_list now s stp) =
        filter (\<lambda>r. rec_issued_at (sr_record r) = s) (sync_list now 0 stp)"
      by (subst sync_list_filter) (auto simp: filter_filter intro: filter_cong)
    then show ?thesis by simp
  qed
  finally show False using assms by (simp add: spread_def) (metis leD)
qed

lemma beyond_batch:
  assumes "r \<in> set (sync_list now s stp)" and "r \<notin> set (take 512 (sync_list now s stp))"
    and "length (sync_list now s stp) > 512"
  shows "r \<in> set (sync_list now (batch_high s (take 512 (sync_list now s stp))) stp)"
proof -
  let ?l = "sync_list now s stp" and ?b = "take 512 (sync_list now s stp)"
  have r: "r \<in> set (drop 512 ?l)" using assms(1,2) by (metis UnE append_take_drop_id set_append)
  have "?b \<noteq> []" using assms(3) by auto
  then obtain x where x: "x \<in> set ?b" "batch_high s ?b = rec_issued_at (sr_record x)"
    using batch_high_in [of ?b s] by blast
  have "sorted (map (\<lambda>r. rec_issued_at (sr_record r)) (?b @ drop 512 ?l))"
    using sorted_issued [of now s stp] by simp
  then have "batch_high s ?b \<le> rec_issued_at (sr_record r)"
    using x r unfolding map_append sorted_append by (auto simp del: append_take_drop_id)
  moreover have "r \<in> set (sync_list now 0 stp)"
    using assms(1) by (subst (asm) sync_list_filter) simp
  ultimately show ?thesis by (subst sync_list_filter) simp
qed

lemma pull_loop_covers:
  assumes "spread now stp" and "\<And>r m. r \<in> set (sync_list now 0 stp) \<Longrightarrow> admissible c (clock m) r"
  shows "pull_loop c (honest now stp) clock l n s a wm st w = (out, wm', st', w') \<Longrightarrow>
    (\<exists>k. out = Inr k) \<and> (\<forall>r \<in> set (sync_list now s stp). covers st' r)"
proof (induction "2 ^ 64 - unat s" arbitrary: n s a wm st w rule: less_induct)
  case less
  have adm: "admissible c (clock m) r" if "r \<in> set (sync_list now s stp)" for r m
    using that assms(2) by (subst (asm) sync_list_filter) simp
  show ?case
    using less.prems
  proof (cases rule: pull_loop_cases)
    case (stop e w1)
    then show ?thesis by (simp add: honest_sync)
  next
    case (last rs x w1)
    then have rs: "rs = take 512 (sync_list now s stp)" and x: "x \<longleftrightarrow> length (sync_list now s stp) \<le> 512"
      by (simp_all add: honest_sync)
    have "length (sync_list now s stp) \<le> 512"
      using last(2) x batch_moves_cursor [OF assms(1), of s] unfolding rs by (meson leD not_le)
    then have "rs = sync_list now s stp" by (simp add: rs)
    then show ?thesis using last adm by (auto intro: covers_batch)
  next
    case (more rs w1)
    then have rs: "rs = take 512 (sync_list now s stp)" and long: "length (sync_list now s stp) > 512"
      by (auto simp: honest_sync)
    have d: "2 ^ 64 - unat (batch_high s rs) < 2 ^ 64 - unat s" using cursor_progress [OF more(2)] by simp
    note ih = less.hyps [OF d more(3)]
    have "covers st' r" if r: "r \<in> set (sync_list now s stp)" for r
    proof (cases "r \<in> set rs")
      case True
      then have "covers (snd (apply_batch c clock n rs (a, st))) r"
        using adm [OF r] by (intro covers_batch)
      moreover obtain xs where
        "st' = feed c xs (snd (apply_batch c clock n rs (a, st)))"
        using pull_loop_feed [OF more(3)] by blast
      ultimately show ?thesis by (simp add: covers_feed)
    next
      case False
      then show ?thesis using ih beyond_batch [OF r _ long] by (simp add: rs)
    qed
    with ih show ?thesis by blast
  qed
qed


lemma store_live_records: "st_records store_live = [(key_n 2, live 1 2 5 1000 300 [v4_endpoint 5300])]"
proof -
  have "st_records (put_result r (store_new None)) = [(sr_key r, r)]" for r
    by (simp add: put_result_def) (simp add: store_new_def)
  then show ?thesis unfolding store_live_eq by simp
qed


section \<open>Two servers\<close>

text \<open>What a sequence of \<open>put\<close>s can bring into a store.\<close>

lemma put_held: "held (snd (put c now x st)) k = Some r \<Longrightarrow> held st k = Some r \<or> r = x \<and> sr_key x = k"
  by (cases rule: put_cases [of c now x st]) (auto simp: held_put_result split: if_splits)

lemma put_bound_from: "bound (snd (put c now x st)) k = Some i \<Longrightarrow> bound st k = Some i \<or> sr_identity x = i \<and> sr_key x = k"
  by (cases rule: put_cases [of c now x st]) (auto simp: bound_put_result split: if_splits)

lemma feed_held_from:
  "held (feed c xs st) k = Some r \<Longrightarrow>
   held st k = Some r \<or> r \<in> snd ` set xs \<and> sr_key r = k"
proof (induction xs arbitrary: st)
  case (Cons x xs)
  then show ?case using put_held [of c "fst x" "snd x" st k r] by (cases x) fastforce
qed simp

lemma feed_bound_from:
  "bound (feed c xs st) k = Some i \<Longrightarrow>
   bound st k = Some i \<or> (\<exists>r \<in> snd ` set xs. sr_key r = k \<and> sr_identity r = i)"
proof (induction xs arbitrary: st)
  case (Cons x xs)
  then show ?case using put_bound_from [of c "fst x" "snd x" st k i] by (cases x) fastforce
qed simp

text \<open>A pull from an honest peer, as a sequence of \<open>put\<close>s of the peer's records.\<close>

lemma pull_honest:
  assumes "pull c (honest now stp) clock (peer_new l) st w = (out, p', st', w')"
    and "spread now stp" and "store_inv c stp"
    and "\<And>k r m. held stp k = Some r \<Longrightarrow> \<not> is_expired (sr_record r) now \<and> admissible c (clock m) r"
  obtains n xs where "out = Inr n" and "st' = feed c xs st"
    and "\<And>r. r \<in> snd ` set xs \<Longrightarrow> held stp (sr_key r) = Some r"
    and "\<And>k r. held stp k = Some r \<Longrightarrow> covers st' r"
proof -
  have wf: "hm_wf (st_records stp)" and key: "\<And>k r. held stp k = Some r \<Longrightarrow> sr_key r = k"
    using assms(3) by (auto simp: store_inv_def record_inv_def)
  have mem: "r \<in> set (sync_list now s stp) \<Longrightarrow> held stp (sr_key r) = Some r" for r s
    using key by (fastforce simp: set_sync_list [OF wf] sync_eligible_def)
  have all: "held stp k = Some r \<Longrightarrow> r \<in> set (sync_list now 0 stp)" for k r
    using assms(4) by (auto simp: set_sync_list [OF wf] sync_eligible_def)
  have "batches (\<lambda>r. held stp (sr_key r) = Some r) (honest now stp :: ('a, 'b) requester)"
    unfolding batches_def
    by (auto simp: honest_def since_eq split: request.splits dest!: in_set_takeD mem)
  from pull_feed_all [OF assms(1) this] obtain xs
    where xs: "st' = feed c xs st" "\<forall>r \<in> snd ` set xs. held stp (sr_key r) = Some r" by blast
  obtain wm where "pull_loop c (honest now stp) clock l 0 0 0 0 st w = (out, wm, st', w')"
    using assms(1) by (auto simp: pull_def peer_new_def Let_def split: prod.splits)
  from pull_loop_covers [OF assms(2) _ this] mem assms(4)
  have "(\<exists>k. out = Inr k) \<and> (\<forall>r \<in> set (sync_list now 0 stp). covers st' r)" by blast
  with that xs all show thesis by blast
qed

text \<open>Records of the same standing: neither replaces the other.\<close>

fun same_standing :: "signed_record option \<Rightarrow> signed_record option \<Rightarrow> bool" where
  "same_standing None None = True"
| "same_standing (Some r) (Some s) =
     (sr_identity r = sr_identity s \<and> is_terminal (sr_record r) = is_terminal (sr_record s) \<and>
      (\<not> is_terminal (sr_record r) \<longrightarrow>
         rec_serial (sr_record r) = rec_serial (sr_record s) \<and> rec_issued_at (sr_record r) = rec_issued_at (sr_record s)))"
| "same_standing _ _ = False"

lemma same_standingI:
  assumes "\<And>r. x = Some r \<Longrightarrow> \<exists>s. y = Some s \<and> \<not> supersedes (sr_record r) (sr_record s)"
    and "\<And>s. y = Some s \<Longrightarrow> \<exists>r. x = Some r \<and> \<not> supersedes (sr_record s) (sr_record r)"
    and "\<And>r s. x = Some r \<Longrightarrow> y = Some s \<Longrightarrow> sr_identity r = sr_identity s"
  shows "same_standing x y"
proof (cases x)
  case None
  with assms(2) have "y = None" by (cases y) auto
  with None show ?thesis by simp
next
  case (Some r)
  with assms(1) obtain s where s: "y = Some s" "\<not> supersedes (sr_record r) (sr_record s)" by blast
  have "\<not> supersedes (sr_record s) (sr_record r)" using assms(2) [OF s(1)] Some by simp
  with s(2) assms(3) [OF Some s(1)] show ?thesis by (auto simp: Some s(1) supersedes_iff)
qed


lemma pull_store_live:
  assumes "put toy_ed25519 1100 (live 1 2 5 1000 300 [v4_endpoint 5300]) st = (o1, store_live)"
  shows "\<exists>n p. pull toy_ed25519 (honest 1100 store_live) (\<lambda>_. 1100) (peer_new (0 :: nat)) st () = (Inr n, p, store_live, ())"
proof -
  let ?r = "live 1 2 5 1000 300 [v4_endpoint 5300]"
  have "sync_list 1100 0 store_live = [?r]"
    by (simp add: sync_list_def sync_eligible_def store_live_records live_expired saturating_add_def)
  then show ?thesis
    using assms by (simp add: pull_def peer_new_def pull_loop.simps [of _ _ _ 0] honest_sync Let_def)
qed


section \<open>Records left behind\<close>

text \<open>
  A full batch whose records all carry the cursor's own second ends the pull with the cursor
  where it was: exactly this batch has been applied, and the next pull asks the same question
  again, so further records of that second are never fetched while the peer keeps them in this
  order.
\<close>

theorem pull_stuck_on_crowded_second:
  assumes "\<And>w. request (pr_link p) (Sync (pr_watermark p) MAX_SYNC_BATCH) w = (Inr (Records rs False), w)"
    and "rs \<noteq> []" and "\<forall>r \<in> set rs. rec_issued_at (sr_record r) = pr_watermark p"
    and "pull c request clock p st w = (out, p', st', w')"
  shows "p' = p \<and> st' = snd (apply_batch c clock 0 rs (0, st)) \<and> w' = w"
proof -
  let ?s = "pr_watermark p"
  have high: "batch_high ?s rs = ?s" using batch_high_in [OF assms(2), of ?s] assms(3) by auto
  have "pull_loop c request clock (pr_link p) 0 ?s 0 ?s st w =
      (Inr (fst (apply_batch c clock 0 rs (0, st))), ?s, snd (apply_batch c clock 0 rs (0, st)), w)"
    by (simp add: pull_loop.simps [of c request clock "pr_link p"] assms(1) high Let_def case_prod_unfold)
  with assms(4) show ?thesis by (auto simp: pull_def Let_def)
qed

theorem pull_stuck_on_crowded_second_witness:
  "\<exists>out st'. pull toy_ed25519 (\<lambda>l q w. (Inr (Records [live 1 2 5 1000 300 []] False), w)) (\<lambda>_. 1100)
      \<lparr>pr_link = (0 :: nat), pr_watermark = 1000\<rparr> (store_new None) () =
      (out, \<lparr>pr_link = 0, pr_watermark = 1000\<rparr>, st', ())"
proof -
  let ?p = "\<lparr>pr_link = (0 :: nat), pr_watermark = 1000\<rparr>"
  let ?q = "\<lambda>(l :: nat) (q :: request) (w :: unit). (Inr (Records [live 1 2 5 1000 300 []] False) :: response res, w)"
  obtain out p' st' where p: "pull toy_ed25519 ?q (\<lambda>_. 1100) ?p (store_new None) () = (out, p', st', ())"
    by (cases "pull toy_ed25519 ?q (\<lambda>_. 1100) ?p (store_new None) ()") auto
  have "p' = ?p \<and> st' = snd (apply_batch toy_ed25519 (\<lambda>_. 1100) 0 [live 1 2 5 1000 300 []] (0, store_new None)) \<and> () = ()"
    by (rule pull_stuck_on_crowded_second [OF _ _ _ p]) simp_all
  with p show ?thesis by blast
qed

lemma pull_loop_frame:
  assumes "hm_wf (st_records stp)" and "record_inv c' stp"
    and "held stp k = Some r" and "rec_issued_at (sr_record r) < s0"
  shows "s0 \<le> s \<Longrightarrow> pull_loop c (honest now stp) clock l n s a wm st w = (out, wm', st', w') \<Longrightarrow>
    held st' k = held st k"
proof (induction "2 ^ 64 - unat s" arbitrary: n s a wm st w rule: less_induct)
  case less
  have batch: "held (snd (apply_batch c clock n rs (a, st))) k = held st k"
    if "rs = take 512 (sync_list now s stp)" for rs n a st
  proof -
    have "sr_key x \<noteq> k" if "x \<in> set (sync_list now s stp)" for x
    proof
      assume "sr_key x = k"
      moreover from that obtain j where "held stp j = Some x" "s \<le> rec_issued_at (sr_record x)"
        by (auto simp: set_sync_list [OF assms(1)] sync_eligible_def)
      ultimately show False
        using assms(2-4) less.prems(1) by (auto simp: record_inv_def)
    qed
    then have "\<forall>x \<in> set rs. sr_key x \<noteq> k" using that by (auto dest: in_set_takeD)
    then show ?thesis
    proof (induction rs arbitrary: n a st)
      case (Cons x rs)
      obtain out st' where p: "put c (clock n) x st = (out, st')" by fastforce
      have "held st' k = held st k"
        using Cons.prems p by (cases rule: put_cases [of c "clock n" x st]) (auto simp: held_put_result)
      with Cons show ?case by (simp add: p)
    qed simp
  qed
  show ?case
    using less.prems(2)
  proof (cases rule: pull_loop_cases)
    case (stop e w1)
    then show ?thesis by simp
  next
    case (last rs x w1)
    then show ?thesis using batch by (simp add: honest_sync)
  next
    case (more rs w1)
    have d: "2 ^ 64 - unat (batch_high s rs) < 2 ^ 64 - unat s" using cursor_progress [OF more(2)] by simp
    have "s0 \<le> batch_high s rs" using less.prems(1) more(2) by simp
    from less.hyps [OF d this more(3)] batch more(1) show ?thesis by (simp add: honest_sync)
  qed
qed

text \<open>
  A pull does not pick up every push that was missed: when the peer holds a record whose issue
  time lies below the watermark reached earlier (because it arrived at the peer late), no later
  pull, from this watermark or a higher one, changes what the store holds for its key.
\<close>

theorem pull_misses_late_records:
  assumes "store_inv c stp" and "held stp k = Some r" and "rec_issued_at (sr_record r) < pr_watermark p"
    and "pull c (honest now stp) clock p st w = (out, p', st', w')"
  shows "held st' k = held st k"
proof -
  obtain wm where l: "pull_loop c (honest now stp) clock (pr_link p) 0 (pr_watermark p) 0 (pr_watermark p) st w =
      (out, wm, st', w')"
    using assms(4) by (auto simp: pull_def Let_def split: prod.splits)
  show ?thesis
    by (rule pull_loop_frame [where c' = c, OF _ _ assms(2,3) order_refl l]) (use assms(1) in \<open>simp_all add: store_inv_def\<close>)
qed

theorem pull_misses_late_records_witness:
  "\<exists>out p' st'. pull toy_ed25519 (honest 1100 store_live) (\<lambda>_. 1100) \<lparr>pr_link = (0 :: nat), pr_watermark = 1001\<rparr>
      (store_new None) () = (out, p', st', ()) \<and> held st' (key_n 2) = None"
proof -
  let ?p = "\<lparr>pr_link = (0 :: nat), pr_watermark = 1001\<rparr>"
  obtain out p' st' where p: "pull toy_ed25519 (honest 1100 store_live) (\<lambda>_. 1100) ?p (store_new None) () = (out, p', st', ())"
    by (cases "pull toy_ed25519 (honest 1100 store_live) (\<lambda>_. 1100) ?p (store_new None) ()") auto
  have "held st' (key_n 2) = held (store_new None) (key_n 2)"
    by (rule pull_misses_late_records [where r = "live 1 2 5 1000 300 [v4_endpoint 5300]",
          OF store_inv_samples(1) _ _ p]) simp_all
  then have "held st' (key_n 2) = None" by (simp add: store_new_def)
  with p show ?thesis by blast
qed

end
