(* ===== verification/Select.thy ===== *)
theory Select
  imports Records
begin

text \<open>
  Endpoint ordering (\<open>crates/sqns-client/src/select.rs\<close>). The random generator is a parameter:
  \<open>rng n total\<close> is the value that the \<open>n\<close>-th call of \<open>random_range(0..total)\<close> returns; \<open>rand\<close>
  documents that it lies in the range. Weights are summed in \<open>u64\<close>: 255 weights of 16 bits cannot
  overflow it, so the sums are natural numbers here.
\<close>

section \<open>The model\<close>

type_synonym rng = "nat \<Rightarrow> nat \<Rightarrow> nat"

definition rng_ok :: "rng \<Rightarrow> bool" where
  "rng_ok rng \<longleftrightarrow> (\<forall>n total. 0 < total \<longrightarrow> rng n total < total)"

type_synonym bands = "(u16 \<times> endpoint list) list"

text \<open>One step of the loop that groups the sorted endpoints; it looks at the last band.\<close>

fun band_push :: "endpoint \<Rightarrow> bands \<Rightarrow> bands" where
  "band_push ep [] = [(ep_priority ep, [ep])]"
| "band_push ep [(prio, band)] =
     (if prio = ep_priority ep then [(prio, band @ [ep])] else [(prio, band), (ep_priority ep, [ep])])"
| "band_push ep (b # b' # bs) = b # band_push ep (b' # bs)"

abbreviation ep_w :: "endpoint \<Rightarrow> nat" where
  "ep_w e \<equiv> unat (ep_weight e)"

definition total_weight :: "endpoint list \<Rightarrow> nat" where
  "total_weight band = sum_list (map ep_w band)"

text \<open>The scan for the drawn endpoint: position \<open>i\<close>, remaining \<open>pick\<close>, default \<open>chosen\<close>.\<close>

fun scan_pick :: "nat \<Rightarrow> nat \<Rightarrow> nat \<Rightarrow> endpoint list \<Rightarrow> nat" where
  "scan_pick chosen i pick [] = chosen"
| "scan_pick chosen i pick (ep # band) =
     (if pick < ep_w ep then i else scan_pick chosen (Suc i) (pick - ep_w ep) band)"

definition draw :: "rng \<Rightarrow> nat \<Rightarrow> endpoint list \<Rightarrow> nat \<times> nat" where
  "draw rng n band =
     (let total = total_weight band in
      if total = 0 then (0, n)
      else (scan_pick (length band - 1) 0 (rng n total) band, Suc n))"

lemma scan_pick_bound: "chosen < i + length band \<Longrightarrow> scan_pick chosen i pick band < i + length band"
proof (induction band arbitrary: i pick)
  case (Cons ep band)
  then show ?case using Cons.IH [of "Suc i" "pick - ep_w ep"] by simp
qed simp

lemma draw_bound: "band \<noteq> [] \<Longrightarrow> fst (draw rng n band) < length band"
  using scan_pick_bound [of "length band - 1" 0 band "rng n (total_weight band)"]
  by (auto simp: draw_def Let_def)

text \<open>\<open>Vec::remove\<close>\<close>

definition remove_at :: "nat \<Rightarrow> 'a list \<Rightarrow> 'a list" where
  "remove_at i xs = take i xs @ drop (Suc i) xs"

function drain_band :: "rng \<Rightarrow> nat \<Rightarrow> endpoint list \<Rightarrow> endpoint list \<times> nat" where
  "drain_band rng n band =
     (if band = [] then ([], n)
      else let (idx, n) = draw rng n band;
               (out, n) = drain_band rng n (remove_at idx band)
           in (band ! idx # out, n))"
  by auto
termination
proof (relation "measure (\<lambda>(rng, n, band). length band)", goal_cases)
  case 1
  show ?case by simp
next
  case (2 rng n band p idx n')
  then have "idx < length band" using draw_bound [of band rng n] by (metis fst_conv)
  then show ?case by (simp add: remove_at_def)
qed

fun drain_bands :: "rng \<Rightarrow> nat \<Rightarrow> bands \<Rightarrow> endpoint list" where
  "drain_bands rng n [] = []"
| "drain_bands rng n ((_, band) # bands) =
     (let (out, n) = drain_band rng n band in out @ drain_bands rng n bands)"

definition order_with :: "sqns_record \<Rightarrow> rng \<Rightarrow> endpoint list" where
  "order_with r rng =
     (let sorted = sort_key ep_priority (endpoints r);
          bands = fold band_push sorted []
      in drain_bands rng 0 bands)"

declare drain_band.simps [simp del]

section \<open>Drawing from a band\<close>

lemma mset_remove_at: "i < length xs \<Longrightarrow> add_mset (xs ! i) (mset (remove_at i xs)) = mset xs"
  unfolding remove_at_def by (subst (3) id_take_nth_drop [of i xs]) simp_all

lemma drain_band_step:
  assumes "band \<noteq> []"
  obtains idx n1 out n2 where "draw rng n band = (idx, n1)" "idx < length band"
    "drain_band rng n1 (remove_at idx band) = (out, n2)"
    "drain_band rng n band = (band ! idx # out, n2)"
proof -
  obtain idx n1 where d: "draw rng n band = (idx, n1)" by fastforce
  obtain out n2 where o: "drain_band rng n1 (remove_at idx band) = (out, n2)" by fastforce
  have "drain_band rng n band = (band ! idx # out, n2)"
    using assms d o by (simp add: drain_band.simps [of rng n band])
  with d o that draw_bound [OF assms, of rng n] show ?thesis by simp
qed

lemma mset_drain_band: "mset (fst (drain_band rng n band)) = mset band"
proof (induction "length band" arbitrary: n band)
  case 0
  then show ?case by (simp add: drain_band.simps)
next
  case (Suc m)
  then have "band \<noteq> []" by auto
  then obtain idx n1 out n2 where s: "idx < length band"
      "drain_band rng n1 (remove_at idx band) = (out, n2)"
      "drain_band rng n band = (band ! idx # out, n2)"
    by (rule drain_band_step [of band rng n])
  have "m = length (remove_at idx band)" using s(1) Suc.hyps(2) by (simp add: remove_at_def)
  from Suc.hyps(1) [OF this, of n1] s mset_remove_at [OF s(1)] show ?case by simp
qed

text \<open>The draw is proportional: of the \<open>total\<close> equally likely picks, \<open>w\<close> select an endpoint of weight \<open>w\<close>.\<close>

lemma scan_pick_ge: "pick < total_weight band \<Longrightarrow> i \<le> scan_pick chosen i pick band"
proof (induction band arbitrary: i pick)
  case (Cons ep band)
  show ?case
  proof (cases "pick < ep_w ep")
    case False
    with Cons.prems have "pick - ep_w ep < total_weight band" by (auto simp: total_weight_def)
    from Cons.IH [OF this, of "Suc i"] False show ?thesis by simp
  qed simp
qed (simp add: total_weight_def)

lemma total_weight_0: "total_weight band = 0 \<longleftrightarrow> (\<forall>e \<in> set band. ep_w e = 0)"
  by (induction band) (simp_all add: total_weight_def)

lemma scan_pick_iff:
  assumes "pick < total_weight band" and "j < length band"
  shows "scan_pick chosen i pick band = i + j \<longleftrightarrow>
     total_weight (take j band) \<le> pick \<and> pick < total_weight (take j band) + ep_w (band ! j)"
  using assms
proof (induction band arbitrary: i j pick)
  case (Cons ep band)
  show ?case
  proof (cases j)
    case 0
    have "scan_pick chosen (Suc i) p band \<noteq> i" if "p < total_weight band" for p
      using scan_pick_ge [OF that, of "Suc i" chosen] by simp
    with 0 Cons.prems show ?thesis by (auto simp: total_weight_def)
  next
    case (Suc k)
    show ?thesis
    proof (cases "pick < ep_w ep")
      case True
      with Suc show ?thesis by (simp add: total_weight_def)
    next
      case False
      then have "pick - ep_w ep < total_weight band" "k < length band"
        using Cons.prems Suc by (auto simp: total_weight_def)
      from Cons.IH [OF this, of "Suc i"] False Suc show ?thesis
        by (auto simp: total_weight_def)
    qed
  qed
qed simp

lemma zero_weight_not_drawn:
  assumes "rng_ok rng" and "draw rng n band = (idx, n1)" and "band \<noteq> []" and "ep_w (band ! idx) = 0"
  shows "\<forall>e \<in> set band. ep_w e = 0"
proof (rule ccontr)
  assume "\<not> ?thesis"
  then have pos: "total_weight band > 0" using total_weight_0 [of band] by blast
  then have "rng n (total_weight band) < total_weight band" using assms(1) by (simp add: rng_ok_def)
  moreover have "idx < length band" using draw_bound [OF assms(3), of rng n] assms(2) by simp
  moreover have "scan_pick (length band - 1) 0 (rng n (total_weight band)) band = 0 + idx"
    using assms(2) pos by (simp add: draw_def Let_def)
  ultimately show False using scan_pick_iff assms(4) by fastforce
qed

lemma zero_weight_last_in_band:
  assumes "rng_ok rng"
  shows "sorted_wrt (\<lambda>a b. ep_w a = 0 \<longrightarrow> ep_w b = 0) (fst (drain_band rng n band))"
proof (induction "length band" arbitrary: n band)
  case 0
  then show ?case by (simp add: drain_band.simps)
next
  case (Suc m)
  then have "band \<noteq> []" by auto
  then obtain idx n1 out n2 where d: "draw rng n band = (idx, n1)" and s: "idx < length band"
      "drain_band rng n1 (remove_at idx band) = (out, n2)"
      "drain_band rng n band = (band ! idx # out, n2)"
    by (rule drain_band_step [of band rng n])
  have len: "m = length (remove_at idx band)" using s(1) Suc.hyps(2) by (simp add: remove_at_def)
  have "set out \<subseteq> set band"
    using mset_drain_band [of rng n1 "remove_at idx band"] s(2) mset_remove_at [OF s(1)]
    by (metis fst_conv insert_iff set_mset_add_mset_insert set_mset_mset subsetI)
  then have "ep_w (band ! idx) = 0 \<Longrightarrow> e \<in> set out \<Longrightarrow> ep_w e = 0" for e
    using zero_weight_not_drawn [OF assms d \<open>band \<noteq> []\<close>] by blast
  with Suc.hyps(1) [OF len, of n1] s show ?case by simp
qed

section \<open>Bands\<close>

text \<open>Each band is the endpoints of one priority; the priorities ascend.\<close>

definition bands_ok :: "bands \<Rightarrow> bool" where
  "bands_ok bs \<longleftrightarrow> sorted_wrt (<) (map fst bs) \<and>
     (\<forall>(prio, band) \<in> set bs. band \<noteq> [] \<and> (\<forall>e \<in> set band. ep_priority e = prio))"

lemma concat_band_push: "concat (map snd (band_push ep bs)) = concat (map snd bs) @ [ep]"
  by (induction ep bs rule: band_push.induct) auto

lemma fst_band_push: "set (map fst (band_push ep bs)) \<subseteq> insert (ep_priority ep) (set (map fst bs))"
  by (induction ep bs rule: band_push.induct) auto

lemma bands_ok_push:
  "bands_ok bs \<Longrightarrow> \<forall>e \<in> set (concat (map snd bs)). ep_priority e \<le> ep_priority ep \<Longrightarrow>
   bands_ok (band_push ep bs)"
proof (induction ep bs rule: band_push.induct)
  case (1 ep)
  then show ?case by (simp add: bands_ok_def)
next
  case (2 ep prio band)
  then have "prio \<le> ep_priority ep" by (cases band) (auto simp: bands_ok_def)
  with 2 show ?case by (auto simp: bands_ok_def)
next
  case (3 ep b b' bs)
  have ok: "bands_ok (b' # bs)" using 3(2) by (auto simp: bands_ok_def)
  with 3 have ih: "bands_ok (band_push ep (b' # bs))" by auto
  have b: "snd b \<noteq> []" "\<forall>e \<in> set (snd b). ep_priority e = fst b"
    using 3(2) by (auto simp: bands_ok_def)
  have b': "snd b' \<noteq> []" "\<forall>e \<in> set (snd b'). ep_priority e = fst b'" "fst b < fst b'"
    using 3(2) by (auto simp: bands_ok_def)
  then have "fst b' \<le> ep_priority ep" using 3(3) by (auto) (metis UnCI list.set_sel(1))
  then have "\<forall>p \<in> insert (ep_priority ep) (set (map fst (b' # bs))). fst b < p"
    using 3(2) b'(3) by (auto simp: bands_ok_def)
  then have "\<forall>p \<in> set (map fst (band_push ep (b' # bs))). fst b < p"
    using fst_band_push [of ep "b' # bs"] by blast
  with ih b show ?case by (auto simp: bands_ok_def)
qed

lemma bands_of_sorted:
  "sorted (map ep_priority eps) \<Longrightarrow>
   bands_ok (fold band_push eps []) \<and> concat (map snd (fold band_push eps [])) = eps"
proof (induction eps rule: rev_induct)
  case Nil
  then show ?case by (simp add: bands_ok_def)
next
  case (snoc e eps)
  then have "bands_ok (fold band_push eps [])" and c: "concat (map snd (fold band_push eps [])) = eps"
    and "\<forall>x \<in> set eps. ep_priority x \<le> ep_priority e"
    by (auto simp: sorted_append)
  then show ?case by (auto simp: concat_band_push intro!: bands_ok_push simp del: set_concat)
qed

section \<open>The whole order\<close>

text \<open>\<open>a\<close> may come before \<open>b\<close>.\<close>

definition before_ok :: "endpoint \<Rightarrow> endpoint \<Rightarrow> bool" where
  "before_ok a b \<longleftrightarrow>
     ep_priority a < ep_priority b \<or>
     ep_priority a = ep_priority b \<and> (ep_weight a = 0 \<longrightarrow> ep_weight b = 0)"

lemma mset_drain_bands: "mset (drain_bands rng n bs) = mset (concat (map snd bs))"
  by (induction rng n bs rule: drain_bands.induct)
    (auto split: prod.splits, metis fst_conv mset_drain_band)

lemma sorted_drain_bands:
  assumes "rng_ok rng"
  shows "bands_ok bs \<Longrightarrow> sorted_wrt before_ok (drain_bands rng n bs)"
proof (induction bs arbitrary: n)
  case (Cons b bs)
  obtain prio band where b: "b = (prio, band)" by (cases b)
  obtain out n1 where o: "drain_band rng n band = (out, n1)" by fastforce
  have ok: "bands_ok bs" using Cons.prems by (auto simp: bands_ok_def)
  have "set out = set band" using mset_drain_band [of rng n band] o by (metis fst_conv set_mset_mset)
  then have out: "\<forall>e \<in> set out. ep_priority e = prio" using Cons.prems by (auto simp: b bands_ok_def)
  have "set (drain_bands rng n1 bs) = set (concat (map snd bs))"
    using mset_drain_bands [of rng n1 bs] by (metis set_mset_mset)
  then have later: "\<forall>e \<in> set (drain_bands rng n1 bs). prio < ep_priority e"
    using Cons.prems by (fastforce simp: b bands_ok_def)
  have "sorted_wrt (\<lambda>a b. ep_w a = 0 \<longrightarrow> ep_w b = 0) out"
    using zero_weight_last_in_band [OF assms, of n band] o by simp
  then have "sorted_wrt before_ok out"
    by (rule sorted_wrt_mono_rel [rotated]) (use out in \<open>auto simp: before_ok_def unat_eq_zero\<close>)
  with Cons.IH [OF ok, of n1] out later show ?case
    by (simp add: b o sorted_wrt_append) (simp add: before_ok_def)
qed simp

lemma mset_order_with: "mset (order_with r rng) = mset (endpoints r)"
  using bands_of_sorted [of "sort_key ep_priority (endpoints r)"]
    mset_drain_bands [of rng 0 "fold band_push (sort_key ep_priority (endpoints r)) []"]
  by (simp add: order_with_def Let_def)


definition select_sample :: sqns_record where
  "select_sample = record_live 1000 (PubKey (replicate 32 2))
     \<lparr>dl_identity = PubKey (replicate 32 1), dl_not_after = 100000, dl_signature = replicate 64 1\<rparr> 5 300
     [with_priority (endpoint_new (V4 [10, 0, 0, 1]) 80) 20,
      with_weight (with_priority (endpoint_new (V4 [10, 0, 0, 2]) 80) 10) 0,
      with_weight (with_priority (endpoint_new (V4 [10, 0, 0, 3]) 80) 10) 3]"


text \<open>
  Draws are weighted: of the \<open>total\<close> equally likely values that the generator can return for
  a band, exactly as many as an endpoint's weight select that endpoint.
\<close>

theorem draw_proportional:
  assumes "j < length band"
  shows "card {pick. pick < total_weight band \<and> scan_pick (length band - 1) 0 pick band = j} = ep_w (band ! j)"
proof -
  let ?lo = "total_weight (take j band)"
  have total: "total_weight band = ?lo + ep_w (band ! j) + total_weight (drop (Suc j) band)"
    unfolding total_weight_def by (subst id_take_nth_drop [OF assms]) (simp add: add.assoc)
  have "pick < total_weight band \<and> scan_pick (length band - 1) 0 pick band = j \<longleftrightarrow>
      ?lo \<le> pick \<and> pick < ?lo + ep_w (band ! j)" for pick
  proof (cases "pick < total_weight band")
    case True
    with scan_pick_iff [OF True assms, of "length band - 1" 0] show ?thesis unfolding add_0 by blast
  next
    case False
    with total have "\<not> pick < ?lo + ep_w (band ! j)" by linarith
    with False show ?thesis by blast
  qed
  then have "{pick. pick < total_weight band \<and> scan_pick (length band - 1) 0 pick band = j} =
      {?lo..<?lo + ep_w (band ! j)}"
    by (intro set_eqI) (simp only: mem_Collect_eq atLeastLessThan_iff)
  then show ?thesis by simp
qed

theorem draw_proportional_witness:
  "card {pick. pick < total_weight (endpoints select_sample) \<and>
          scan_pick (length (endpoints select_sample) - 1) 0 pick (endpoints select_sample) = 2} = 3"
proof -
  have "2 < length (endpoints select_sample)"
    by (simp add: select_sample_def endpoints_def record_live_def)
  from draw_proportional [OF this] show ?thesis
    by (simp add: select_sample_def endpoints_def record_live_def with_weight_def with_priority_def)
qed

end
