(* ===== verification/Text.thy ===== *)
theory Text
  imports Prelude
begin

text \<open>
  The parts of Rust's string library that the parsers of the program use, on UTF-8 byte strings:
  prefixes and suffixes, splitting at an ASCII character, trimming of Unicode white space, and
  decimal and hexadecimal numbers. Beside each is what the parsers rely on.
\<close>

section \<open>Characters\<close>

abbreviation ch :: "char \<Rightarrow> byte" where
  "ch c \<equiv> of_char c"

text \<open>\<open>strip_prefix\<close> and \<open>strip_suffix\<close>\<close>

fun strip_prefix :: "rstring \<Rightarrow> rstring \<Rightarrow> rstring option" where
  "strip_prefix [] s = Some s"
| "strip_prefix (p # ps) [] = None"
| "strip_prefix (p # ps) (b # s) = (if p = b then strip_prefix ps s else None)"

definition strip_suffix :: "rstring \<Rightarrow> rstring \<Rightarrow> rstring option" where
  "strip_suffix p s = map_option rev (strip_prefix (rev p) (rev s))"

text \<open>\<open>split_once(c)\<close>: before and after the first \<open>c\<close>; \<open>split(c)\<close>: all the pieces.\<close>

fun split_once :: "byte \<Rightarrow> rstring \<Rightarrow> (rstring \<times> rstring) option" where
  "split_once c [] = None"
| "split_once c (b # s) =
     (if b = c then Some ([], s) else map_option (\<lambda>(x, y). (b # x, y)) (split_once c s))"

fun split_on :: "byte \<Rightarrow> rstring \<Rightarrow> rstring list" where
  "split_on c [] = [[]]"
| "split_on c (b # s) =
     (if b = c then [] # split_on c s
      else case split_on c s of p # ps \<Rightarrow> (b # p) # ps | [] \<Rightarrow> [[b]])"

lemma strip_prefix_append [simp]: "strip_prefix p (p @ s) = Some s"
  by (induction p) auto

lemma strip_prefix_iff: "strip_prefix p s = Some r \<longleftrightarrow> s = p @ r"
  by (induction p s rule: strip_prefix.induct) auto

lemma strip_suffix_append [simp]: "strip_suffix p (s @ p) = Some s"
  by (simp add: strip_suffix_def)

lemma strip_suffix_iff: "strip_suffix p s = Some r \<longleftrightarrow> s = r @ p"
proof -
  have "rev s = rev p @ r' \<longleftrightarrow> s = rev r' @ p" for r'
    by (metis rev_append rev_rev_ident)
  then show ?thesis by (force simp: strip_suffix_def strip_prefix_iff)
qed

lemma split_once_iff: "split_once c s = Some (x, y) \<longleftrightarrow> s = x @ c # y \<and> c \<notin> set x"
proof (induction s arbitrary: x)
  case Nil
  then show ?case by simp
next
  case (Cons b s)
  then show ?case by (cases x) auto
qed

lemma split_once_None_iff: "split_once c s = None \<longleftrightarrow> c \<notin> set s"
  by (induction s) auto

lemma split_on_nonempty [simp]: "split_on c s \<noteq> []"
  by (cases s) (auto split: list.splits)

lemma split_on_absent: "c \<notin> set s \<Longrightarrow> split_on c s = [s]"
  by (induction s) auto

lemma split_on_append: "c \<notin> set x \<Longrightarrow> split_on c (x @ c # y) = x # split_on c y"
  by (induction x) auto

section \<open>White space\<close>

text \<open>The UTF-8 encodings of the characters with the Unicode property \<open>White_Space\<close>.\<close>

definition white_space :: "rstring list" where
  "white_space =
     [[0x09], [0x0A], [0x0B], [0x0C], [0x0D], [0x20], [0xC2, 0x85], [0xC2, 0xA0], [0xE1, 0x9A, 0x80],
      [0xE2, 0x80, 0x80], [0xE2, 0x80, 0x81], [0xE2, 0x80, 0x82], [0xE2, 0x80, 0x83],
      [0xE2, 0x80, 0x84], [0xE2, 0x80, 0x85], [0xE2, 0x80, 0x86], [0xE2, 0x80, 0x87],
      [0xE2, 0x80, 0x88], [0xE2, 0x80, 0x89], [0xE2, 0x80, 0x8A], [0xE2, 0x80, 0xA8],
      [0xE2, 0x80, 0xA9], [0xE2, 0x80, 0xAF], [0xE2, 0x81, 0x9F], [0xE3, 0x80, 0x80]]"

definition starts_blank :: "rstring \<Rightarrow> rstring option" where
  "starts_blank s = find (\<lambda>w. strip_prefix w s \<noteq> None) white_space"

definition ends_blank :: "rstring \<Rightarrow> rstring option" where
  "ends_blank s = find (\<lambda>w. strip_suffix w s \<noteq> None) white_space"

lemma white_space_nonempty: "w \<in> set white_space \<Longrightarrow> w \<noteq> []"
  by (auto simp: white_space_def)

lemma starts_blank_Some: "starts_blank s = Some w \<Longrightarrow> w \<in> set white_space \<and> (\<exists>r. s = w @ r)"
  by (auto simp: starts_blank_def find_Some_iff strip_prefix_iff)

lemma ends_blank_Some: "ends_blank s = Some w \<Longrightarrow> w \<in> set white_space \<and> (\<exists>r. s = r @ w)"
  by (auto simp: ends_blank_def find_Some_iff strip_suffix_iff)

lemma starts_blank_pos: "starts_blank s = Some w \<Longrightarrow> 0 < length w \<and> 0 < length s"
  by (auto dest!: starts_blank_Some white_space_nonempty)

lemma ends_blank_pos: "ends_blank s = Some w \<Longrightarrow> 0 < length w \<and> 0 < length s"
  by (auto dest!: ends_blank_Some white_space_nonempty)

function trim_start :: "rstring \<Rightarrow> rstring" where
  "trim_start s = (case starts_blank s of None \<Rightarrow> s | Some w \<Rightarrow> trim_start (drop (length w) s))"
  by pat_completeness auto

termination
  by (relation "measure length") (auto dest: starts_blank_pos)

function trim_end :: "rstring \<Rightarrow> rstring" where
  "trim_end s = (case ends_blank s of None \<Rightarrow> s | Some w \<Rightarrow> trim_end (take (length s - length w) s))"
  by pat_completeness auto

termination
  by (relation "measure length") (auto dest: ends_blank_pos)

declare trim_start.simps [simp del] trim_end.simps [simp del]

definition trim :: "rstring \<Rightarrow> rstring" where
  "trim s = trim_end (trim_start s)"

text \<open>A text is unaffected by \<open>trim\<close> when it begins and ends with a visible ASCII character.\<close>

definition visible :: "byte \<Rightarrow> bool" where
  "visible b \<longleftrightarrow> 0x20 < b \<and> b < 0x80"

lemma white_space_hd: "w \<in> set white_space \<Longrightarrow> \<not> visible (hd w) \<and> \<not> visible (last w)"
  by (auto simp: white_space_def visible_def)

lemma starts_blank_visible: "visible b \<Longrightarrow> starts_blank (b # s) = None"
  using white_space_hd white_space_nonempty
  by (auto simp: starts_blank_def find_None_iff strip_prefix_iff) (metis append_Cons hd_append2 list.sel(1))

lemma ends_blank_visible: "visible b \<Longrightarrow> ends_blank (s @ [b]) = None"
  using white_space_hd white_space_nonempty
  by (auto simp: ends_blank_def find_None_iff strip_suffix_iff) (metis last_append last_snoc)

lemma trim_visible:
  assumes "s \<noteq> []" and "visible (hd s)" and "visible (last s)"
  shows "trim s = s"
proof -
  from assms have "starts_blank s = None" using starts_blank_visible [of "hd s" "tl s"] by simp
  moreover from assms have "ends_blank s = None" using ends_blank_visible [of "last s" "butlast s"] by simp
  ultimately show ?thesis by (simp add: trim_def trim_start.simps trim_end.simps)
qed

text \<open>A visible character ends any white space before it.\<close>

lemma white_space_invisible: "w \<in> set white_space \<Longrightarrow> b \<in> set w \<Longrightarrow> \<not> visible b"
  by (auto simp: white_space_def visible_def)

lemma starts_blank_append:
  assumes "starts_blank h = None" and "visible b"
  shows "starts_blank (h @ b # s) = None"
proof -
  have "\<exists>us. h = w @ us" if w: "w \<in> set white_space" and eq: "w @ us' = h @ b # s" for w us'
  proof -
    consider us where "w = h @ us" "us @ us' = b # s" | us where "h = w @ us"
      using eq by (auto simp: append_eq_append_conv2)
    then show ?thesis
    proof cases
      case 1
      then have "us = [] \<or> b \<in> set w" by (cases us) auto
      with 1 white_space_invisible [OF w] assms(2) show ?thesis by auto
    qed auto
  qed
  note shorter = this
  show ?thesis
  proof (rule ccontr)
    assume "starts_blank (h @ b # s) \<noteq> None"
    then obtain w us' where w: "w \<in> set white_space" "h @ b # s = w @ us'"
      using starts_blank_Some by blast
    from shorter [OF w(1) w(2) [symmetric]] obtain us where "h = w @ us" by blast
    with w(1) assms(1) show False by (auto simp: starts_blank_def find_None_iff strip_prefix_iff)
  qed
qed

lemma trim_starts:
  assumes "starts_blank s = None" and "s \<noteq> []" and "visible (last s)"
  shows "trim s = s"
proof -
  from assms have "ends_blank s = None" using ends_blank_visible [of "last s" "butlast s"] by simp
  with assms(1) show ?thesis by (simp add: trim_def trim_start.simps trim_end.simps)
qed

lemma trim_Nil [simp]: "trim [] = []"
proof -
  have "starts_blank [] = None" "ends_blank [] = None"
    by (auto simp: starts_blank_def ends_blank_def find_None_iff strip_prefix_iff strip_suffix_iff dest: white_space_nonempty)
  then show ?thesis by (simp add: trim_def trim_start.simps trim_end.simps)
qed

text \<open>\<open>trim\<close> is idempotent: what it leaves neither begins nor ends with white space.\<close>

lemma starts_blank_trim_start: "starts_blank (trim_start s) = None"
  by (induction s rule: trim_start.induct) (subst trim_start.simps, simp split: option.splits)

lemma ends_blank_trim_end: "ends_blank (trim_end s) = None"
  by (induction s rule: trim_end.induct) (subst trim_end.simps, simp split: option.splits)

lemma trim_end_prefix: "\<exists>r. s = trim_end s @ r"
proof (induction s rule: trim_end.induct)
  case (1 s)
  show ?case
  proof (cases "ends_blank s")
    case None
    then show ?thesis by (simp add: trim_end.simps)
  next
    case (Some w)
    let ?t = "take (length s - length w) s"
    from 1 Some obtain r where "?t = trim_end ?t @ r" by blast
    then have "s = trim_end ?t @ r @ drop (length s - length w) s" by (metis append.assoc append_take_drop_id)
    with Some show ?thesis by (auto simp: trim_end.simps [of s])
  qed
qed

lemma starts_blank_prefix: "starts_blank (s @ r) = None \<Longrightarrow> starts_blank s = None"
  by (auto simp: starts_blank_def find_None_iff strip_prefix_iff)

lemma starts_blank_trim: "starts_blank (trim s) = None"
  using trim_end_prefix [of "trim_start s"] starts_blank_trim_start [of s]
  by (metis starts_blank_prefix trim_def)

lemma trim_idem [simp]: "trim (trim s) = trim s"
proof -
  have "starts_blank (trim s) = None" by (rule starts_blank_trim)
  then show ?thesis
    using ends_blank_trim_end by (simp add: trim_def trim_start.simps [of "trim_end _"] trim_end.simps [of "trim_end _"])
qed

section \<open>Numbers\<close>

text \<open>Digits of a number in base ten or sixteen, without leading zeros (\<open>{}\<close> and \<open>{:x}\<close>).\<close>

definition digit :: "nat \<Rightarrow> byte" where
  "digit d = (if d < 10 then of_nat (48 + d) else of_nat (87 + d))"

text \<open>\<open>char::to_digit(radix)\<close>\<close>

definition to_digit :: "nat \<Rightarrow> byte \<Rightarrow> nat option" where
  "to_digit radix b =
     (let n = unat b;
          d = (if 48 \<le> n \<and> n \<le> 57 then n - 48
               else if 97 \<le> n \<and> n \<le> 122 then n - 87
               else if 65 \<le> n \<and> n \<le> 90 then n - 55 else radix)
      in if d < radix then Some d else None)"

fun show_num :: "nat \<Rightarrow> nat \<Rightarrow> rstring" where
  "show_num radix n =
     (if radix < 2 \<or> n < radix then [digit n] else show_num radix (n div radix) @ [digit (n mod radix)])"

declare show_num.simps [simp del]

definition num_val :: "nat \<Rightarrow> nat list \<Rightarrow> nat" where
  "num_val radix ds = foldl (\<lambda>acc d. acc * radix + d) 0 ds"

abbreviation show_nat :: "nat \<Rightarrow> rstring" where
  "show_nat \<equiv> show_num 10"

text \<open>\<open>str::parse\<close> for an unsigned type with maximum \<open>m\<close>: an optional plus, at least one digit.\<close>

definition parse_uint :: "nat \<Rightarrow> rstring \<Rightarrow> nat option" where
  "parse_uint m s =
     (let digits = (case s of b # r \<Rightarrow> if b = ch CHR ''+'' then r else s | [] \<Rightarrow> s);
          ds = map (to_digit 10) digits
      in if digits = [] \<or> None \<in> set ds then None
         else let v = num_val 10 (map the ds) in if v \<le> m then Some v else None)"

definition parse_u16 :: "rstring \<Rightarrow> u16 option" where
  "parse_u16 s = map_option of_nat (parse_uint 65535 s)"

definition parse_u32 :: "rstring \<Rightarrow> u32 option" where
  "parse_u32 s = map_option of_nat (parse_uint 4294967295 s)"

definition parse_u64 :: "rstring \<Rightarrow> u64 option" where
  "parse_u64 s = map_option of_nat (parse_uint 18446744073709551615 s)"

lemma unat_digit: "d < 16 \<Longrightarrow> unat (digit d) = (if d < 10 then 48 + d else 87 + d)"
  by (simp add: digit_def unat_of_nat del: of_nat_add)

lemma to_digit_digit: "d < radix \<Longrightarrow> radix \<le> 16 \<Longrightarrow> to_digit radix (digit d) = Some d"
  by (simp add: to_digit_def unat_digit)

lemma num_val_snoc [simp]: "num_val radix (ds @ [d]) = num_val radix ds * radix + d"
  by (simp add: num_val_def)

lemma show_num_digits:
  assumes "2 \<le> radix" and "radix \<le> 16"
  shows "\<exists>ds. show_num radix n = map digit ds \<and> (\<forall>d \<in> set ds. d < radix) \<and> ds \<noteq> [] \<and> num_val radix ds = n \<and>
    (hd ds = 0 \<longrightarrow> length ds = 1)"
proof (induction n rule: less_induct)
  case (less n)
  show ?case
  proof (cases "n < radix")
    case True
    then show ?thesis
      by (intro exI [of _ "[n]"]) (subst show_num.simps, simp add: num_val_def)
  next
    case False
    have "n div radix < n" using False assms by (cases n) auto
    from less.IH [OF this] obtain ds where ds: "show_num radix (n div radix) = map digit ds"
      "\<forall>d \<in> set ds. d < radix" "ds \<noteq> []" "num_val radix ds = n div radix" "hd ds = 0 \<longrightarrow> length ds = 1"
      by (elim exE conjE) (rule that)
    have "hd ds \<noteq> 0"
    proof
      assume "hd ds = 0"
      with ds have "ds = [0]" by (cases ds) auto
      with ds(4) have "n div radix = 0" by (simp add: num_val_def)
      with False assms show False by (simp add: div_eq_0_iff)
    qed
    moreover have "show_num radix n = map digit (ds @ [n mod radix])"
      using ds(1) False assms by (subst show_num.simps) simp
    moreover have "num_val radix (ds @ [n mod radix]) = n" by (simp add: ds(4))
    ultimately show ?thesis
      using ds(2,3) assms by (intro exI [of _ "ds @ [n mod radix]"]) auto
  qed
qed

lemma digit_visible: "d < 16 \<Longrightarrow> visible (digit d)"
  by (simp add: visible_def word_less_nat_alt unat_digit)

lemma digit_distinct:
  "d < 16 \<Longrightarrow> digit d \<noteq> ch CHR ''+''" "d < 16 \<Longrightarrow> digit d \<noteq> ch CHR '':''" "d < 16 \<Longrightarrow> digit d \<noteq> ch CHR ''.''"
  "d < 16 \<Longrightarrow> digit d \<noteq> ch CHR ''/''" "d < 16 \<Longrightarrow> digit d \<noteq> ch CHR '']''" "d < 16 \<Longrightarrow> digit d \<noteq> ch CHR ''[''"
  by (auto dest!: arg_cong [of _ _ unat] simp: unat_digit split: if_splits)

lemma show_num_set:
  assumes "b \<in> set (show_num radix n)" and "2 \<le> radix" and "radix \<le> 16"
  shows "\<exists>d < 16. b = digit d"
proof -
  obtain ds where "show_num radix n = map digit ds" "\<forall>d \<in> set ds. d < radix"
    using show_num_digits [OF assms(2,3)] by blast
  with assms(1,3) have "\<exists>d \<in> set ds. b = digit d \<and> d < 16" by fastforce
  then show ?thesis by blast
qed

lemma show_num_nonempty [simp]: "show_num radix n \<noteq> []"
  by (subst show_num.simps) simp

lemma parse_show_nat: "n \<le> m \<Longrightarrow> parse_uint m (show_nat n) = Some n"
proof -
  assume n: "n \<le> m"
  obtain ds where ds: "show_nat n = map digit ds" "\<forall>d \<in> set ds. d < 10" "ds \<noteq> []" "num_val 10 ds = n"
    using show_num_digits [of 10 n] by auto
  obtain d ds' where c: "ds = d # ds'" using ds(3) by (cases ds) auto
  then have digits: "(case show_nat n of b # r \<Rightarrow> if b = ch CHR ''+'' then r else show_nat n | [] \<Rightarrow> show_nat n) = map digit ds"
    using ds digit_distinct(1) [of d] by simp
  have vals: "map (to_digit 10) (map digit ds) = map Some ds"
    using ds(2) by (simp add: to_digit_digit)
  show ?thesis unfolding parse_uint_def digits Let_def vals using ds n by (auto simp: o_def)
qed

lemma parse_show_u16: "parse_u16 (show_nat (unat w)) = Some w"
proof -
  have "unat w \<le> 65535" using unat_less_pow [of w] by simp
  then show ?thesis by (simp add: parse_u16_def parse_show_nat)
qed

end
