(* ===== verification/Key_Text.thy ===== *)
theory Key_Text
  imports Key Text
begin

text \<open>
  Keys as text (\<open>crates/sqns-core/src/key.rs\<close>). Base58 and hexadecimal are the third-party crates
  \<open>bs58\<close> and \<open>hex\<close>: the fields of \<open>key_codecs\<close>, with what the program relies on of them in
  \<open>key_codecs_correct\<close>.
\<close>

section \<open>The encodings\<close>

record key_codecs =
  b58_encode :: "bytes \<Rightarrow> rstring"
  b58_decode :: "rstring \<Rightarrow> bytes res"
  hex_encode :: "bytes \<Rightarrow> rstring"
  hex_decode :: "rstring \<Rightarrow> bytes option"

definition base58_alphabet :: rstring where
  "base58_alphabet = lit ''123456789ABCDEFGHJKLMNPQRSTUVWXYZabcdefghijkmnopqrstuvwxyz''"

definition is_ascii_hexdigit :: "byte \<Rightarrow> bool" where
  "is_ascii_hexdigit b \<longleftrightarrow> to_digit 16 b \<noteq> None"

text \<open>
  Documented behaviour: both encodings are inverted by their decoders; 32 bytes take 32 to 44
  characters of the alphabet in base58, and two digits per byte in hexadecimal; a decoded
  hexadecimal text has half as many bytes as it has characters.
\<close>

definition key_codecs_correct :: "key_codecs \<Rightarrow> bool" where
  "key_codecs_correct kc \<longleftrightarrow>
     (\<forall>b. length b = 32 \<longrightarrow> b58_decode kc (b58_encode kc b) = Inr b \<and>
        32 \<le> length (b58_encode kc b) \<and> length (b58_encode kc b) \<le> 44 \<and>
        set (b58_encode kc b) \<subseteq> set base58_alphabet) \<and>
     (\<forall>b. hex_decode kc (hex_encode kc b) = Some b \<and> length (hex_encode kc b) = 2 * length b \<and>
        (\<forall>x \<in> set (hex_encode kc b). is_ascii_hexdigit x)) \<and>
     (\<forall>s b. hex_decode kc s = Some b \<longrightarrow> length s = 2 * length b)"

section \<open>Public keys\<close>

definition to_base58 :: "key_codecs \<Rightarrow> pubkey \<Rightarrow> rstring" where
  "to_base58 kc k = b58_encode kc (as_bytes k)"

definition to_hex :: "key_codecs \<Rightarrow> pubkey \<Rightarrow> rstring" where
  "to_hex kc k = hex_encode kc (as_bytes k)"

text \<open>Base58 text is ASCII, so the first eight characters are the first eight bytes.\<close>

definition key_short :: "key_codecs \<Rightarrow> pubkey \<Rightarrow> rstring" where
  "key_short kc k = take 8 (to_base58 kc k)"

definition from_base58 :: "key_codecs \<Rightarrow> rstring \<Rightarrow> pubkey res" where
  "from_base58 kc s = rbind (b58_decode kc s) from_slice"

definition from_hex :: "key_codecs \<Rightarrow> rstring \<Rightarrow> pubkey res" where
  "from_hex kc s =
     (case hex_decode kc s of None \<Rightarrow> Inl (E_Key (plain ''bad hex'')) | Some raw \<Rightarrow> from_slice raw)"

definition pubkey_from_str :: "key_codecs \<Rightarrow> rstring \<Rightarrow> pubkey res" where
  "pubkey_from_str kc s =
     (let s = trim s
      in if length s = 64 \<and> list_all is_ascii_hexdigit s then from_hex kc s else from_base58 kc s)"

section \<open>Seeds\<close>

text \<open>\<open>SigningKey::from_bytes\<close> takes any 32 bytes; a signing key is kept as its seed.\<close>

definition secret_from_hex :: "key_codecs \<Rightarrow> rstring \<Rightarrow> bytes res" where
  "secret_from_hex kc seed_hex =
     (case hex_decode kc (trim seed_hex) of
        None \<Rightarrow> Inl (E_Key (plain ''private seed is not valid hex''))
      | Some raw \<Rightarrow>
          if length raw \<noteq> 32
          then Inl (E_Key (Msg ''private seed must be 32 bytes (64 hex chars), got {}'' [length raw] []))
          else Inr raw)"

text \<open>\<open>{b:02x}\<close> for each byte (\<open>hex_seed\<close> of \<open>resolver.rs\<close>).\<close>

definition hex_seed :: "bytes \<Rightarrow> rstring" where
  "hex_seed seed = concat (map (\<lambda>b. [digit (unat b div 16), digit (unat b mod 16)]) seed)"

section \<open>Round trips\<close>

lemma base58_visible: "b \<in> set base58_alphabet \<Longrightarrow> visible b \<and> b \<notin> {43, 46, 47, 58, 91, 93}"
  by (auto simp: base58_alphabet_def lit_def visible_def)

lemma hexdigit_visible: "is_ascii_hexdigit b \<Longrightarrow> visible b"
  by (auto simp: is_ascii_hexdigit_def to_digit_def visible_def word_less_nat_alt Let_def split: if_splits)

lemma trim_all_visible: "s \<noteq> [] \<Longrightarrow> \<forall>b \<in> set s. visible b \<Longrightarrow> trim s = s"
  by (rule trim_visible) auto

lemma codecs_base58:
  assumes "key_codecs_correct kc" and "pubkey_ok k"
  shows "b58_decode kc (to_base58 kc k) = Inr (as_bytes k)" "to_base58 kc k \<noteq> []"
    "length (to_base58 kc k) \<noteq> 64" "\<forall>b \<in> set (to_base58 kc k). b \<in> set base58_alphabet"
proof -
  have "length (as_bytes k) = 32" using assms(2) by (simp add: pubkey_ok_def)
  with conjunct1 [OF assms(1) [unfolded key_codecs_correct_def], rule_format, of "as_bytes k"]
  have *: "b58_decode kc (to_base58 kc k) = Inr (as_bytes k) \<and> 32 \<le> length (to_base58 kc k) \<and>
      length (to_base58 kc k) \<le> 44 \<and> set (to_base58 kc k) \<subseteq> set base58_alphabet"
    by (simp only: to_base58_def)
  then show "b58_decode kc (to_base58 kc k) = Inr (as_bytes k)" "length (to_base58 kc k) \<noteq> 64"
    "\<forall>b \<in> set (to_base58 kc k). b \<in> set base58_alphabet" by auto
  from * have "0 < length (to_base58 kc k)" by linarith
  then show "to_base58 kc k \<noteq> []" by simp
qed

lemma trim_base58:
  assumes "key_codecs_correct kc" and "pubkey_ok k"
  shows "trim (to_base58 kc k) = to_base58 kc k"
  by (rule trim_all_visible) (use codecs_base58 [OF assms] base58_visible in auto)

lemma pubkey_from_base58:
  assumes "key_codecs_correct kc" and "pubkey_ok k"
  shows "pubkey_from_str kc (to_base58 kc k) = Inr k"
  using codecs_base58 [OF assms] assms(2)
  by (auto simp: pubkey_from_str_def trim_base58 [OF assms] from_base58_def from_slice_iff pubkey_ok_def)

lemma pubkey_from_hex:
  assumes "key_codecs_correct kc" and "pubkey_ok k"
  shows "pubkey_from_str kc (to_hex kc k) = Inr k"
proof -
  let ?s = "to_hex kc k"
  have s: "hex_decode kc ?s = Some (as_bytes k)" "length ?s = 64" "\<forall>b \<in> set ?s. is_ascii_hexdigit b"
    using assms by (simp_all add: key_codecs_correct_def to_hex_def pubkey_ok_def)
  then have "trim ?s = ?s" by (intro trim_all_visible) (auto simp: hexdigit_visible)
  with s assms(2) show ?thesis
    by (simp add: pubkey_from_str_def from_hex_def from_slice_iff list_all_iff pubkey_ok_def)
qed

lemma from_str_ok: "pubkey_from_str kc s = Inr k \<Longrightarrow> pubkey_ok k"
  by (auto simp: pubkey_from_str_def from_hex_def from_base58_def from_slice_iff pubkey_ok_def Let_def
      split: if_splits option.splits)

text \<open>A key reads back from either of its written forms, also with white space around it.\<close>

lemma pubkey_from_str_trim: "pubkey_from_str kc (trim s) = pubkey_from_str kc s"
  by (simp add: pubkey_from_str_def)

section \<open>An instance\<close>

text \<open>
  For the witnesses: base58 with a fixed width of 44 digits, and hexadecimal.
\<close>

fun digits_fixed :: "nat \<Rightarrow> nat \<Rightarrow> nat \<Rightarrow> nat list" where
  "digits_fixed radix 0 n = []"
| "digits_fixed radix (Suc k) n = digits_fixed radix k (n div radix) @ [n mod radix]"

lemma length_digits_fixed [simp]: "length (digits_fixed radix k n) = k"
  by (induction k arbitrary: n) auto

lemma num_val_fixed: "num_val radix (digits_fixed radix k n) = n mod radix ^ k"
proof (induction k arbitrary: n)
  case 0
  then show ?case by (simp add: num_val_def)
next
  case (Suc k)
  have "num_val radix (digits_fixed radix (Suc k) n) = (n div radix) mod radix ^ k * radix + n mod radix"
    by (simp add: Suc.IH)
  also have "\<dots> = n mod (radix * radix ^ k)" by (simp add: mod_mult2_eq mult.commute)
  finally show ?case by simp
qed

lemma digits_fixed_less: "0 < radix \<Longrightarrow> d \<in> set (digits_fixed radix k n) \<Longrightarrow> d < radix"
  by (induction k arbitrary: n) auto

definition alphabet_index :: "byte \<Rightarrow> nat" where
  "alphabet_index b = length (takeWhile (\<lambda>x. x \<noteq> b) base58_alphabet)"

lemma alphabet_length: "length base58_alphabet = 58"
  by (simp add: base58_alphabet_def lit_def)

lemma alphabet_distinct: "distinct base58_alphabet"
  by (simp add: base58_alphabet_def lit_def)

lemma alphabet_index: "d < 58 \<Longrightarrow> alphabet_index (base58_alphabet ! d) = d"
proof -
  assume d: "d < 58"
  let ?xs = "base58_alphabet"
  have "takeWhile (\<lambda>x. x \<noteq> ?xs ! d) ?xs = take d ?xs"
  proof (rule takeWhile_eq_take_P_nth)
    show "?xs ! i \<noteq> ?xs ! d" if "i < d" "i < length ?xs" for i
      using that d alphabet_distinct alphabet_length by (simp add: nth_eq_iff_index_eq)
  qed simp
  with d show ?thesis by (simp add: alphabet_index_def alphabet_length)
qed

fun unhex :: "rstring \<Rightarrow> bytes option" where
  "unhex [] = Some []"
| "unhex [_] = None"
| "unhex (h # l # s) =
     (case (to_digit 16 h, to_digit 16 l, unhex s) of
        (Some a, Some b, Some r) \<Rightarrow> Some (of_nat (16 * a + b) # r)
      | _ \<Rightarrow> None)"

definition toy_codecs :: key_codecs where
  "toy_codecs =
     \<lparr>b58_encode = (\<lambda>b. map (\<lambda>d. base58_alphabet ! d) (digits_fixed 58 44 (be_val b))),
      b58_decode = (\<lambda>s. Inr (be_bytes 32 (num_val 58 (map alphabet_index s)))),
      hex_encode = hex_seed, hex_decode = unhex\<rparr>"

lemma unhex_seed: "unhex (hex_seed b) = Some b"
proof (induction b)
  case Nil
  then show ?case by (simp add: hex_seed_def)
next
  case (Cons x b)
  have x: "unat x < 256" using unat_less_pow [of x] by simp
  then have "to_digit 16 (digit (unat x div 16)) = Some (unat x div 16)"
    "to_digit 16 (digit (unat x mod 16)) = Some (unat x mod 16)"
    by (auto intro!: to_digit_digit)
  with Cons show ?case by (simp add: hex_seed_def)
qed

lemma unhex_length: "unhex s = Some b \<Longrightarrow> length s = 2 * length b"
  by (induction s arbitrary: b rule: unhex.induct) (auto split: option.splits)

lemma hex_seed_digits: "x \<in> set (hex_seed b) \<Longrightarrow> is_ascii_hexdigit x"
proof -
  assume "x \<in> set (hex_seed b)"
  then have "\<exists>y :: byte. x = digit (unat y div 16) \<or> x = digit (unat y mod 16)"
    by (auto simp: hex_seed_def)
  then obtain y :: byte where "x = digit (unat y div 16) \<or> x = digit (unat y mod 16)" by (rule exE)
  moreover have "unat y div 16 < 16" using unat_less_pow [of y] by simp
  ultimately show ?thesis by (auto simp: is_ascii_hexdigit_def to_digit_digit)
qed

lemma length_hex_seed [simp]: "length (hex_seed b) = 2 * length b"
  by (induction b) (auto simp: hex_seed_def)

lemma toy_codecs_correct: "key_codecs_correct toy_codecs"
proof -
  have "be_bytes 32 (num_val 58 (map alphabet_index (map (\<lambda>d. base58_alphabet ! d) (digits_fixed 58 44 (be_val b))))) = b"
    if "length b = 32" for b
  proof -
    have "map alphabet_index (map (\<lambda>d. base58_alphabet ! d) (digits_fixed 58 44 (be_val b))) = digits_fixed 58 44 (be_val b)"
      by (simp add: map_idI alphabet_index digits_fixed_less)
    moreover have "be_val b < 58 ^ 44" using be_val_less [of b] that by simp
    ultimately show ?thesis using that be_bytes_be_val [of b] by (simp only: num_val_fixed mod_less)
  qed
  moreover have "base58_alphabet ! d \<in> set base58_alphabet" if "d \<in> set (digits_fixed 58 44 n)" for d n
    using digits_fixed_less [OF _ that] alphabet_length by simp
  ultimately show ?thesis
    by (auto simp: key_codecs_correct_def toy_codecs_def unhex_seed hex_seed_digits unhex_length)
qed

end
