(* ===== verification/Ip.thy ===== *)
theory Ip
  imports Text Records
begin

text \<open>
  IP addresses as text, as \<open>std::net\<close> reads and writes them: \<open>Ipv4Addr\<close>, \<open>Ipv6Addr\<close> and \<open>IpAddr\<close> with
  their \<open>FromStr\<close> and \<open>Display\<close>. An address is its octets in network order, as in \<open>Records\<close>; the readers
  follow the library's recursive-descent parser, which returns the value and the unread text.
\<close>

section \<open>Reading\<close>

fun read_digits :: "nat \<Rightarrow> rstring \<Rightarrow> nat list \<times> rstring" where
  "read_digits radix [] = ([], [])"
| "read_digits radix (b # s) =
     (case to_digit radix b of
        None \<Rightarrow> ([], b # s)
      | Some d \<Rightarrow> let (ds, r) = read_digits radix s in (d # ds, r))"

text \<open>At most \<open>m\<close> digits, a value up to \<open>most\<close>, and a leading zero only when allowed.\<close>

definition read_number :: "nat \<Rightarrow> nat \<Rightarrow> nat \<Rightarrow> bool \<Rightarrow> rstring \<Rightarrow> (nat \<times> rstring) option" where
  "read_number radix m most zero_prefix s =
     (let (ds, r) = read_digits radix s
      in if ds = [] \<or> m < length ds then None
         else if \<not> zero_prefix \<and> hd ds = 0 \<and> 1 < length ds then None
         else if num_val radix ds \<le> most then Some (num_val radix ds, r) else None)"

definition read_sep :: "byte \<Rightarrow> nat \<Rightarrow> (rstring \<Rightarrow> ('a \<times> rstring) option) \<Rightarrow> rstring \<Rightarrow> ('a \<times> rstring) option" where
  "read_sep c i inner s =
     (if i = 0 then inner s
      else case s of [] \<Rightarrow> None | b # r \<Rightarrow> if b = c then inner r else None)"

fun read_octets :: "nat \<Rightarrow> nat \<Rightarrow> rstring \<Rightarrow> (bytes \<times> rstring) option" where
  "read_octets 0 i s = Some ([], s)"
| "read_octets (Suc n) i s =
     (case read_sep (ch CHR ''.'') i (read_number 10 3 255 False) s of
        None \<Rightarrow> None
      | Some (v, r) \<Rightarrow>
        (case read_octets n (Suc i) r of
           None \<Rightarrow> None
         | Some (vs, r) \<Rightarrow> Some (of_nat v # vs, r)))"

abbreviation read_ipv4_addr :: "rstring \<Rightarrow> (bytes \<times> rstring) option" where
  "read_ipv4_addr \<equiv> read_octets 4 0"

text \<open>Up to \<open>n\<close> groups, the first of them number \<open>i\<close>; a dotted quad stands for the last two groups.\<close>

fun read_groups :: "nat \<Rightarrow> nat \<Rightarrow> rstring \<Rightarrow> u16 list \<times> bool \<times> rstring" where
  "read_groups 0 i s = ([], False, s)"
| "read_groups (Suc n) i s =
     (case (if 0 < n then read_sep (ch CHR '':'') i read_ipv4_addr s else None) of
        Some (a, r) \<Rightarrow> ([from_be_bytes (take 2 a), from_be_bytes (drop 2 a)], True, r)
      | None \<Rightarrow>
        (case read_sep (ch CHR '':'') i (read_number 16 4 65535 True) s of
           None \<Rightarrow> ([], False, s)
         | Some (g, r) \<Rightarrow> let (gs, v4, r) = read_groups n (Suc i) r in (of_nat g # gs, v4, r)))"

definition read_ipv6_groups :: "rstring \<Rightarrow> (u16 list \<times> rstring) option" where
  "read_ipv6_groups s =
     (let (head, v4, r) = read_groups 8 0 s
      in if length head = 8 then Some (head, r)
         else if v4 then None
         else case strip_prefix (lit ''::'') r of
                None \<Rightarrow> None
              | Some r \<Rightarrow>
                let (tail, _, r) = read_groups (8 - (length head + 1)) 0 r
                in Some (head @ replicate (8 - length head - length tail) 0 @ tail, r))"

definition read_ipv6_addr :: "rstring \<Rightarrow> (bytes \<times> rstring) option" where
  "read_ipv6_addr s = map_option (\<lambda>(gs, r). (concat (map to_be_bytes gs), r)) (read_ipv6_groups s)"

text \<open>\<open>parse_with\<close>: the whole text must be read.\<close>

definition whole :: "('a \<times> rstring) option \<Rightarrow> 'a option" where
  "whole p = (case p of Some (a, []) \<Rightarrow> Some a | _ \<Rightarrow> None)"

definition parse_ipv4 :: "rstring \<Rightarrow> bytes option" where
  "parse_ipv4 s = (if 15 < length s then None else whole (read_ipv4_addr s))"

definition parse_ipv6 :: "rstring \<Rightarrow> bytes option" where
  "parse_ipv6 s = whole (read_ipv6_addr s)"

definition read_ip_addr :: "rstring \<Rightarrow> (ip_addr \<times> rstring) option" where
  "read_ip_addr s =
     (case read_ipv4_addr s of
        Some (a, r) \<Rightarrow> Some (IpV4 a, r)
      | None \<Rightarrow> map_option (\<lambda>(a, r). (IpV6 a, r)) (read_ipv6_addr s))"

definition parse_ip :: "rstring \<Rightarrow> ip_addr option" where
  "parse_ip s = whole (read_ip_addr s)"

section \<open>Writing\<close>

fun join_with :: "byte \<Rightarrow> rstring list \<Rightarrow> rstring" where
  "join_with c [] = []"
| "join_with c [x] = x"
| "join_with c (x # y # xs) = x @ c # join_with c (y # xs)"

definition show_ipv4 :: "bytes \<Rightarrow> rstring" where
  "show_ipv4 a = join_with (ch CHR ''.'') (map (\<lambda>b. show_nat (unat b)) a)"

fun segments :: "bytes \<Rightarrow> u16 list" where
  "segments (a # b # r) = from_be_bytes [a, b] # segments r"
| "segments _ = []"

text \<open>The first of the longest runs of zero groups, as start and length.\<close>

fun longest_zeros :: "nat \<Rightarrow> nat \<times> nat \<Rightarrow> nat \<times> nat \<Rightarrow> u16 list \<Rightarrow> nat \<times> nat" where
  "longest_zeros i current longest [] = longest"
| "longest_zeros i current longest (g # gs) =
     (if g = 0
      then let current = (if snd current = 0 then i else fst current, snd current + 1);
               longest = (if snd longest < snd current then current else longest)
           in longest_zeros (Suc i) current longest gs
      else longest_zeros (Suc i) (0, 0) longest gs)"

definition show_groups :: "u16 list \<Rightarrow> rstring" where
  "show_groups gs = join_with (ch CHR '':'') (map (\<lambda>g. show_num 16 (unat g)) gs)"

definition show_ipv6 :: "bytes \<Rightarrow> rstring" where
  "show_ipv6 a =
     (if take 12 a = [0, 0, 0, 0, 0, 0, 0, 0, 0, 0, 0xFF, 0xFF]
      then lit ''::ffff:'' @ show_ipv4 (drop 12 a)
      else let gs = segments a; (start, len) = longest_zeros 0 (0, 0) (0, 0) gs
           in if 1 < len
              then show_groups (take start gs) @ lit ''::'' @ show_groups (drop (start + len) gs)
              else show_groups gs)"

fun show_ip :: "ip_addr \<Rightarrow> rstring" where
  "show_ip (IpV4 a) = show_ipv4 a"
| "show_ip (IpV6 a) = show_ipv6 a"

section \<open>What is written is read back\<close>

lemma read_digits_show:
  assumes "2 \<le> radix" "radix \<le> 16" and "\<forall>b r'. r = b # r' \<longrightarrow> to_digit radix b = None"
  obtains ds where "read_digits radix (show_num radix n @ r) = (ds, r)" "ds \<noteq> []" "num_val radix ds = n"
    "hd ds = 0 \<longrightarrow> length ds = 1" "length ds = length (show_num radix n)"
proof -
  obtain ds where ds: "show_num radix n = map digit ds" "\<forall>d \<in> set ds. d < radix" "ds \<noteq> []"
    "num_val radix ds = n" "hd ds = 0 \<longrightarrow> length ds = 1"
    using show_num_digits [OF assms(1,2), of n] by (elim exE conjE) (rule that)
  have "read_digits radix (map digit ds @ r) = (ds, r)"
    using ds(2)
  proof (induction ds)
    case Nil
    with assms(3) show ?case by (cases r) auto
  next
    case (Cons d ds)
    then show ?case using assms(2) by (simp add: to_digit_digit)
  qed
  with ds show thesis by (intro that) (auto simp: ds(1))
qed

lemma show_num_length:
  assumes "2 \<le> radix" and "n < radix ^ Suc k"
  shows "length (show_num radix n) \<le> Suc k"
  using assms(2)
proof (induction k arbitrary: n)
  case 0
  with assms show ?case by (subst show_num.simps) simp
next
  case (Suc k)
  show ?case
  proof (cases "n < radix")
    case True
    then show ?thesis by (subst show_num.simps) simp
  next
    case False
    have "n div radix < radix ^ Suc k"
      using Suc.prems assms by (simp add: less_mult_imp_div_less mult.commute)
    from Suc.IH [OF this] False assms show ?thesis by (subst show_num.simps) simp
  qed
qed

lemma read_number_show:
  assumes "2 \<le> radix" "radix \<le> 16" and "\<forall>b r'. r = b # r' \<longrightarrow> to_digit radix b = None"
    and "n < radix ^ Suc k" and "n \<le> most"
  shows "read_number radix (Suc k) most z (show_num radix n @ r) = Some (n, r)"
proof -
  obtain ds where "read_digits radix (show_num radix n @ r) = (ds, r)" "ds \<noteq> []" "num_val radix ds = n"
    "hd ds = 0 \<longrightarrow> length ds = 1" "length ds = length (show_num radix n)"
    using read_digits_show [OF assms(1-3)] by blast
  moreover have "length (show_num radix n) \<le> Suc k" by (rule show_num_length [OF assms(1,4)])
  ultimately show ?thesis using assms(5) by (auto simp: read_number_def)
qed

text \<open>The text ends, or goes on with something that is not a digit.\<close>

abbreviation ends_number :: "nat \<Rightarrow> rstring \<Rightarrow> bool" where
  "ends_number radix r \<equiv> (\<forall>b r'. r = b # r' \<longrightarrow> to_digit radix b = None)"

lemma to_digit_punct [simp]:
  "to_digit 10 46 = None" "to_digit 10 58 = None" "to_digit 16 58 = None"
  "to_digit 10 93 = None" "to_digit 16 93 = None" "to_digit 16 46 = None"
  by (simp_all add: to_digit_def Let_def)

lemma read_octets_show:
  assumes "ends_number 10 r"
  shows "read_octets (length a) i ((if i = 0 \<or> a = [] then [] else [ch CHR ''.'']) @ show_ipv4 a @ r) = Some (a, r)"
proof (induction a arbitrary: i)
  case Nil
  then show ?case by (simp add: show_ipv4_def)
next
  case (Cons b a)
  let ?rest = "(if a = [] then [] else [ch CHR ''.'']) @ show_ipv4 a @ r"
  have split: "show_ipv4 (b # a) @ r = show_nat (unat b) @ ?rest"
    by (cases a) (simp_all add: show_ipv4_def)
  have "unat b < 256" using unat_less_pow [of b] by simp
  then have "read_number 10 3 255 False (show_nat (unat b) @ ?rest) = Some (unat b, ?rest)"
    using assms read_number_show [of 10 ?rest "unat b" 2 255 False]
    by (auto simp: show_ipv4_def numeral_3_eq_3)
  then have "read_sep (ch CHR ''.'') i (read_number 10 3 255 False)
      ((if i = 0 \<or> b # a = [] then [] else [ch CHR ''.'']) @ show_ipv4 (b # a) @ r) = Some (unat b, ?rest)"
    by (simp add: read_sep_def split)
  with Cons.IH [of "Suc i"] show ?case by simp
qed

lemma read_ipv4_show:
  "length a = 4 \<Longrightarrow> ends_number 10 r \<Longrightarrow> read_ipv4_addr (show_ipv4 a @ r) = Some (a, r)"
  using read_octets_show [of r a 0] by simp

lemma show_octet_length: "length (show_nat (unat (b :: byte))) \<le> 3"
  using show_num_length [of 10 "unat b" 2] unat_less_pow [of b] by simp

theorem ipv4_roundtrip: "length a = 4 \<Longrightarrow> parse_ipv4 (show_ipv4 a) = Some a"
proof -
  assume len: "length a = 4"
  then obtain w x y z where a: "a = [w, x, y, z]"
    by (auto simp: numeral_eq_Suc length_Suc_conv)
  have "length (show_ipv4 a) \<le> 15"
    using show_octet_length [of w] show_octet_length [of x] show_octet_length [of y] show_octet_length [of z]
    by (simp add: a show_ipv4_def)
  with read_ipv4_show [OF len, of "[]"] show ?thesis by (simp add: parse_ipv4_def whole_def)
qed

lemma read_digits_suffix: "read_digits radix s = (ds, r) \<Longrightarrow> \<exists>p. s = p @ r"
proof (induction s arbitrary: ds r)
  case Nil
  then show ?case by simp
next
  case (Cons b s)
  show ?case
  proof (cases "to_digit radix b")
    case None
    with Cons.prems show ?thesis by simp
  next
    case (Some d)
    with Cons.prems have "read_digits radix s = (tl ds, r)" by (auto split: prod.splits)
    from Cons.IH [OF this] show ?thesis by (metis append_Cons)
  qed
qed

lemma read_number_suffix: "read_number radix m most z s = Some (v, r) \<Longrightarrow> \<exists>p. s = p @ r"
  by (auto simp: read_number_def Let_def split: prod.splits if_splits dest: read_digits_suffix)

lemma no_dots_no_ipv4: "46 \<notin> set s \<Longrightarrow> read_ipv4_addr s = None"
proof -
  assume dots: "46 \<notin> set s"
  show ?thesis
  proof (cases "read_number 10 3 255 False s")
    case None
    then show ?thesis by (simp add: numeral_eq_Suc read_sep_def)
  next
    case (Some vr)
    then obtain v r where vr: "vr = (v, r)" by (cases vr)
    from read_number_suffix [OF Some [unfolded vr]] dots have "46 \<notin> set r" by auto
    then have "read_sep 46 (Suc i) inner r = None" for i and inner :: "rstring \<Rightarrow> (nat \<times> rstring) option"
      by (cases r) (auto simp: read_sep_def)
    then show ?thesis using Some vr by (simp add: numeral_eq_Suc read_sep_def)
  qed
qed

lemma show_num_no_punct:
  "2 \<le> radix \<Longrightarrow> radix \<le> 16 \<Longrightarrow> b \<in> {46, 58, 47, 91, 93, 43} \<Longrightarrow> b \<notin> set (show_num radix n)"
  using digit_distinct by (auto dest!: show_num_set)

lemma show_groups_simps:
  "show_groups [] = []"
  "show_groups (g # gs) = show_num 16 (unat g) @ (if gs = [] then [] else 58 # show_groups gs)"
  by (simp add: show_groups_def) (cases gs; simp add: show_groups_def)

lemma show_groups_no_dots: "46 \<notin> set (show_groups gs)"
  by (induction gs) (auto simp: show_groups_simps show_num_no_punct)

abbreviation groups_text :: "nat \<Rightarrow> u16 list \<Rightarrow> rstring" where
  "groups_text i gs \<equiv> (if i = 0 \<or> gs = [] then [] else [58]) @ show_groups gs"

lemma read_number_none: "ends_number radix s \<Longrightarrow> read_number radix m most z s = None"
  by (cases s) (auto simp: read_number_def)

text \<open>What may follow a group: nothing, the run of zeros, or a closing bracket.\<close>

definition stops_groups :: "rstring \<Rightarrow> bool" where
  "stops_groups r \<longleftrightarrow> r = [] \<or> (\<exists>r'. r = 58 # 58 # r') \<or> (\<exists>r'. r = 93 # r')"

lemma read_groups_stop:
  assumes "stops_groups r" and "46 \<notin> set r"
  shows "read_groups n i r = ([], False, r)"
proof (cases n)
  case 0
  then show ?thesis by simp
next
  case (Suc m)
  have "read_sep 58 i (read_number 16 4 65535 True) r = None"
    using assms(1) by (auto simp: stops_groups_def read_sep_def read_number_none)
  moreover have "read_sep 58 i read_ipv4_addr r = None"
    using assms no_dots_no_ipv4 by (cases r) (auto simp: read_sep_def)
  ultimately show ?thesis by (simp add: Suc)
qed

lemma read_groups_show:
  assumes "stops_groups r" and "46 \<notin> set r" and "length gs \<le> n"
  shows "read_groups n i (groups_text i gs @ r) = (gs, False, r)"
  using assms(3)
proof (induction gs arbitrary: n i)
  case Nil
  then show ?case using read_groups_stop [OF assms(1,2)] by (simp add: show_groups_simps)
next
  case (Cons g gs)
  then obtain m where n: "n = Suc m" and m: "length gs \<le> m" by (cases n) auto
  let ?rest = "groups_text (Suc i) gs @ r"
  have written: "groups_text i (g # gs) @ r = (if i = 0 then [] else [58]) @ show_num 16 (unat g) @ ?rest"
    by (simp add: show_groups_simps)
  have dots: "46 \<notin> set (show_num 16 (unat g) @ ?rest)"
    using assms(2) by (simp add: show_groups_no_dots show_num_no_punct)
  have small: "unat g < 65536" using unat_less_pow [of g] by simp
  have "ends_number 16 ?rest" using assms(1) by (auto simp: stops_groups_def show_groups_simps)
  then have "read_number 16 4 65535 True (show_num 16 (unat g) @ ?rest) = Some (unat g, ?rest)"
    using read_number_show [of 16 ?rest "unat g" 3 65535 True] small by simp
  then have "read_sep 58 i (read_number 16 4 65535 True) (groups_text i (g # gs) @ r) = Some (unat g, ?rest)"
    unfolding written by (simp add: read_sep_def)
  moreover have "read_sep 58 i read_ipv4_addr (groups_text i (g # gs) @ r) = None"
    unfolding written using no_dots_no_ipv4 [OF dots] by (simp add: read_sep_def)
  moreover have "read_groups m (Suc i) ?rest = (gs, False, r)" by (rule Cons.IH [OF m])
  moreover have "gs \<noteq> [] \<Longrightarrow> 0 < m" using m by (cases gs) auto
  ultimately show ?case by (auto simp: n show_groups_simps)
qed

text \<open>The run of zeros that is left out.\<close>

definition zero_run :: "u16 list \<Rightarrow> nat \<times> nat \<Rightarrow> bool" where
  "zero_run gs p \<longleftrightarrow>
     fst p + snd p \<le> length gs \<and> gs = take (fst p) gs @ replicate (snd p) 0 @ drop (fst p + snd p) gs"

lemma zero_run_iff:
  "zero_run gs p \<longleftrightarrow> fst p + snd p \<le> length gs \<and> (\<forall>j < snd p. gs ! (fst p + j) = 0)"
proof -
  have "gs = take a gs @ replicate l 0 @ drop (a + l) gs \<longleftrightarrow> (\<forall>j < l. gs ! (a + j) = 0)"
    if "a + l \<le> length gs" for a l
  proof -
    have "gs = take a gs @ take l (drop a gs) @ drop (a + l) gs"
      by (metis add.commute append_take_drop_id drop_drop)
    moreover have "length (take l (drop a gs)) = l" using that by simp
    ultimately have "gs = take a gs @ replicate l 0 @ drop (a + l) gs \<longleftrightarrow> take l (drop a gs) = replicate l 0"
      by (metis append_eq_append_conv append_same_eq length_replicate same_append_eq)
    then show ?thesis using that by (auto simp: list_eq_iff_nth_eq)
  qed
  then show ?thesis by (auto simp: zero_run_def)
qed

lemma longest_zeros_run:
  assumes "zero_run (pre @ gs) longest"
    and "snd cur = 0 \<or> fst cur + snd cur = length pre \<and> zero_run (pre @ gs) cur"
  shows "zero_run (pre @ gs) (longest_zeros (length pre) cur longest gs)"
  using assms
proof (induction gs arbitrary: pre cur longest)
  case Nil
  then show ?case by simp
next
  case (Cons g gs)
  show ?case
  proof (cases "g = 0")
    case False
    with Cons.IH [of "pre @ [g]" longest "(0, 0)"] Cons.prems show ?thesis by simp
  next
    case True
    let ?cur = "(if snd cur = 0 then length pre else fst cur, snd cur + 1)"
    have "zero_run (pre @ g # gs) ?cur"
      using Cons.prems(2) True by (auto simp: zero_run_iff less_Suc_eq nth_append)
    moreover have "fst ?cur + snd ?cur = length (pre @ [g])" using Cons.prems(2) by auto
    ultimately have "zero_run (pre @ g # gs)
        (longest_zeros (Suc (length pre)) ?cur (if snd longest < snd ?cur then ?cur else longest) gs)"
      using Cons.IH [of "pre @ [g]" "if snd longest < snd ?cur then ?cur else longest" ?cur] Cons.prems(1)
      by simp
    then show ?thesis unfolding True longest_zeros.simps Let_def by (simp only: if_True simp_thms)
  qed
qed

lemma segments_bytes: "length a = 2 * n \<Longrightarrow> concat (map to_be_bytes (segments a)) = a \<and> length (segments a) = n"
proof (induction a arbitrary: n rule: segments.induct)
  case (1 x y r)
  then obtain m where "n = Suc m" "length r = 2 * m" by (cases n) auto
  with 1 show ?case by (simp add: to_from_be_bytes)
qed auto

text \<open>After an address: the end of the text or a closing bracket.\<close>

abbreviation after_ipv6 :: "rstring \<Rightarrow> bool" where
  "after_ipv6 q \<equiv> (q = [] \<or> (\<exists>r'. q = 93 # r')) \<and> 46 \<notin> set q"

lemma read_ipv6_groups_show:
  assumes "length gs = 8" and "zero_run gs (start, len)" and "after_ipv6 q"
  shows "read_ipv6_groups ((if 1 < len then show_groups (take start gs) @ lit ''::'' @ show_groups (drop (start + len) gs)
      else show_groups gs) @ q) = Some (gs, q)"
proof (cases "1 < len")
  have stops: "stops_groups q" and dots: "46 \<notin> set q" using assms(3) by (auto simp: stops_groups_def)
  case False
  then show ?thesis
    using read_groups_show [OF stops dots, of gs 8 0] assms(1) by (simp add: read_ipv6_groups_def)
next
  have stops: "stops_groups q" and dots: "46 \<notin> set q" using assms(3) by (auto simp: stops_groups_def)
  case True
  have run: "gs = take start gs @ replicate len 0 @ drop (start + len) gs" "start + len \<le> 8"
    using assms by (auto simp: zero_run_def)
  let ?r = "58 # 58 # show_groups (drop (start + len) gs) @ q"
  have "read_groups 8 0 (show_groups (take start gs) @ ?r) = (take start gs, False, ?r)"
    using read_groups_show [of ?r "take start gs" 8 0] assms(1,3) by (simp add: show_groups_no_dots stops_groups_def)
  moreover have "read_groups (7 - start) 0 (show_groups (drop (start + len) gs) @ q) = (drop (start + len) gs, False, q)"
    using read_groups_show [OF stops dots, of "drop (start + len) gs" "7 - start" 0] assms(1) run(2) True
    by simp
  moreover have "8 - start - (8 - (start + len)) = len" using run(2) by simp
  ultimately show ?thesis
    using True run assms(1) by (simp add: read_ipv6_groups_def lit_def)
qed

lemma mapped_groups:
  assumes "length d = 4" and "ends_number 10 r"
  shows "read_ipv6_groups (lit ''::ffff:'' @ show_ipv4 d @ r) =
    Some ([0, 0, 0, 0, 0, 0xFFFF, from_be_bytes (take 2 d), from_be_bytes (drop 2 d)], r)"
proof -
  let ?q = "58 # show_ipv4 d @ r"
  have l: "lit ''::ffff:'' @ show_ipv4 d @ r = 58 # 58 # show_num 16 65535 @ ?q"
    by (simp add: lit_def show_num.simps digit_def)
  have head: "read_groups 8 0 (58 # 58 # show_num 16 65535 @ ?q) = ([], False, 58 # 58 # show_num 16 65535 @ ?q)"
  proof -
    have none: "read_number radix m most z (58 # s) = None" if "radix \<in> {10, 16}" for radix m most z s
      using that by (auto intro: read_number_none)
    have "read_octets (Suc 3) 0 (58 # s) = None" for s
      by (simp only: read_octets.simps read_sep_def) (simp add: none)
    then have "read_groups (Suc 7) 0 (58 # s) = ([], False, 58 # s)" for s
      by (simp only: read_groups.simps read_sep_def) (simp add: none)
    then show ?thesis by simp
  qed
  have no_quad: "read_ipv4_addr (show_num 16 65535 @ ?q) = None"
  proof -
    have "ends_number 10 (show_num 16 65535 @ ?q)" by (simp add: show_num.simps digit_def to_digit_def Let_def)
    from read_number_none [OF this, of 3 255 False] have "read_octets (Suc 3) 0 (show_num 16 65535 @ ?q) = None"
      by (simp only: read_octets.simps read_sep_def) simp
    then show ?thesis by simp
  qed
  have num: "read_number 16 4 65535 True (show_num 16 65535 @ ?q) = Some (65535, ?q)"
    using read_number_show [of 16 ?q 65535 3 65535 True] by simp
  have quad: "read_groups 6 1 ?q = ([from_be_bytes (take 2 d), from_be_bytes (drop 2 d)], True, r)"
  proof -
    have "read_groups (Suc 5) 1 ?q = ([from_be_bytes (take 2 d), from_be_bytes (drop 2 d)], True, r)"
      unfolding read_groups.simps using read_ipv4_show [OF assms] by (simp add: read_sep_def)
    then show ?thesis by simp
  qed
  have "read_groups 7 0 (show_num 16 65535 @ ?q) =
      ([0xFFFF, from_be_bytes (take 2 d), from_be_bytes (drop 2 d)], True, r)"
  proof -
    have "(7::nat) = Suc 6" by simp
    moreover have "read_groups (Suc 6) 0 (show_num 16 65535 @ ?q) =
        ([0xFFFF, from_be_bytes (take 2 d), from_be_bytes (drop 2 d)], True, r)"
      unfolding read_groups.simps using no_quad num quad by (simp add: read_sep_def)
    ultimately show ?thesis by simp
  qed
  moreover have "replicate (8 - 0 - 3) (0 :: u16) = [0, 0, 0, 0, 0]" by (simp add: numeral_eq_Suc)
  ultimately show ?thesis
    using head unfolding l by (simp add: read_ipv6_groups_def lit_def)
qed

lemma read_ipv6_show:
  assumes len: "length a = 16" and q: "after_ipv6 q"
  shows "read_ipv6_addr (show_ipv6 a @ q) = Some (a, q)"
proof (cases "take 12 a = [0, 0, 0, 0, 0, 0, 0, 0, 0, 0, 0xFF, 0xFF]")
  case True
  have d: "length (drop 12 a) = 4" using len by simp
  have e: "ends_number 10 q" using q by auto
  have zeros: "to_be_bytes (0 :: u16) = [0, 0]" "to_be_bytes (0xFFFF :: u16) = [0xFF, 0xFF]"
  proof -
    have "be_bytes 2 0 = [0, 0]" "be_bytes 2 65535 = [0xFF, 0xFF]" by (simp_all add: numeral_2_eq_2)
    then show "to_be_bytes (0 :: u16) = [0, 0]" "to_be_bytes (0xFFFF :: u16) = [0xFF, 0xFF]"
      by (simp_all add: to_be_bytes_def)
  qed
  have "concat (map to_be_bytes [0, 0, 0, 0, 0, 0xFFFF, from_be_bytes (take 2 (drop 12 a)), from_be_bytes (drop 2 (drop 12 a)) :: u16]) =
      take 12 a @ take 2 (drop 12 a) @ drop 2 (drop 12 a)"
    using len zeros by (simp add: to_from_be_bytes True)
  also have "\<dots> = a" by (metis append_take_drop_id)
  finally show ?thesis
    using mapped_groups [OF d e] True by (simp add: read_ipv6_addr_def show_ipv6_def)
next
  case False
  let ?gs = "segments a"
  obtain start ln where z: "longest_zeros 0 (0, 0) (0, 0) ?gs = (start, ln)" by fastforce
  have gs: "concat (map to_be_bytes ?gs) = a" "length ?gs = 8" using segments_bytes [of a 8] len by auto
  have "zero_run ?gs (start, ln)"
    using longest_zeros_run [of "[]" ?gs "(0, 0)" "(0, 0)"] z by (simp add: zero_run_iff)
  from read_ipv6_groups_show [OF gs(2) this q] False gs(1) z show ?thesis
    by (simp add: read_ipv6_addr_def show_ipv6_def Let_def)
qed

theorem ipv6_roundtrip: "length a = 16 \<Longrightarrow> parse_ipv6 (show_ipv6 a) = Some a"
  using read_ipv6_show [of a "[]"] by (simp add: parse_ipv6_def whole_def)

text \<open>What is not an address of the other kind.\<close>

lemma ipv6_not_ipv4:
  assumes "length a = 16"
  shows "read_ipv4_addr (show_ipv6 a) = None"
proof (cases "take 12 a = [0, 0, 0, 0, 0, 0, 0, 0, 0, 0, 0xFF, 0xFF]")
  case True
  have "read_number 10 3 255 False (58 # s) = None" for s by (rule read_number_none) simp
  then have "read_octets (Suc 3) 0 (58 # s) = None" for s by (simp only: read_octets.simps read_sep_def) simp
  then have "read_ipv4_addr (58 # s) = None" for s by simp
  with True show ?thesis by (simp add: show_ipv6_def lit_def)
next
  case False
  have "46 \<notin> set (show_ipv6 a)"
    using False by (auto simp: show_ipv6_def lit_def show_groups_no_dots Let_def split: prod.splits)
  then show ?thesis by (rule no_dots_no_ipv4)
qed

lemma parse_ip_v4: "length a = 4 \<Longrightarrow> parse_ip (show_ipv4 a) = Some (IpV4 a)"
  using read_ipv4_show [of a "[]"] by (simp add: parse_ip_def read_ip_addr_def whole_def)

lemma parse_ip_v6: "length a = 16 \<Longrightarrow> parse_ip (show_ipv6 a) = Some (IpV6 a)"
  using read_ipv6_show [of a "[]"] by (simp add: parse_ip_def read_ip_addr_def ipv6_not_ipv4 whole_def)

end
