(* ===== verification/Addr.thy ===== *)
theory Addr
  imports Key_Text Ip
begin

text \<open>
  Server addresses (\<open>crates/sqns-core/src/addr.rs\<close>) and the textual form of hosts and endpoints
  (\<open>FromStr\<close> and \<open>Display\<close> of \<open>record.rs\<close>): \<open>scheme://host:port/key\<close>, with the port left out when it is
  the default one and IPv6 literals in brackets.
\<close>

section \<open>Addresses\<close>

definition DEFAULT_PORT :: u16 where "DEFAULT_PORT = 5300"

datatype scheme = Sqc | Sqns

fun scheme_prefix :: "scheme \<Rightarrow> rstring" where
  "scheme_prefix Sqc = lit ''sqc://''"
| "scheme_prefix Sqns = lit ''sqns://''"

definition requires_dnssec :: "scheme \<Rightarrow> bool" where
  "requires_dnssec s \<longleftrightarrow> s = Sqns"

record server_addr =
  ad_scheme :: scheme
  ad_host :: rstring
  ad_port :: u16
  ad_key :: pubkey

definition addr_new :: "rstring \<Rightarrow> u16 \<Rightarrow> pubkey \<Rightarrow> server_addr" where
  "addr_new host port key = \<lparr>ad_scheme = Sqc, ad_host = host, ad_port = port, ad_key = key\<rparr>"

definition new_sqns :: "rstring \<Rightarrow> u16 \<Rightarrow> pubkey \<Rightarrow> server_addr" where
  "new_sqns host port key = \<lparr>ad_scheme = Sqns, ad_host = host, ad_port = port, ad_key = key\<rparr>"

definition is_ip_literal :: "server_addr \<Rightarrow> bool" where
  "is_ip_literal a \<longleftrightarrow> parse_ip (ad_host a) \<noteq> None"

definition addr_authority :: "server_addr \<Rightarrow> rstring" where
  "addr_authority a =
     (if ch CHR '':'' \<in> set (ad_host a)
      then lit ''['' @ ad_host a @ lit '']:'' @ show_nat (unat (ad_port a))
      else ad_host a @ lit '':'' @ show_nat (unat (ad_port a)))"

definition written_authority :: "server_addr \<Rightarrow> rstring" where
  "written_authority a =
     (if ad_port a \<noteq> DEFAULT_PORT then addr_authority a
      else if ch CHR '':'' \<in> set (ad_host a) then lit ''['' @ ad_host a @ lit '']''
      else ad_host a)"

definition show_addr :: "key_codecs \<Rightarrow> server_addr \<Rightarrow> rstring" where
  "show_addr kc a = scheme_prefix (ad_scheme a) @ written_authority a @ lit ''/'' @ to_base58 kc (ad_key a)"

definition parse_port :: "rstring \<Rightarrow> u16 res" where
  "parse_port s =
     (case parse_u16 s of None \<Rightarrow> Inl (E_Address (Msg ''invalid port '' [] [s])) | Some p \<Rightarrow> Inr p)"

definition split_authority :: "rstring \<Rightarrow> (rstring \<times> u16) res" where
  "split_authority authority =
     (if authority = [] then Inl (E_Address (plain ''empty host''))
      else case strip_prefix (lit ''['') authority of
        Some r \<Rightarrow>
          (case split_once (ch CHR '']'') r of
             None \<Rightarrow> Inl (E_Address (Msg ''unclosed bracket in '' [] [authority]))
           | Some (host, tail) \<Rightarrow>
               (case strip_prefix (lit '':'') tail of
                  Some p \<Rightarrow> rbind (parse_port p) (\<lambda>port. Inr (host, port))
                | None \<Rightarrow> Inr (host, DEFAULT_PORT)))
      | None \<Rightarrow>
          if 1 < count_list authority (ch CHR '':'') then Inr (authority, DEFAULT_PORT)
          else case split_once (ch CHR '':'') authority of
                 Some (host, p) \<Rightarrow> rbind (parse_port p) (\<lambda>port. Inr (host, port))
               | None \<Rightarrow> Inr (authority, DEFAULT_PORT))"

definition addr_from_str :: "key_codecs \<Rightarrow> rstring \<Rightarrow> server_addr res" where
  "addr_from_str kc s =
     (let trimmed = trim s;
          (scheme, r) =
            (case strip_prefix (lit ''sqns://'') trimmed of
               Some r \<Rightarrow> (Sqns, r)
             | None \<Rightarrow> (Sqc, case strip_prefix (lit ''sqc://'') trimmed of Some r \<Rightarrow> r | None \<Rightarrow> trimmed))
      in case split_once (ch CHR ''/'') r of
           None \<Rightarrow> Inl (E_Address (Msg ''missing key in '' [] [s]))
         | Some (authority, key_str) \<Rightarrow>
             if key_str = [] then Inl (E_Address (Msg ''no server key in '' [] [s]))
             else case pubkey_from_str kc key_str of
                    Inl e \<Rightarrow> Inl (E_Address (Msg ''bad server key in '' [] [s]))
                  | Inr key \<Rightarrow>
                      rbind (split_authority authority) (\<lambda>(host, port).
                        Inr \<lparr>ad_scheme = scheme, ad_host = host, ad_port = port, ad_key = key\<rparr>))"

section \<open>Hosts and endpoints\<close>

fun show_host :: "host \<Rightarrow> rstring" where
  "show_host (V4 a) = show_ipv4 a"
| "show_host (V6 a) = lit ''['' @ show_ipv6 a @ lit '']''"
| "show_host (Name n) = n"

text \<open>\<open>s.chars().any(|c| c.is_whitespace() || c == '/' || c == ':')\<close> on UTF-8.\<close>

fun bad_host_char :: "rstring \<Rightarrow> bool" where
  "bad_host_char [] \<longleftrightarrow> False"
| "bad_host_char (b # s) \<longleftrightarrow>
     starts_blank (b # s) \<noteq> None \<or> b = ch CHR ''/'' \<or> b = ch CHR '':'' \<or> bad_host_char s"

definition host_from_str :: "rstring \<Rightarrow> host res" where
  "host_from_str text =
     (let s = trim text
      in case Option.bind (strip_prefix (lit ''['') s) (strip_suffix (lit '']'')) of
           Some inner \<Rightarrow>
             (case parse_ipv6 inner of
                Some a \<Rightarrow> Inr (V6 a)
              | None \<Rightarrow> Inl (E_Record (Msg ''bad IPv6 literal '' [] [inner])))
         | None \<Rightarrow>
           (case parse_ipv4 s of
              Some a \<Rightarrow> Inr (V4 a)
            | None \<Rightarrow>
              (case parse_ipv6 s of
                 Some a \<Rightarrow> Inr (V6 a)
               | None \<Rightarrow>
                   if s = [] \<or> 255 < length s
                   then Inl (E_Record (Msg ''host name must be 1..=255 bytes, got {}'' [length s] []))
                   else if bad_host_char s then Inl (E_Record (Msg ''invalid host name '' [] [s]))
                   else Inr (Name s))))"

definition endpoint_authority :: "endpoint \<Rightarrow> rstring" where
  "endpoint_authority e = show_host (ep_host e) @ lit '':'' @ show_nat (unat (ep_port e))"

definition show_endpoint :: "endpoint \<Rightarrow> rstring" where
  "show_endpoint e =
     endpoint_authority e @ lit '' priority='' @ show_nat (unat (ep_priority e)) @
     lit '' weight='' @ show_nat (unat (ep_weight e))"

definition endpoint_option :: "rstring \<Rightarrow> endpoint \<Rightarrow> endpoint res" where
  "endpoint_option text ep =
     (let opt = trim text
      in if opt = [] then Inr ep
         else case split_once (ch CHR ''='') opt of
                None \<Rightarrow> Inl (E_Record (Msg ''expected key=value, got '' [] [opt]))
              | Some (name, value) \<Rightarrow>
                  (case parse_u16 (trim value) of
                     None \<Rightarrow> Inl (E_Record (Msg ''not a 0..=65535 value: '' [] [value]))
                   | Some parsed \<Rightarrow>
                       if trim name \<in> set [lit ''priority'', lit ''prio'', lit ''p''] then Inr (ep\<lparr>ep_priority := parsed\<rparr>)
                       else if trim name \<in> set [lit ''weight'', lit ''w''] then Inr (ep\<lparr>ep_weight := parsed\<rparr>)
                       else Inl (E_Record (Msg ''unknown endpoint option '' [] [trim name]))))"

fun endpoint_options :: "rstring list \<Rightarrow> endpoint \<Rightarrow> endpoint res" where
  "endpoint_options [] ep = Inr ep"
| "endpoint_options (opt # opts) ep = rbind (endpoint_option opt ep) (endpoint_options opts)"

text \<open>\<open>split\<close> yields at least one piece, so the branch for an empty iterator is never taken.\<close>

definition endpoint_from_str :: "rstring \<Rightarrow> endpoint res" where
  "endpoint_from_str s =
     (case split_on (ch CHR '','') s of
        [] \<Rightarrow> Inl (E_Record (Msg ''empty endpoint '' [] [s]))
      | authority # parts \<Rightarrow>
          (case split_authority (trim authority) of
             Inl _ \<Rightarrow> Inl (E_Record (Msg ''bad endpoint '' [] [s]))
           | Inr (host_str, port) \<Rightarrow>
               rbind (host_from_str host_str) (\<lambda>host. endpoint_options parts (endpoint_new host port))))"

section \<open>Authorities\<close>

text \<open>The hosts whose written form is unambiguous.\<close>

definition host_text_ok :: "rstring \<Rightarrow> u16 \<Rightarrow> bool" where
  "host_text_ok host port \<longleftrightarrow>
     (if 58 \<in> set host then 93 \<notin> set host
      else \<not> (\<exists>r. host = 91 # r) \<and> (host \<noteq> [] \<or> port \<noteq> DEFAULT_PORT))"

lemma parse_port_show: "parse_port (show_nat (unat p)) = Inr p"
  by (simp add: parse_port_def parse_show_u16)

lemma lit_punct [simp]: "lit ''['' = [91]" "lit '']'' = [93]" "lit '':'' = [58]" "lit '']:'' = [93, 58]" "lit ''/'' = [47]"
  by (simp_all add: lit_def)

lemma split_bracketed:
  "93 \<notin> set host \<Longrightarrow> split_once 93 (host @ 93 # r) = Some (host, r)"
  by (simp add: split_once_iff)

lemma strip_one [simp]:
  "strip_prefix [c] (b # s) = (if c = b then Some s else None)" "strip_prefix [c] [] = None"
  by simp_all

lemma split_authority_unbracketed:
  "s \<noteq> [] \<Longrightarrow> \<not> (\<exists>r. s = 91 # r) \<Longrightarrow>
   split_authority s =
     (if 1 < count_list s 58 then Inr (s, DEFAULT_PORT)
      else case split_once 58 s of
             Some (host, p) \<Rightarrow> rbind (parse_port p) (\<lambda>port. Inr (host, port))
           | None \<Rightarrow> Inr (s, DEFAULT_PORT))"
  by (cases s) (auto simp: split_authority_def)

lemma show_nat_no_colon: "count_list (show_nat n) 58 = 0"
  by (simp add: count_list_0_iff show_num_no_punct)

lemma split_host_port:
  assumes "58 \<notin> set h" and "\<And>r. h \<noteq> 91 # r"
  shows "split_authority (h @ 58 # show_nat (unat p)) = Inr (h, p)"
proof -
  let ?s = "h @ 58 # show_nat (unat p)"
  have "\<not> (\<exists>r. ?s = 91 # r)" using assms(2) by (cases h) auto
  moreover have "split_once 58 ?s = Some (h, show_nat (unat p))" using assms(1) by (simp add: split_once_iff)
  moreover have "count_list ?s 58 = 1" using assms(1) by (simp add: show_nat_no_colon count_list_0_iff)
  ultimately show ?thesis by (subst split_authority_unbracketed) (simp_all add: parse_port_show)
qed

lemma split_written_authority:
  assumes "host_text_ok (ad_host a) (ad_port a)"
  shows "split_authority (written_authority a) = Inr (ad_host a, ad_port a)"
proof (cases "58 \<in> set (ad_host a)")
  case True
  with assms have "93 \<notin> set (ad_host a)" by (simp add: host_text_ok_def)
  with True show ?thesis
    by (simp add: written_authority_def addr_authority_def split_authority_def split_bracketed parse_port_show)
next
  case False
  with assms have h: "\<not> (\<exists>r. ad_host a = 91 # r)" "ad_host a \<noteq> [] \<or> ad_port a \<noteq> DEFAULT_PORT"
    by (auto simp: host_text_ok_def)
  show ?thesis
  proof (cases "ad_port a = DEFAULT_PORT")
    case True
    have "split_once 58 (ad_host a) = None" using False by (simp add: split_once_None_iff)
    with True False h show ?thesis
      by (simp add: written_authority_def split_authority_unbracketed count_list_0_iff)
  next
    case port: False
    have "split_authority (ad_host a @ 58 # show_nat (unat (ad_port a))) = Inr (ad_host a, ad_port a)"
      using split_host_port [OF False] h(1) by blast
    with port False show ?thesis by (simp add: written_authority_def addr_authority_def)
  qed
qed

lemma addr_from_parts:
  assumes "key_codecs_correct kc" and "pubkey_ok k" and "47 \<notin> set auth" and "split_authority auth = Inr (h, p)"
  shows "addr_from_str kc (scheme_prefix sc @ auth @ 47 # to_base58 kc k) =
    Inr \<lparr>ad_scheme = sc, ad_host = h, ad_port = p, ad_key = k\<rparr>"
proof -
  let ?k = "to_base58 kc k" and ?s = "scheme_prefix sc @ auth @ 47 # to_base58 kc k"
  have key: "?k \<noteq> []" and vis: "visible (last ?k)"
    using codecs_base58 [OF assms(1,2)] base58_visible by (auto simp: last_in_set)
  have trim: "trim ?s = ?s"
  proof (rule trim_visible)
    show "visible (hd ?s)" by (cases sc) (simp_all add: lit_def visible_def)
  qed (use key vis in simp_all)
  have split: "split_once 47 (auth @ 47 # ?k) = Some (auth, ?k)" using assms(3) by (simp add: split_once_iff)
  have "(case strip_prefix (lit ''sqns://'') ?s of
         Some r \<Rightarrow> (Sqns, r)
       | None \<Rightarrow> (Sqc, case strip_prefix (lit ''sqc://'') ?s of Some r \<Rightarrow> r | None \<Rightarrow> ?s)) = (sc, auth @ 47 # ?k)"
    by (cases sc) (simp_all add: lit_def)
  then show ?thesis
    using split key pubkey_from_base58 [OF assms(1,2)] assms(4) by (simp add: addr_from_str_def trim)
qed

lemma addr_from_show:
  assumes "key_codecs_correct kc" and "pubkey_ok (ad_key a)"
    and "47 \<notin> set (ad_host a)" and "host_text_ok (ad_host a) (ad_port a)"
  shows "addr_from_str kc (show_addr kc a) = Inr a"
proof -
  have "47 \<notin> set (written_authority a)"
    using assms(3) by (simp add: written_authority_def addr_authority_def show_num_no_punct)
  from addr_from_parts [OF assms(1,2) this split_written_authority [OF assms(4)], of "ad_scheme a"]
  show ?thesis by (simp add: show_addr_def)
qed

text \<open>
  C33. An address survives being written and read: a host without a slash, and written unambiguously,
  comes back together with its scheme, port and key. The scheme in particular is kept, so writing an
  address never turns one that demands DNSSEC into one that does not.
\<close>

theorem addr_roundtrip:
  assumes "key_codecs_correct kc" and "pubkey_ok (ad_key a)"
    and "47 \<notin> set (ad_host a)" and "host_text_ok (ad_host a) (ad_port a)"
  shows "addr_from_str kc (show_addr kc a) = Inr a"
  using assms by (rule addr_from_show)

theorem addr_roundtrip_witness:
  "addr_from_str toy_codecs (show_addr toy_codecs (new_sqns (lit ''ns.example.com'') 5301 (PubKey (replicate 32 7)))) =
     Inr (new_sqns (lit ''ns.example.com'') 5301 (PubKey (replicate 32 7)))"
  by (rule addr_roundtrip [OF toy_codecs_correct])
    (simp_all add: new_sqns_def pubkey_ok_def host_text_ok_def lit_def)

text \<open>
  After a bracketed host only a text that begins with a colon is read as a port; anything else there
  is dropped without an error and the default port is used.
\<close>

theorem bracket_tail_ignored:
  assumes "93 \<notin> set host" and "\<not> (\<exists>r. tail = 58 # r)"
  shows "split_authority (91 # host @ 93 # tail) = Inr (host, DEFAULT_PORT)"
  using assms by (cases tail) (simp_all add: split_authority_def split_bracketed)

theorem bracket_tail_ignored_witness:
  "split_authority (lit ''[::1]5301'') = Inr (lit ''::1'', DEFAULT_PORT)"
  using bracket_tail_ignored [of "lit ''::1''" "lit ''5301''"] by (simp add: lit_def)

section \<open>Hosts read back\<close>

lemma read_digits_prefix:
  "read_digits radix s = (ds, r) \<Longrightarrow> \<exists>p. s = p @ r \<and> (\<forall>b \<in> set p. to_digit radix b \<noteq> None)"
proof (induction s arbitrary: ds r)
  case Nil
  then show ?case by simp
next
  case (Cons b s)
  show ?case
  proof (cases "to_digit radix b")
    case None
    with Cons.prems show ?thesis by simp
  next
    case (Some d)
    with Cons.prems have "read_digits radix s = (tl ds, r)" by (auto split: prod.splits)
    from Cons.IH [OF this] Some show ?thesis by (metis append_Cons option.distinct(1) set_ConsD)
  qed
qed

lemma read_number_prefix:
  "read_number radix m most z s = Some (v, r) \<Longrightarrow> \<exists>p. s = p @ r \<and> (\<forall>b \<in> set p. to_digit radix b \<noteq> None)"
  by (auto simp: read_number_def Let_def split: prod.splits if_splits dest: read_digits_prefix)

lemma read_octets_prefix:
  "read_octets n i s = Some (a, r) \<Longrightarrow> \<exists>p. s = p @ r \<and> (\<forall>b \<in> set p. b = 46 \<or> to_digit 10 b \<noteq> None)"
proof (induction n arbitrary: i s a r)
  case 0
  then show ?case by simp
next
  case (Suc n)
  from Suc.prems obtain v s1 vs where 1: "read_sep 46 i (read_number 10 3 255 False) s = Some (v, s1)"
    and 2: "read_octets n (Suc i) s1 = Some (vs, r)"
    by (auto split: option.splits)
  from Suc.IH [OF 2] obtain p2 where p2: "s1 = p2 @ r" "\<forall>b \<in> set p2. b = 46 \<or> to_digit 10 b \<noteq> None" by blast
  from 1 obtain s0 where s0: "s = (if i = 0 then [] else [46]) @ s0" "read_number 10 3 255 False s0 = Some (v, s1)"
    by (auto simp: read_sep_def split: if_splits list.splits)
  from read_number_prefix [OF s0(2)] obtain p1 where p1: "s0 = p1 @ s1" "\<forall>b \<in> set p1. to_digit 10 b \<noteq> None" by blast
  show ?case
    by (rule exI [of _ "(if i = 0 then [] else [46]) @ p1 @ p2"]) (use s0(1) p1 p2 in auto)
qed

lemma parse_ipv4_chars: "parse_ipv4 s = Some a \<Longrightarrow> \<forall>b \<in> set s. b = 46 \<or> to_digit 10 b \<noteq> None"
  by (auto simp: parse_ipv4_def whole_def split: if_splits option.splits prod.splits list.splits
      dest!: read_octets_prefix)

lemma parse_ipv4_no_colon: "58 \<in> set s \<Longrightarrow> parse_ipv4 s = None"
  using parse_ipv4_chars [of s] by (cases "parse_ipv4 s") auto

text \<open>The characters an address literal is written with.\<close>

lemma show_num_visible: "2 \<le> radix \<Longrightarrow> radix \<le> 16 \<Longrightarrow> b \<in> set (show_num radix n) \<Longrightarrow> visible b"
  using digit_visible by (auto dest!: show_num_set)

lemma join_with_set: "set (join_with c xs) \<subseteq> insert c (\<Union> (set ` set xs))"
  by (induction c xs rule: join_with.induct) auto

definition literal_char :: "byte \<Rightarrow> bool" where
  "literal_char b \<longleftrightarrow> visible b \<and> b \<notin> {44, 47, 91, 93}"

lemma digit_literal: "d < 16 \<Longrightarrow> literal_char (digit d)"
proof -
  assume d: "d < 16"
  then have "digit d \<noteq> 44" by (auto dest!: arg_cong [of _ _ unat] simp: unat_digit split: if_splits)
  with d digit_distinct [OF d] digit_visible [OF d] show ?thesis by (simp add: literal_char_def)
qed

lemma show_ipv4_literal: "b \<in> set (show_ipv4 a) \<Longrightarrow> literal_char b \<and> b \<noteq> 58"
proof -
  assume "b \<in> set (show_ipv4 a)"
  then have "b = 46 \<or> (\<exists>n. b \<in> set (show_nat n))"
    using join_with_set [of 46 "map (\<lambda>b. show_nat (unat b)) a"] by (auto simp: show_ipv4_def)
  then show ?thesis
    using digit_literal digit_distinct(2) by (auto simp: literal_char_def visible_def dest!: show_num_set)
qed

lemma show_groups_literal: "b \<in> set (show_groups gs) \<Longrightarrow> literal_char b"
proof -
  assume "b \<in> set (show_groups gs)"
  then have "b = 58 \<or> (\<exists>n. b \<in> set (show_num 16 n))"
    using join_with_set [of 58 "map (\<lambda>g. show_num 16 (unat g)) gs"] by (auto simp: show_groups_def)
  then show ?thesis using digit_literal by (auto simp: literal_char_def visible_def dest!: show_num_set)
qed

lemma show_ipv6_literal: "b \<in> set (show_ipv6 a) \<Longrightarrow> literal_char b"
  by (auto simp: show_ipv6_def lit_def literal_char_def visible_def Let_def split: prod.splits if_splits
      dest: show_ipv4_literal show_groups_literal)

lemma show_ipv6_colon:
  assumes "length a = 16"
  shows "58 \<in> set (show_ipv6 a)"
proof -
  have "length (segments a) = 8" using segments_bytes [of a 8] assms by simp
  then obtain g h gs where "segments a = g # h # gs" by (auto simp: numeral_eq_Suc length_Suc_conv)
  moreover have "58 \<in> set (show_groups (g # h # gs))" by (simp add: show_groups_simps)
  ultimately show ?thesis by (simp add: show_ipv6_def lit_def Let_def case_prod_unfold del: longest_zeros.simps)
qed

lemma trim_literal: "\<forall>b \<in> set s. literal_char b \<Longrightarrow> trim s = s"
  by (cases "s = []") (auto simp: literal_char_def intro: trim_all_visible)

lemma strip_bracket_literal:
  "\<forall>b \<in> set s. literal_char b \<Longrightarrow> Option.bind (strip_prefix [91] s) (strip_suffix [93]) = None"
  by (cases s) (auto simp: literal_char_def)

lemma host_from_ipv4: "length a = 4 \<Longrightarrow> host_from_str (show_ipv4 a) = Inr (V4 a)"
  using show_ipv4_literal
  by (simp add: host_from_str_def trim_literal strip_bracket_literal ipv4_roundtrip)

lemma host_from_ipv6_bare: "length a = 16 \<Longrightarrow> host_from_str (show_ipv6 a) = Inr (V6 a)"
  using show_ipv6_literal show_ipv6_colon
  by (simp add: host_from_str_def trim_literal strip_bracket_literal parse_ipv4_no_colon ipv6_roundtrip)

lemma host_from_ipv6: "length a = 16 \<Longrightarrow> host_from_str (91 # show_ipv6 a @ [93]) = Inr (V6 a)"
proof -
  assume "length a = 16"
  moreover have "trim (91 # show_ipv6 a @ [93]) = 91 # show_ipv6 a @ [93]"
    by (rule trim_visible) (simp_all add: visible_def)
  moreover have "strip_suffix [93] (show_ipv6 a @ [93]) = Some (show_ipv6 a)" by (rule strip_suffix_append)
  ultimately show ?thesis by (simp add: host_from_str_def ipv6_roundtrip)
qed

text \<open>The hosts that can be written down: literals of the right length, names the parser takes as names.\<close>

definition host_ok_text :: "host \<Rightarrow> bool" where
  "host_ok_text h =
     (case h of V4 a \<Rightarrow> length a = 4 | V6 a \<Rightarrow> length a = 16 | Name n \<Rightarrow> host_from_str n = Inr (Name n))"

theorem host_roundtrip: "host_ok_text h \<Longrightarrow> host_from_str (show_host h) = Inr h"
  by (cases h) (simp_all add: host_ok_text_def host_from_ipv4 host_from_ipv6)

lemma bad_host_colon: "58 \<in> set s \<Longrightarrow> bad_host_char s"
  by (induction s) auto

lemma host_from_name:
  assumes "host_from_str n = Inr (Name n)"
  shows "trim n = n" and "58 \<notin> set n"
proof -
  from assms have *: "trim n = n \<and> \<not> bad_host_char (trim n)"
    by (auto simp: host_from_str_def Let_def split: option.splits if_splits)
  then show "trim n = n" by blast
  show "58 \<notin> set n" using * bad_host_colon by metis
qed

lemma show_num_last: "2 \<le> radix \<Longrightarrow> radix \<le> 16 \<Longrightarrow> visible (last (show_num radix n))"
  using show_num_visible [of radix "last (show_num radix n)" n] by (simp add: last_in_set)

lemma trim_authority:
  assumes "host_ok_text (ep_host e)"
  shows "trim (endpoint_authority e) = endpoint_authority e"
proof (rule trim_starts)
  have "starts_blank (show_host (ep_host e)) = None"
  proof (cases "ep_host e")
    case (V4 a)
    then show ?thesis using starts_blank_trim [of "show_ipv4 a"] show_ipv4_literal by (simp add: trim_literal)
  next
    case (V6 a)
    then show ?thesis by (simp add: starts_blank_visible visible_def)
  next
    case (Name n)
    then show ?thesis
      using assms host_from_name(1) [of n] starts_blank_trim [of n] by (simp add: host_ok_text_def)
  qed
  then show "starts_blank (endpoint_authority e) = None"
    by (simp add: endpoint_authority_def starts_blank_append visible_def)
  show "visible (last (endpoint_authority e))"
    by (simp add: endpoint_authority_def show_num_last)
qed (simp add: endpoint_authority_def)

lemma split_endpoint_authority:
  assumes "host_ok_text (ep_host e)" and "\<And>n r. ep_host e = Name n \<Longrightarrow> n \<noteq> 91 # r"
  obtains host where "split_authority (endpoint_authority e) = Inr (host, ep_port e)"
    and "host_from_str host = Inr (ep_host e)"
proof (cases "ep_host e")
  case (V6 a)
  then have a: "length a = 16" using assms(1) by (simp add: host_ok_text_def)
  have "93 \<notin> set (show_ipv6 a)" using show_ipv6_literal [of 93 a] by (auto simp: literal_char_def)
  then have "split_authority (endpoint_authority e) = Inr (show_ipv6 a, ep_port e)"
    by (simp add: endpoint_authority_def V6 split_authority_def split_bracketed parse_port_show)
  then show thesis using host_from_ipv6_bare [OF a] V6 that by simp
next
  case (V4 a)
  then have a: "length a = 4" using assms(1) by (simp add: host_ok_text_def)
  let ?h = "show_ipv4 a"
  have h: "58 \<notin> set ?h" "91 \<notin> set ?h" using show_ipv4_literal [of _ a] by (auto simp: literal_char_def)
  have "split_authority (?h @ 58 # show_nat (unat (ep_port e))) = Inr (?h, ep_port e)"
    by (rule split_host_port) (use h in auto)
  then show thesis using host_from_ipv4 [OF a] V4 that by (simp add: endpoint_authority_def)
next
  case (Name n)
  then have n: "host_from_str n = Inr (Name n)" using assms(1) by (simp add: host_ok_text_def)
  then have "58 \<notin> set n" by (rule host_from_name)
  then have "split_authority (n @ 58 # show_nat (unat (ep_port e))) = Inr (n, ep_port e)"
    by (rule split_host_port) (use assms(2) Name in auto)
  then show thesis using n Name that by (simp add: endpoint_authority_def)
qed

lemma endpoint_option_named:
  assumes "name \<noteq> []" and "\<forall>b \<in> set name. visible b" and "61 \<notin> set name"
  shows "endpoint_option (name @ 61 # show_nat (unat v)) ep =
    (if name \<in> set [lit ''priority'', lit ''prio'', lit ''p''] then Inr (ep\<lparr>ep_priority := v\<rparr>)
     else if name \<in> set [lit ''weight'', lit ''w''] then Inr (ep\<lparr>ep_weight := v\<rparr>)
     else Inl (E_Record (Msg ''unknown endpoint option '' [] [name])))"
proof -
  let ?s = "name @ 61 # show_nat (unat v)"
  have s: "trim ?s = ?s"
    using assms(1,2) by (intro trim_visible) (auto simp: show_num_last)
  have num: "trim (show_nat n) = show_nat n" for n
    using show_num_visible [of 10 _ n] by (intro trim_all_visible) auto
  have "split_once 61 ?s = Some (name, show_nat (unat v))" using assms(3) by (simp add: split_once_iff)
  with s num trim_all_visible [OF assms(1,2)] show ?thesis
    unfolding endpoint_option_def Let_def by (simp add: parse_show_u16)
qed

text \<open>
  An endpoint given as \<open>host:port,priority=p,weight=w\<close>, with the host written as the program
  writes hosts, is read as that endpoint.
\<close>

definition endpoint_spec :: "endpoint \<Rightarrow> rstring" where
  "endpoint_spec e =
     endpoint_authority e @ lit '',priority='' @ show_nat (unat (ep_priority e)) @
     lit '',weight='' @ show_nat (unat (ep_weight e))"

theorem endpoint_roundtrip:
  assumes "host_ok_text (ep_host e)"
    and "case ep_host e of Name n \<Rightarrow> 44 \<notin> set n \<and> hd n \<noteq> 91 | _ \<Rightarrow> True"
  shows "endpoint_from_str (endpoint_spec e) = Inr e"
proof -
  have name: "n \<noteq> 91 # r" "44 \<notin> set n" if "ep_host e = Name n" for n r using assms(2) that by auto
  obtain host where host: "split_authority (endpoint_authority e) = Inr (host, ep_port e)"
    "host_from_str host = Inr (ep_host e)"
    using split_endpoint_authority [OF assms(1) name(1)] by blast
  have "44 \<notin> set (show_host (ep_host e))"
    using name(2) show_ipv4_literal [of 44] show_ipv6_literal [of 44]
    by (cases "ep_host e") (auto simp: literal_char_def)
  then have comma: "44 \<notin> set (endpoint_authority e)"
    by (auto simp: endpoint_authority_def dest!: show_num_set dest: digit_literal simp: literal_char_def)
  have num: "44 \<notin> set (lit x @ show_nat n)" if "44 \<notin> set (lit x)" for x n
    using that by (auto dest!: show_num_set dest: digit_literal simp: literal_char_def)
  let ?p = "lit ''priority='' @ show_nat (unat (ep_priority e))"
  let ?w = "lit ''weight='' @ show_nat (unat (ep_weight e))"
  have "endpoint_spec e = endpoint_authority e @ 44 # ?p @ 44 # ?w"
    by (simp add: endpoint_spec_def lit_def)
  moreover have "44 \<notin> set ?p" "44 \<notin> set ?w" by (rule num; simp add: lit_def)+
  ultimately have parts: "split_on 44 (endpoint_spec e) = [endpoint_authority e, ?p, ?w]"
    using comma by (simp only: split_on_append split_on_absent simp_thms)
  have trimmed: "trim (endpoint_authority e) = endpoint_authority e" by (rule trim_authority [OF assms(1)])
  have "endpoint_option ?p ep = Inr (ep\<lparr>ep_priority := ep_priority e\<rparr>)"
    "endpoint_option ?w ep = Inr (ep\<lparr>ep_weight := ep_weight e\<rparr>)" for ep
    using endpoint_option_named [of "lit ''priority''" "ep_priority e" ep]
      endpoint_option_named [of "lit ''weight''" "ep_weight e" ep]
    by (simp_all add: lit_def visible_def)
  then show ?thesis
    using host parts trimmed by (simp add: endpoint_from_str_def endpoint_new_def)
qed

end
