(* ===== verification/Resolver.thy ===== *)
theory Resolver
  imports Cache Link Select Addr
begin

text \<open>
  The resolver (\<open>crates/sqns-client/src/resolver.rs\<close>): lookups, supersede chains, publishing. An
  operation takes \<open>request\<close>, where \<open>request i q\<close> is \<open>request_server(i, q)\<close>, one exchange with the
  \<open>i\<close>-th server, and threads the state \<open>'w\<close> of the connections and of the outside world;
  \<open>request_server\<close> below builds such a function from the pooled connections. An operation reads the
  clock several times; \<open>clock n\<close> is its \<open>n\<close>-th reading.
\<close>

section \<open>What is known about a key\<close>

text \<open>\<open>Rank\<close> with its derived order: retirements above live records, then by serial.\<close>

datatype rank = Rank (rk_terminal: bool) (rk_serial: u64)

instantiation rank :: linorder
begin

definition less_eq_rank :: "rank \<Rightarrow> rank \<Rightarrow> bool" where
  "less_eq_rank a b \<longleftrightarrow>
     (\<not> rk_terminal a \<and> rk_terminal b) \<or> (rk_terminal a = rk_terminal b \<and> rk_serial a \<le> rk_serial b)"

definition less_rank :: "rank \<Rightarrow> rank \<Rightarrow> bool" where
  "less_rank a b \<longleftrightarrow>
     (\<not> rk_terminal a \<and> rk_terminal b) \<or> (rk_terminal a = rk_terminal b \<and> rk_serial a < rk_serial b)"

instance
  by standard (auto simp: less_eq_rank_def less_rank_def rank.expand)

end

definition rank_of :: "sqns_record \<Rightarrow> rank" where
  "rank_of r = Rank (is_terminal r) (rec_serial r)"

record seen =
  se_rank :: rank
  se_identity :: pubkey

definition seen_of :: "signed_record \<Rightarrow> seen" where
  "seen_of s = \<lparr>se_rank = rank_of (sr_record s), se_identity = sr_identity s\<rparr>"

record resolver_config =
  rc_servers :: "server_addr list"
  rc_client_key_hex :: "rstring option"
  rc_connect_timeout :: u64 \<comment> \<open>seconds\<close>
  rc_cache :: bool
  rc_recurse :: byte
  rc_require_dnssec :: bool

record resolver =
  rs_config :: resolver_config
  rs_cache :: cache
  rs_marks :: "(pubkey, seen) hashmap"

definition resolver_new :: "resolver_config \<Rightarrow> resolver res" where
  "resolver_new config =
     (if rc_servers config = [] then Inl (E_NoServer (plain ''no sqns servers configured''))
      else Inr \<lparr>rs_config = config, rs_cache = cache_new, rs_marks = []\<rparr>)"

definition config_default :: resolver_config where
  "config_default =
     \<lparr>rc_servers = [], rc_client_key_hex = None, rc_connect_timeout = 10, rc_cache = True,
      rc_recurse = DEFAULT_RECURSE, rc_require_dnssec = True\<rparr>"

definition with_client_key :: "resolver_config \<Rightarrow> bytes \<Rightarrow> resolver_config" where
  "with_client_key config seed = config\<lparr>rc_client_key_hex := Some (hex_seed seed)\<rparr>"

definition resolver_single :: "server_addr \<Rightarrow> resolver res" where
  "resolver_single server = resolver_new (config_default\<lparr>rc_servers := [server]\<rparr>)"

section \<open>Requests\<close>

text \<open>\<open>connect\<close> is \<open>conn::connect_with\<close> and \<open>exchange\<close> is \<open>conn::exchange\<close>; a server has one pooled connection.\<close>

definition request_server ::
  "(server_addr \<Rightarrow> rstring option \<Rightarrow> u64 \<Rightarrow> bool \<Rightarrow> 'x \<Rightarrow> 'c res \<times> 'x) \<Rightarrow>
   ('c \<Rightarrow> request \<Rightarrow> 'x \<Rightarrow> response res \<times> 'x) \<Rightarrow> resolver_config \<Rightarrow>
   nat \<Rightarrow> request \<Rightarrow> 'c option list \<times> 'x \<Rightarrow> response res \<times> 'c option list \<times> 'x" where
  "request_server connect exchange config idx req s =
     (let (conns, w) = s;
          redial = (\<lambda>conns w.
            case connect (rc_servers config ! idx) (rc_client_key_hex config) (rc_connect_timeout config)
                   (rc_require_dnssec config) w of
              (Inl e, w) \<Rightarrow> (Inl e, conns, w)
            | (Inr conn, w) \<Rightarrow>
              (case exchange conn req w of
                 (Inl e, w) \<Rightarrow> (Inl e, conns, w)
               | (Inr resp, w) \<Rightarrow> (Inr resp, conns[idx := Some conn], w)))
      in case conns ! idx of
           None \<Rightarrow> redial conns w
         | Some conn \<Rightarrow>
           (case exchange conn req w of
              (Inr resp, w) \<Rightarrow> (Inr resp, conns, w)
            | (Inl _, w) \<Rightarrow> redial (conns[idx := None]) w))"

type_synonym 'w requests = "nat \<Rightarrow> request \<Rightarrow> 'w \<Rightarrow> response res \<times> 'w"

definition server_error_text :: "server_addr texts \<Rightarrow> error_code \<Rightarrow> rstring \<Rightarrow> rstring" where
  "server_error_text tx code message = lit ''server error '' @ debug_code tx code @ lit '': '' @ message"

fun try_loop ::
  "server_addr texts \<Rightarrow> 'w requests \<Rightarrow> request \<Rightarrow> string \<Rightarrow> (nat \<times> server_addr) list \<Rightarrow> rstring list \<Rightarrow> 'w \<Rightarrow> response res \<times> 'w" where
  "try_loop tx request q what [] errors w =
     (Inl (E_NoServer (Msg ''{what} failed on every server ({})'' [] [lit what, join (lit ''; '') errors])), w)"
| "try_loop tx request q what ((idx, server) # idxs) errors w =
     (case request idx q w of
        (Inr (ErrorResp code message), w) \<Rightarrow>
          try_loop tx request q what idxs (errors @ [link_error tx server (server_error_text tx code message)]) w
      | (Inr resp, w) \<Rightarrow> (Inr resp, w)
      | (Inl e, w) \<Rightarrow> try_loop tx request q what idxs (errors @ [link_error tx server (show_error tx e)]) w)"

definition try_servers ::
  "server_addr texts \<Rightarrow> 'w requests \<Rightarrow> request \<Rightarrow> string \<Rightarrow> resolver \<Rightarrow> 'w \<Rightarrow> response res \<times> 'w" where
  "try_servers tx request q what rs w = try_loop tx request q what (List.enumerate 0 (rc_servers (rs_config rs))) [] w"

fun describe :: "server_addr texts \<Rightarrow> response \<Rightarrow> rstring" where
  "describe tx (ErrorResp code message) = server_error_text tx code message"
| "describe tx other = lit ''unexpected response: '' @ debug_response tx other"

fun unexpected :: "server_addr texts \<Rightarrow> response \<Rightarrow> error" where
  "unexpected tx (ErrorResp code message) = into_server_error (ErrorResp code message)"
| "unexpected tx other = E_Protocol (Msg ''unexpected response: {other:?}'' [] [debug_response tx other])"

section \<open>Lookups\<close>

definition note_rank :: "signed_record \<Rightarrow> resolver \<Rightarrow> unit res \<times> resolver" where
  "note_rank rcd rs =
     (let seen = seen_of rcd; key = sr_key rcd;
          accept = (Inr (), rs\<lparr>rs_marks := AList.update key seen (rs_marks rs)\<rparr>)
      in case map_of (rs_marks rs) key of
           Some before \<Rightarrow>
             if se_identity before \<noteq> se_identity seen
             then (Inl (E_Delegation (Msg ''{key} was issued by {}, but this answer claims {}'' []
                          [as_bytes key, as_bytes (se_identity before), as_bytes (se_identity seen)])), rs)
             else if se_rank seen < se_rank before then (Inl (E_Downgrade (as_bytes key)), rs)
             else accept
         | None \<Rightarrow> accept)"

definition cache_answer :: "signed_record \<Rightarrow> resolver \<Rightarrow> resolver" where
  "cache_answer rcd rs =
     (if rc_cache (rs_config rs) then rs\<lparr>rs_cache := cache_put rcd (rs_cache rs)\<rparr> else rs)"

definition fetch_servers ::
  "'v verifier_scheme \<Rightarrow> server_addr texts \<Rightarrow> 'w requests \<Rightarrow> (nat \<Rightarrow> u64) \<Rightarrow> pubkey \<Rightarrow> resolver \<Rightarrow> 'w \<Rightarrow>
   (signed_record option \<times> signed_record option) res \<times> resolver \<times> 'w" where
  "fetch_servers c tx request clock key rs w =
     (case try_servers tx request (Lookup key (rc_recurse (rs_config rs))) ''lookup'' rs w of
        (Inl e, w) \<Rightarrow> (Inl e, rs, w)
      | (Inr (Answer (Some rcd) succ), w) \<Rightarrow>
          (case verify_answer c rcd key (clock 1) of
             Inl e \<Rightarrow> (Inl e, rs, w)
           | Inr _ \<Rightarrow>
             (case note_rank rcd rs of
                (Inl e, rs) \<Rightarrow> (Inl e, rs, w)
              | (Inr _, rs) \<Rightarrow> (Inr (Some rcd, succ), cache_answer rcd rs, w)))
      | (Inr (Answer None _), w) \<Rightarrow>
          (Inr (None, None),
           (if rc_cache (rs_config rs) then rs\<lparr>rs_cache := put_missing (clock 1) key (rs_cache rs)\<rparr> else rs), w)
      | (Inr other, w) \<Rightarrow> (Inl (unexpected tx other), rs, w))"

definition fetch ::
  "'v verifier_scheme \<Rightarrow> server_addr texts \<Rightarrow> 'w requests \<Rightarrow> (nat \<Rightarrow> u64) \<Rightarrow> pubkey \<Rightarrow> resolver \<Rightarrow> 'w \<Rightarrow>
   (signed_record option \<times> signed_record option) res \<times> resolver \<times> 'w" where
  "fetch c tx request clock key rs w =
     (if rc_cache (rs_config rs)
      then let (hit, ca) = cache_get (clock 0) key (rs_cache rs); rs = rs\<lparr>rs_cache := ca\<rparr>
           in case hit of
                Some answer \<Rightarrow> (Inr (answer, None), rs, w)
              | None \<Rightarrow> fetch_servers c tx request clock key rs w
      else fetch_servers c tx request clock key rs w)"

definition lookup ::
  "'v verifier_scheme \<Rightarrow> server_addr texts \<Rightarrow> 'w requests \<Rightarrow> (nat \<Rightarrow> u64) \<Rightarrow> pubkey \<Rightarrow> resolver \<Rightarrow> 'w \<Rightarrow>
   signed_record option res \<times> resolver \<times> 'w" where
  "lookup c tx request clock key rs w =
     (let (out, rs, w) = fetch c tx request clock key rs w
      in (rbind out (\<lambda>(rcd, _). Inr rcd), rs, w))"

text \<open>\<open>retirement_error\<close> of the client, the twin of the store's function of that name.\<close>

definition key_retirement_error :: "signed_record \<Rightarrow> error option" where
  "key_retirement_error rcd =
     (case successor (sr_record rcd) of
        Some succ \<Rightarrow> Some (E_Superseded (as_bytes (sr_key rcd)) (as_bytes succ))
      | None \<Rightarrow> revocation_error rcd)"

definition lookup_live ::
  "'v verifier_scheme \<Rightarrow> server_addr texts \<Rightarrow> 'w requests \<Rightarrow> (nat \<Rightarrow> u64) \<Rightarrow> pubkey \<Rightarrow> resolver \<Rightarrow> 'w \<Rightarrow>
   signed_record option res \<times> resolver \<times> 'w" where
  "lookup_live c tx request clock key rs w =
     (let (out, rs, w) = lookup c tx request clock key rs w
      in (rbind out (\<lambda>rcd.
            case rcd of
              None \<Rightarrow> Inr None
            | Some r \<Rightarrow> (case key_retirement_error r of None \<Rightarrow> Inr (Some r) | Some e \<Rightarrow> Inl e)), rs, w))"

section \<open>Following rotations\<close>

definition MAX_SUPERSEDE_HOPS :: nat where
  "MAX_SUPERSEDE_HOPS = 8"

record service_location =
  sl_requested :: pubkey
  sl_key :: pubkey
  sl_identity :: pubkey
  sl_endpoints :: "endpoint list"
  sl_superseded_from :: "pubkey list"

definition is_stale :: "service_location \<Rightarrow> bool" where
  "is_stale loc \<longleftrightarrow> sl_key loc \<noteq> sl_requested loc"

text \<open>The inline successor is used only when it is the verified, not downgraded record of the named key.\<close>

definition prefetch ::
  "'v verifier_scheme \<Rightarrow> u64 \<Rightarrow> signed_record option \<Rightarrow> pubkey \<Rightarrow> resolver \<Rightarrow> signed_record option \<times> resolver" where
  "prefetch c now succ nxt rs =
     (case succ of
        None \<Rightarrow> (None, rs)
      | Some candidate \<Rightarrow>
          if sr_key candidate = nxt \<and> is_ok (verify_answer c candidate nxt now)
          then (case note_rank candidate rs of
                  (Inl _, rs) \<Rightarrow> (None, rs)
                | (Inr _, rs) \<Rightarrow> (Some candidate, cache_answer candidate rs))
          else (None, rs))"

text \<open>\<open>n\<close> iterations of the loop are left; iteration \<open>i\<close> reads the clock from \<open>4 * i\<close> on.\<close>

fun resolve_loop ::
  "'v verifier_scheme \<Rightarrow> server_addr texts \<Rightarrow> 'w requests \<Rightarrow> rng \<Rightarrow> (nat \<Rightarrow> u64) \<Rightarrow> pubkey \<Rightarrow> nat \<Rightarrow> nat \<Rightarrow>
   pubkey \<Rightarrow> pubkey list \<Rightarrow> pubkey list \<Rightarrow> signed_record option \<Rightarrow> resolver \<Rightarrow> 'w \<Rightarrow>
   service_location res \<times> resolver \<times> 'w" where
  "resolve_loop c tx request rng clock key 0 i current visited chain prefetched rs w =
     (Inl (E_SupersedeChain (Msg ''{key} forwards through more than {MAX_SUPERSEDE_HOPS} keys'' [] [as_bytes key])), rs, w)"
| "resolve_loop c tx request rng clock key (Suc n) i current visited chain prefetched rs w =
     (case (case prefetched of
              Some rcd \<Rightarrow> (Inr (Some rcd, None), rs, w)
            | None \<Rightarrow> fetch c tx request (\<lambda>m. clock (4 * i + m)) current rs w) of
        (Inl e, rs, w) \<Rightarrow> (Inl e, rs, w)
      | (Inr (None, _), rs, w) \<Rightarrow> (Inl (E_Unpublished (as_bytes current)), rs, w)
      | (Inr (Some rcd, succ), rs, w) \<Rightarrow>
          (case revocation_error rcd of
             Some revoked \<Rightarrow> (Inl revoked, rs, w)
           | None \<Rightarrow>
             (case successor (sr_record rcd) of
                None \<Rightarrow>
                  (Inr \<lparr>sl_requested = key, sl_key = sr_key rcd, sl_identity = sr_identity rcd,
                        sl_endpoints = order_with (sr_record rcd) rng, sl_superseded_from = chain\<rparr>, rs, w)
              | Some nxt \<Rightarrow>
                  if nxt \<in> set visited
                  then (Inl (E_SupersedeChain (Msg ''{key} forwards in a cycle, back to {next}'' []
                               [as_bytes key, as_bytes nxt])), rs, w)
                  else
                  let (prefetched, rs) = prefetch c (clock (4 * i + 3)) succ nxt rs
                  in resolve_loop c tx request rng clock key n (Suc i) nxt (nxt # visited) (chain @ [current])
                       prefetched rs w)))"

definition resolve_service ::
  "'v verifier_scheme \<Rightarrow> server_addr texts \<Rightarrow> 'w requests \<Rightarrow> rng \<Rightarrow> (nat \<Rightarrow> u64) \<Rightarrow> pubkey \<Rightarrow> resolver \<Rightarrow> 'w \<Rightarrow>
   service_location res \<times> resolver \<times> 'w" where
  "resolve_service c tx request rng clock key rs w =
     resolve_loop c tx request rng clock key MAX_SUPERSEDE_HOPS 0 key [key] [] None rs w"

definition resolve ::
  "'v verifier_scheme \<Rightarrow> server_addr texts \<Rightarrow> 'w requests \<Rightarrow> rng \<Rightarrow> (nat \<Rightarrow> u64) \<Rightarrow> pubkey \<Rightarrow> resolver \<Rightarrow> 'w \<Rightarrow>
   endpoint list res \<times> resolver \<times> 'w" where
  "resolve c tx request rng clock key rs w =
     (let (out, rs, w) = resolve_service c tx request rng clock key rs w
      in (rbind out (\<lambda>loc. Inr (sl_endpoints loc)), rs, w))"

section \<open>Listing, publishing, status\<close>

fun check_listed ::
  "'v verifier_scheme \<Rightarrow> u64 \<Rightarrow> pubkey \<Rightarrow> signed_record list \<Rightarrow> signed_record list res" where
  "check_listed c now identity [] = Inr []"
| "check_listed c now identity (rcd # records) =
     rbind (verify_answer c rcd (sr_key rcd) now) (\<lambda>_.
     if sr_identity rcd \<noteq> identity
     then Inl (E_Delegation (Msg ''{key} was listed under {identity} but is not issued by it'' []
                 [as_bytes (sr_key rcd), as_bytes identity]))
     else rbind (check_listed c now identity records) (\<lambda>out. Inr (rcd # out)))"

definition lookup_identity ::
  "'v verifier_scheme \<Rightarrow> server_addr texts \<Rightarrow> 'w requests \<Rightarrow> u64 \<Rightarrow> pubkey \<Rightarrow> resolver \<Rightarrow> 'w \<Rightarrow>
   signed_record list res \<times> 'w" where
  "lookup_identity c tx request now identity rs w =
     (case try_servers tx request (LookupIdentity identity) ''identity lookup'' rs w of
        (Inl e, w) \<Rightarrow> (Inl e, w)
      | (Inr (Records records _), w) \<Rightarrow> (check_listed c now identity records, w)
      | (Inr other, w) \<Rightarrow> (Inl (unexpected tx other), w))"

fun publish_loop ::
  "server_addr texts \<Rightarrow> 'w requests \<Rightarrow> request \<Rightarrow> (nat \<times> server_addr) list \<Rightarrow> u64 option \<Rightarrow> bool \<Rightarrow> rstring list \<Rightarrow> 'w \<Rightarrow>
   (u64 option \<times> bool \<times> rstring list) \<times> 'w" where
  "publish_loop tx request q [] accepted stale_only errors w = ((accepted, stale_only, errors), w)"
| "publish_loop tx request q ((idx, server) # idxs) accepted stale_only errors w =
     (case request idx q w of
        (Inr (Published serial _), w) \<Rightarrow> publish_loop tx request q idxs (Some serial) stale_only errors w
      | (Inr other, w) \<Rightarrow>
          publish_loop tx request q idxs accepted
            (stale_only \<and> (case other of ErrorResp code _ \<Rightarrow> code = EC_Stale | _ \<Rightarrow> False))
            (errors @ [link_error tx server (describe tx other)]) w
      | (Inl e, w) \<Rightarrow>
          publish_loop tx request q idxs accepted False (errors @ [link_error tx server (show_error tx e)]) w)"

definition publish ::
  "'v verifier_scheme \<Rightarrow> server_addr texts \<Rightarrow> 'w requests \<Rightarrow> u64 \<Rightarrow> signed_record \<Rightarrow> resolver \<Rightarrow> 'w \<Rightarrow>
   u64 res \<times> resolver \<times> 'w" where
  "publish c tx request now rcd rs w =
     (case verify_answer c rcd (sr_key rcd) now of
        Inl e \<Rightarrow> (Inl e, rs, w)
      | Inr _ \<Rightarrow>
        let ((accepted, stale_only, errors), w) =
              publish_loop tx request (Publish rcd) (List.enumerate 0 (rc_servers (rs_config rs))) None True [] w;
            rs = rs\<lparr>rs_cache := invalidate (sr_key rcd) (rs_cache rs)\<rparr>
        in (case accepted of
              Some serial \<Rightarrow> (Inr serial, rs, w)
            | None \<Rightarrow>
                if stale_only \<and> errors \<noteq> []
                then (Inl (E_Server (code_as_u16 EC_Stale) (join (lit ''; '') errors)), rs, w)
                else (Inl (E_NoServer (Msg ''no server accepted the record ({})'' [] [join (lit ''; '') errors])), rs, w)))"

definition query_status ::
  "server_addr texts \<Rightarrow> 'w requests \<Rightarrow> resolver \<Rightarrow> 'w \<Rightarrow> status_info res \<times> 'w" where
  "query_status tx request rs w =
     (case try_servers tx request Status ''status'' rs w of
        (Inl e, w) \<Rightarrow> (Inl e, w)
      | (Inr (StatusResp info), w) \<Rightarrow> (Inr info, w)
      | (Inr other, w) \<Rightarrow> (Inl (unexpected tx other), w))"

end
