(* ===== verification/Resolver_Props.thy ===== *)
theory Resolver_Props
  imports Resolver Samples
begin

text \<open>
  The properties of the resolver: what it returns is verified, it never goes back behind what it
  has seen, a resolved location is the end of a verified chain of rotations, how long a chain it
  follows, and what the first server's answer decides.
\<close>

section \<open>The invariant\<close>

text \<open>
  What is cached was verified for its key, and is the very answer that was last noted for it; a
  resolver that does not cache has an empty cache.
\<close>

definition resolver_inv :: "'v verifier_scheme \<Rightarrow> resolver \<Rightarrow> bool" where
  "resolver_inv c rs \<longleftrightarrow>
     (\<forall>k r. found_in (rs_cache rs) k = Some r \<longrightarrow>
        chain_ok c k r \<and> map_of (rs_marks rs) k = Some (seen_of r)) \<and>
     (rc_cache (rs_config rs) \<or> (\<forall>k. found_in (rs_cache rs) k = None))"

text \<open>Knowledge only grows: a key keeps its identity, and its rank does not fall.\<close>

definition marks_le :: "resolver \<Rightarrow> resolver \<Rightarrow> bool" where
  "marks_le rs rs' \<longleftrightarrow>
     (\<forall>k s. map_of (rs_marks rs) k = Some s \<longrightarrow>
        (\<exists>s'. map_of (rs_marks rs') k = Some s' \<and> se_identity s' = se_identity s \<and> se_rank s \<le> se_rank s'))"

definition progress :: "'v verifier_scheme \<Rightarrow> resolver \<Rightarrow> resolver \<Rightarrow> bool" where
  "progress c rs rs' \<longleftrightarrow> resolver_inv c rs' \<and> marks_le rs rs' \<and> rs_config rs' = rs_config rs"

lemma marks_le_refl [simp]: "marks_le rs rs"
  by (simp add: marks_le_def)

lemma marks_le_trans: "marks_le a b \<Longrightarrow> marks_le b d \<Longrightarrow> marks_le a d"
  by (fastforce simp: marks_le_def intro: order_trans)

lemma progress_refl: "resolver_inv c rs \<Longrightarrow> progress c rs rs"
  by (simp add: progress_def)

lemma progress_trans: "progress c a b \<Longrightarrow> progress c b d \<Longrightarrow> progress c a d"
  by (auto simp: progress_def intro: marks_le_trans)

lemma resolver_inv_new: "resolver_new config = Inr rs \<Longrightarrow> resolver_inv c rs"
  by (auto simp: resolver_new_def resolver_inv_def split: if_splits)

lemma note_rank_Inl: "note_rank r rs = (Inl e, rs') \<Longrightarrow> rs' = rs"
  by (auto simp: note_rank_def Let_def split: option.splits if_splits)

lemma note_rank_Inr:
  assumes "note_rank r rs = (Inr u, rs')"
  shows "rs' = rs\<lparr>rs_marks := AList.update (sr_key r) (seen_of r) (rs_marks rs)\<rparr> \<and> marks_le rs rs'"
  using assms
  by (auto simp: note_rank_def Let_def marks_le_def not_less split: option.splits if_splits)

text \<open>Noting an answer and caching it.\<close>

lemma note_and_cache:
  assumes "resolver_inv c rs" and "note_rank r rs = (Inr u, rs1)" and "chain_ok c (sr_key r) r"
  shows "progress c rs (cache_answer r rs1) \<and> map_of (rs_marks (cache_answer r rs1)) (sr_key r) = Some (seen_of r)"
proof -
  have rs1: "rs1 = rs\<lparr>rs_marks := AList.update (sr_key r) (seen_of r) (rs_marks rs)\<rparr>"
    and le: "marks_le rs rs1" using note_rank_Inr [OF assms(2)] by auto
  have "marks_le rs (cache_answer r rs1)" using le by (simp add: cache_answer_def marks_le_def)
  moreover have "resolver_inv c (cache_answer r rs1)"
    using assms(1,3)
    by (auto simp: resolver_inv_def cache_answer_def rs1 ca.put_found split: if_splits)
  ultimately show ?thesis by (simp add: progress_def cache_answer_def rs1)
qed

lemma resolver_inv_cache_get:
  assumes "resolver_inv c rs"
  shows "progress c rs (rs\<lparr>rs_cache := snd (cache_get now k (rs_cache rs))\<rparr>)"
  using assms ca.get_sub [of now k "rs_cache rs"]
  by (auto simp: progress_def resolver_inv_def marks_le_def) (metis option.exhaust)

lemma resolver_inv_sub:
  assumes "resolver_inv c rs" and "\<And>j r. found_in ca j = Some r \<Longrightarrow> found_in (rs_cache rs) j = Some r"
  shows "progress c rs (rs\<lparr>rs_cache := ca\<rparr>)"
  using assms by (auto simp: progress_def resolver_inv_def marks_le_def) (metis option.exhaust)

text \<open>What an operation that answers for a key establishes.\<close>

definition answered :: "'v verifier_scheme \<Rightarrow> pubkey \<Rightarrow> resolver \<Rightarrow> signed_record \<Rightarrow> bool" where
  "answered c k rs r \<longleftrightarrow> chain_ok c k r \<and> map_of (rs_marks rs) k = Some (seen_of r)"

lemma fetch_servers_ok:
  assumes "resolver_inv c rs" and "fetch_servers c tx request clock key rs w = (out, rs', w')"
  shows "progress c rs rs' \<and> (\<forall>r s. out = Inr (Some r, s) \<longrightarrow> answered c key rs' r)"
proof -
  obtain resp w1 where q: "try_servers tx request (Lookup key (rc_recurse (rs_config rs))) ''lookup'' rs w = (resp, w1)"
    by fastforce
  note out = assms(2) [unfolded fetch_servers_def q prod.case]
  have same: "progress c rs rs" by (rule progress_refl [OF assms(1)])
  show ?thesis
  proof (cases resp)
    case (Inl e)
    with out same show ?thesis by auto
  next
    case resp: (Inr answer)
    show ?thesis
    proof (cases answer)
      case (Answer found succ)
      show ?thesis
      proof (cases found)
        case None
        have "progress c rs (rs\<lparr>rs_cache := put_missing (clock 1) key (rs_cache rs)\<rparr>)"
          by (rule resolver_inv_sub [OF assms(1)]) (simp add: ca.miss_found split: if_splits)
        with out resp Answer None progress_refl [OF assms(1)] show ?thesis by (auto split: if_splits)
      next
        case (Some rcd)
        show ?thesis
        proof (cases "verify_answer c rcd key (clock 1)")
          case (Inl e)
          with out resp Answer Some same show ?thesis by auto
        next
          case (Inr u)
          then have ok: "chain_ok c key rcd" and k: "sr_key rcd = key" by (auto simp: verify_answer_chain chain_ok_def)
          obtain noted rs1 where n: "note_rank rcd rs = (noted, rs1)" by fastforce
          show ?thesis
          proof (cases noted)
            case (Inl e)
            with n out resp Answer Some Inr same note_rank_Inl [of rcd rs e rs1] show ?thesis by auto
          next
            case noted: (Inr v)
            with n out resp Answer Some Inr have "out = Inr (Some rcd, succ)" "rs' = cache_answer rcd rs1" by auto
            with note_and_cache [OF assms(1) n [unfolded noted]] ok k show ?thesis by (simp add: answered_def)
          qed
        qed
      qed
    qed (use out resp same in auto)
  qed
qed

lemma fetch_ok:
  assumes "resolver_inv c rs" and "fetch c tx request clock key rs w = (out, rs', w')"
  shows "progress c rs rs' \<and> (\<forall>r s. out = Inr (Some r, s) \<longrightarrow> answered c key rs' r)"
proof (cases "rc_cache (rs_config rs)")
  case False
  with assms show ?thesis using fetch_servers_ok [OF assms(1)] by (simp add: fetch_def)
next
  case True
  let ?rs = "rs\<lparr>rs_cache := snd (cache_get (clock 0) key (rs_cache rs))\<rparr>"
  have p: "progress c rs ?rs" by (rule resolver_inv_cache_get [OF assms(1)])
  show ?thesis
  proof (cases "fst (cache_get (clock 0) key (rs_cache rs))")
    case None
    with True assms(2) have "fetch_servers c tx request clock key ?rs w = (out, rs', w')"
      by (simp add: fetch_def case_prod_unfold Let_def)
    from fetch_servers_ok [OF _ this] p show ?thesis by (auto simp: progress_def intro: marks_le_trans)
  next
    case (Some answer)
    with True assms(2) have o: "out = Inr (answer, None)" "rs' = ?rs"
      by (auto simp: fetch_def case_prod_unfold Let_def)
    have "answered c key rs' r" if "answer = Some r" for r
      using ca.hit [of "clock 0" key "rs_cache rs" r] Some that assms(1)
      by (simp add: answered_def resolver_inv_def o(2))
    with p o show ?thesis by auto
  qed
qed

lemma prefetch_ok:
  assumes "resolver_inv c rs" and "prefetch c now succ nxt rs = (out, rs')"
  shows "progress c rs rs' \<and> (\<forall>r. out = Some r \<longrightarrow> answered c nxt rs' r)"
proof -
  consider "out = None" "rs' = rs"
    | r u rs1 where "out = Some r" "chain_ok c nxt r" "note_rank r rs = (Inr u, rs1)" "rs' = cache_answer r rs1"
    using assms(2)
    by (auto simp: prefetch_def is_ok_iff verify_answer_chain dest!: note_rank_Inl
        split: option.splits if_splits prod.splits sum.splits)
  then show ?thesis
  proof cases
    case 1
    with progress_refl [OF assms(1)] show ?thesis by simp
  next
    case 2
    then have "sr_key r = nxt" by (simp add: chain_ok_def)
    with note_and_cache [OF assms(1) 2(3)] 2 show ?thesis by (auto simp: answered_def)
  qed
qed

section \<open>Chains of rotations\<close>

text \<open>\<open>forwards c k ks j\<close>: verified tombstones lead from \<open>k\<close> over the keys \<open>ks\<close> (starting with \<open>k\<close>) to \<open>j\<close>.\<close>

inductive forwards :: "'v verifier_scheme \<Rightarrow> pubkey \<Rightarrow> pubkey list \<Rightarrow> pubkey \<Rightarrow> bool" for c where
  here: "forwards c k [] k"
| hop: "chain_ok c k r \<Longrightarrow> successor (sr_record r) = Some k' \<Longrightarrow> forwards c k' ks j \<Longrightarrow> forwards c k (k # ks) j"

text \<open>A location is where a verified live record says the key is.\<close>

definition located :: "'v verifier_scheme \<Rightarrow> rng \<Rightarrow> service_location \<Rightarrow> bool" where
  "located c rng loc \<longleftrightarrow>
     (\<exists>r. chain_ok c (sl_key loc) r \<and> \<not> is_terminal (sr_record r) \<and> sl_identity loc = sr_identity r \<and>
          sl_endpoints loc = order_with (sr_record r) rng)"

lemma live_iff: "\<not> is_terminal (sr_record r) \<longleftrightarrow> revocation_error r = None \<and> successor (sr_record r) = None"
  by (auto simp: terminal_cases)

text \<open>One iteration of the loop.\<close>

lemma resolve_loop_step:
  assumes "resolver_inv c rs" and "\<And>r. prefetched = Some r \<Longrightarrow> answered c current rs r"
    and "resolve_loop c tx request rng clock key (Suc n) i current visited chain prefetched rs w = (out, rs', w')"
  obtains (failed) e where "out = Inl e" "progress c rs rs'"
  | (found) r where "answered c current rs' r" "\<not> is_terminal (sr_record r)" "progress c rs rs'"
      "out = Inr \<lparr>sl_requested = key, sl_key = sr_key r, sl_identity = sr_identity r,
        sl_endpoints = order_with (sr_record r) rng, sl_superseded_from = chain\<rparr>"
  | (next_key) r nxt pre rs1 w1 where "chain_ok c current r" "successor (sr_record r) = Some nxt" "nxt \<notin> set visited"
      "progress c rs rs1" "\<And>x. pre = Some x \<Longrightarrow> answered c nxt rs1 x"
      "resolve_loop c tx request rng clock key n (Suc i) nxt (nxt # visited) (chain @ [current]) pre rs1 w1 = (out, rs', w')"
proof -
  obtain res rs1 w1 where f: "(case prefetched of Some rcd \<Rightarrow> (Inr (Some rcd, None), rs, w)
      | None \<Rightarrow> fetch c tx request (\<lambda>m. clock (4 * i + m)) current rs w) = (res, rs1, w1)"
    by (cases "(case prefetched of Some rcd \<Rightarrow> (Inr (Some rcd, None), rs, w)
      | None \<Rightarrow> fetch c tx request (\<lambda>m. clock (4 * i + m)) current rs w)") auto
  have fetched: "progress c rs rs1 \<and> (\<forall>r s. res = Inr (Some r, s) \<longrightarrow> answered c current rs1 r)"
  proof (cases prefetched)
    case None
    with f show ?thesis by (intro fetch_ok [OF assms(1)]) simp
  next
    case (Some r)
    with f assms(2) [OF Some] progress_refl [OF assms(1)] show ?thesis by auto
  qed
  then have p: "progress c rs rs1" and ans: "\<And>r s. res = Inr (Some r, s) \<Longrightarrow> answered c current rs1 r"
    by auto
  note loop = assms(3) [unfolded resolve_loop.simps f prod.case]
  show ?thesis
  proof (cases "\<exists>r s. res = Inr (Some r, s)")
    case False
    then show ?thesis using loop p that(1) by (auto split: sum.splits prod.splits option.splits)
  next
    case True
    then obtain r s where res: "res = Inr (Some r, s)" by blast
    note a = ans [OF res]
    show ?thesis
    proof (cases "revocation_error r")
      case (Some e)
      then show ?thesis using loop p that(1) by (auto simp: res)
    next
      case rev: None
      show ?thesis
      proof (cases "successor (sr_record r)")
        case None
        then show ?thesis using loop p that(2) rev a live_iff by (auto simp: res)
      next
        case (Some nxt)
        obtain pre rs2 where pre: "prefetch c (clock (4 * i + 3)) s nxt rs1 = (pre, rs2)" by fastforce
        have inv1: "resolver_inv c rs1" using p by (simp add: progress_def)
        show ?thesis
        proof (cases "nxt \<in> set visited")
          case True
          then show ?thesis using loop p that(1) rev Some by (auto simp: res)
        next
          case False
          then have go_on: "resolve_loop c tx request rng clock key n (Suc i) nxt (nxt # visited) (chain @ [current]) pre rs2 w1 =
              (out, rs', w')"
            using loop rev Some pre by (simp add: res)
          have p2: "progress c rs rs2" and pre2: "\<And>x. pre = Some x \<Longrightarrow> answered c nxt rs2 x"
            using prefetch_ok [OF inv1 pre] p progress_trans by blast+
          have "chain_ok c current r" using a by (simp add: answered_def)
          from that(3) [OF this Some False p2 pre2 go_on] show ?thesis .
        qed
      qed
    qed
  qed
qed

lemma resolve_loop_ok:
  assumes "resolver_inv c rs" and "\<And>r. prefetched = Some r \<Longrightarrow> answered c current rs r"
    and "current \<in> set visited"
    and "resolve_loop c tx request rng clock key n i current visited chain prefetched rs w = (out, rs', w')"
  shows "progress c rs rs' \<and>
    (\<forall>loc. out = Inr loc \<longrightarrow> sl_requested loc = key \<and> located c rng loc \<and>
       (\<exists>ks. sl_superseded_from loc = chain @ ks \<and> forwards c current ks (sl_key loc) \<and> length ks < n \<and>
             distinct (ks @ [sl_key loc]) \<and> set (tl (ks @ [sl_key loc])) \<inter> set visited = {}))"
  using assms
proof (induction n arbitrary: i current visited chain prefetched rs w)
  case 0
  then show ?case by (auto simp: progress_refl)
next
  case (Suc n)
  show ?case
  proof (rule resolve_loop_step [OF Suc.prems(1) _ Suc.prems(4)], goal_cases)
    case (1 r)
    then show ?case by (rule Suc.prems(2))
  next
    case (2 e)
    then show ?case by simp
  next
    case (3 r)
    then have "chain_ok c current r" "sr_key r = current" by (auto simp: answered_def chain_ok_def)
    with 3 show ?case by (auto simp: located_def intro!: forwards.here)
  next
    case next_key: (4 r nxt pre rs1 w1)
    have inv: "resolver_inv c rs1" using next_key(4) by (simp add: progress_def)
    note ih = Suc.IH [OF inv next_key(5) _ next_key(6)]
    show ?case
    proof (intro conjI allI impI)
      show "progress c rs rs'" using ih next_key(4) progress_trans by auto
      fix loc assume o: "out = Inr loc"
      with ih obtain ks where ks: "sl_superseded_from loc = (chain @ [current]) @ ks"
          "forwards c nxt ks (sl_key loc)" "length ks < n" "distinct (ks @ [sl_key loc])"
          "set (tl (ks @ [sl_key loc])) \<inter> set (nxt # visited) = {}"
        and loc: "sl_requested loc = key" "located c rng loc" by auto
      from loc show "sl_requested loc = key" "located c rng loc" by auto
      have head: "hd (ks @ [sl_key loc]) = nxt" using ks(2) by (cases) auto
      have "set (ks @ [sl_key loc]) = insert nxt (set (tl (ks @ [sl_key loc])))"
        using head by (cases "ks @ [sl_key loc]") auto
      with ks(5) next_key(3) have disj: "set (ks @ [sl_key loc]) \<inter> set visited = {}" by auto
      show "\<exists>ks. sl_superseded_from loc = chain @ ks \<and> forwards c current ks (sl_key loc) \<and> length ks < Suc n \<and>
          distinct (ks @ [sl_key loc]) \<and> set (tl (ks @ [sl_key loc])) \<inter> set visited = {}"
        using ks disj Suc.prems(3) forwards.hop [OF next_key(1,2) ks(2)]
        by (intro exI [of _ "current # ks"]) auto
    qed
  qed
qed

text \<open>
  C10. Where a key leads. When \<open>resolve_service\<close> succeeds, a chain of verified tombstones, each for the
  key the previous one named, leads from the requested key over the reported keys to the key
  reached; that key has a verified live record, whose identity and (reordered) endpoints are the
  ones returned; no key occurs twice, and at most seven rotations were followed. Nothing a server
  sends can make the resolver return anything else.
\<close>

theorem resolve_service_sound:
  assumes "resolver_inv c rs"
    and "resolve_service c tx request rng clock key rs w = (Inr loc, rs', w')"
  shows "sl_requested loc = key \<and> forwards c key (sl_superseded_from loc) (sl_key loc) \<and>
    located c rng loc \<and> distinct (sl_superseded_from loc @ [sl_key loc]) \<and>
    length (sl_superseded_from loc) < MAX_SUPERSEDE_HOPS \<and>
    (is_stale loc \<longleftrightarrow> sl_superseded_from loc \<noteq> [])"
proof -
  have *: "sl_requested loc = key \<and> located c rng loc \<and>
    (\<exists>ks. sl_superseded_from loc = [] @ ks \<and> forwards c key ks (sl_key loc) \<and> length ks < MAX_SUPERSEDE_HOPS \<and>
      distinct (ks @ [sl_key loc]) \<and> set (tl (ks @ [sl_key loc])) \<inter> set [key] = {})"
    using resolve_loop_ok [OF assms(1) _ _ assms(2) [unfolded resolve_service_def]] by simp
  moreover have "forwards c key ks j \<Longrightarrow> ks = [] \<Longrightarrow> j = key" for ks j
    by (erule forwards.cases) auto
  moreover have "forwards c key ks j \<Longrightarrow> ks \<noteq> [] \<Longrightarrow> hd ks = key" for ks j
    by (erule forwards.cases) auto
  ultimately have "sl_superseded_from loc = [] \<Longrightarrow> sl_key loc = key"
    and "sl_superseded_from loc \<noteq> [] \<Longrightarrow> sl_key loc \<noteq> key"
    by (auto dest: hd_in_set)
  with * show ?thesis by (auto simp: is_stale_def)
qed

section \<open>A resolver over time\<close>

text \<open>
  The operations that change a resolver, in any order and with anything happening outside between
  them; \<open>elapse\<close> also stands for the operations that only ask (\<open>lookup_identity\<close>, \<open>status\<close>).
\<close>

inductive client_step ::
  "'v verifier_scheme \<Rightarrow> server_addr texts \<Rightarrow> 'w requests \<Rightarrow> resolver \<times> 'w \<Rightarrow> resolver \<times> 'w \<Rightarrow> bool"
  for c tx request where
  looked_up: "lookup c tx request clock k rs w = (out, rs', w') \<Longrightarrow> client_step c tx request (rs, w) (rs', w')"
| resolved: "resolve_service c tx request rng clock k rs w = (loc, rs', w') \<Longrightarrow>
    client_step c tx request (rs, w) (rs', w')"
| published: "publish c tx request now r rs w = (serial, rs', w') \<Longrightarrow> client_step c tx request (rs, w) (rs', w')"
| elapse: "client_step c tx request (rs, w) (rs, w')"

lemma lookup_ok:
  assumes "resolver_inv c rs" and "lookup c tx request clock k rs w = (out, rs', w')"
  shows "progress c rs rs' \<and> (\<forall>r. out = Inr (Some r) \<longrightarrow> answered c k rs' r)"
proof -
  obtain res where "fetch c tx request clock k rs w = (res, rs', w')" and out: "out = rbind res (\<lambda>(rcd, _). Inr rcd)"
    using assms(2) by (auto simp: lookup_def Let_def split: prod.splits)
  from fetch_ok [OF assms(1) this(1)] out show ?thesis by (cases res) auto
qed

lemma publish_ok:
  assumes "resolver_inv c rs" and "publish c tx request now r rs w = (out, rs', w')"
  shows "progress c rs rs'"
proof -
  have "rs' = rs \<or> rs' = rs\<lparr>rs_cache := invalidate (sr_key r) (rs_cache rs)\<rparr>"
    using assms(2) by (auto simp: publish_def Let_def split: sum.splits prod.splits option.splits if_splits)
  moreover have "progress c rs (rs\<lparr>rs_cache := invalidate (sr_key r) (rs_cache rs)\<rparr>)"
    by (rule resolver_inv_sub [OF assms(1)]) (simp add: ca.drop_found split: if_splits)
  ultimately show ?thesis using progress_refl [OF assms(1)] by auto
qed

lemma client_step_progress:
  assumes "client_step c tx request s s'" and "resolver_inv c (fst s)"
  shows "progress c (fst s) (fst s')"
  using assms(1)
proof cases
  case looked_up
  with lookup_ok assms(2) show ?thesis by fastforce
next
  case (resolved rng clock k rs w loc rs' w')
  then show ?thesis
    using resolve_loop_ok [OF _ _ _ resolved(3) [unfolded resolve_service_def]] assms(2) by simp
next
  case published
  with publish_ok assms(2) show ?thesis by fastforce
next
  case elapse
  with progress_refl assms(2) show ?thesis by fastforce
qed

lemma client_steps_progress:
  assumes "(client_step c tx request)\<^sup>*\<^sup>* s s'" and "resolver_inv c (fst s)"
  shows "progress c (fst s) (fst s')"
  using assms
proof (induction rule: rtranclp_induct)
  case base
  then show ?case by (rule progress_refl)
next
  case (step y z)
  then have p: "progress c (fst s) (fst y)" by blast
  then have "resolver_inv c (fst y)" by (simp add: progress_def)
  from client_step_progress [OF step.hyps(2) this] p show ?case by (rule progress_trans [rotated])
qed

text \<open>
  C11. No downgrade. Whatever servers answer and whatever a resolver does in between, two answers it gives
  for the same key name the same identity, and the later one does not rank below the earlier one:
  a retirement is never followed by a live record, and a serial never goes backwards.
\<close>

theorem resolver_never_downgrades:
  assumes "resolver_inv c rs"
    and "lookup c tx request clock k rs w = (Inr (Some r), rs1, w1)"
    and "(client_step c tx request)\<^sup>*\<^sup>* (rs1, w1) (rs2, w2)"
    and "lookup c tx request clock' k rs2 w2 = (Inr (Some r'), rs3, w3)"
  shows "sr_identity r' = sr_identity r \<and>
    (is_terminal (sr_record r) \<longrightarrow> is_terminal (sr_record r')) \<and>
    (is_terminal (sr_record r) = is_terminal (sr_record r') \<longrightarrow> rec_serial (sr_record r) \<le> rec_serial (sr_record r'))"
proof -
  have 1: "progress c rs rs1" "map_of (rs_marks rs1) k = Some (seen_of r)"
    using lookup_ok [OF assms(1,2)] by (auto simp: answered_def)
  then have inv1: "resolver_inv c rs1" by (simp add: progress_def)
  have 2: "progress c rs1 rs2" using client_steps_progress [OF assms(3)] inv1 by simp
  then have inv2: "resolver_inv c rs2" by (simp add: progress_def)
  have 3: "progress c rs2 rs3" "map_of (rs_marks rs3) k = Some (seen_of r')"
    using lookup_ok [OF inv2 assms(4)] by (auto simp: answered_def)
  have "marks_le rs1 rs3" using progress_trans [OF 2 3(1)] by (simp add: progress_def)
  with 1(2) 3(2) have "sr_identity r' = sr_identity r" "rank_of (sr_record r) \<le> rank_of (sr_record r')"
    by (auto simp: marks_le_def seen_of_def dest!: spec [of _ k])
  then show ?thesis by (auto simp: rank_of_def less_eq_rank_def)
qed

section \<open>Which answer counts\<close>

text \<open>Servers that each answer in a fixed way; a usable answer is one that is not an error.\<close>

fun usable :: "response res \<Rightarrow> bool" where
  "usable (Inl _) = False"
| "usable (Inr (ErrorResp _ _)) = False"
| "usable (Inr _) = True"

lemma try_loop_first:
  assumes "request = (\<lambda>i q w. (f i, w))"
  shows "(case find (\<lambda>(i, _). usable (f i)) servers of
      Some (i, _) \<Rightarrow> try_loop tx request q what servers errs w = (f i, w)
    | None \<Rightarrow> \<exists>m. try_loop tx request q what servers errs w = (Inl (E_NoServer m), w))"
proof (induction servers arbitrary: errs)
  case Nil
  then show ?case by simp
next
  case (Cons s servers)
  obtain i a where s: "s = (i, a)" by (cases s)
  show ?case
  proof (cases "usable (f i)")
    case True
    then have "try_loop tx request q what (s # servers) errs w = (f i, w)"
      by (cases "f i" rule: usable.cases) (simp_all add: s assms)
    with True show ?thesis by (simp add: s)
  next
    case False
    then obtain errs' where step: "try_loop tx request q what (s # servers) errs w = try_loop tx request q what servers errs' w"
      by (cases "f i" rule: usable.cases) (simp_all add: s assms)
    have "find (\<lambda>(i, _). usable (f i)) (s # servers) = find (\<lambda>(i, _). usable (f i)) servers"
      using False by (simp add: s)
    with Cons.IH [of errs'] show ?thesis unfolding step by simp
  qed
qed

lemma find_enumerate:
  assumes "i < length xs" and "P i" and "\<And>j. j < i \<Longrightarrow> \<not> P j"
  shows "find (\<lambda>(j, _). P j) (List.enumerate 0 xs) = Some (i, xs ! i)"
  unfolding find_Some_iff using assms
  by (intro exI [of _ i]) (auto simp: nth_enumerate_eq)

lemma try_servers_first:
  assumes "request = (\<lambda>i q w. (f i, w))"
    and "i < length (rc_servers (rs_config rs))" and "usable (f i)" and "\<And>j. j < i \<Longrightarrow> \<not> usable (f j)"
  shows "try_servers tx request q what rs w = (f i, w)"
  using try_loop_first [OF assms(1), where servers = "List.enumerate 0 (rc_servers (rs_config rs))"]
    find_enumerate [OF assms(2), of "\<lambda>j. usable (f j)"] assms(3,4)
  by (simp add: try_servers_def)

text \<open>
  The first answer decides. A lookup takes the answer of the first server that gives one that is not
  an error and asks no further: if that server has no record the lookup reports that there is none,
  and if its answer does not verify the lookup fails, whatever the servers after it hold.
\<close>

theorem first_answer_decides:
  assumes "request = (\<lambda>i q w. (f i, w))" and "\<not> rc_cache (rs_config rs)"
    and "i < length (rc_servers (rs_config rs))" and "\<And>j. j < i \<Longrightarrow> \<not> usable (f j)"
    and "f i = Inr (Answer found succ)"
  shows "fst (lookup c tx request clock k rs w) =
    (case found of
       None \<Rightarrow> Inr None
     | Some r \<Rightarrow> rbind (verify_answer c r k (clock 1)) (\<lambda>_. rbind (fst (note_rank r rs)) (\<lambda>_. Inr (Some r))))"
proof -
  have "usable (f i)" using assms(5) by simp
  from try_servers_first [OF assms(1,3) this assms(4)] assms(2,5) show ?thesis
    by (auto simp: lookup_def fetch_def fetch_servers_def case_prod_unfold Let_def split: option.splits sum.splits)
qed

section \<open>How far rotations are followed\<close>

text \<open>\<open>rotation_chain ok recs ks\<close>: each key of \<open>ks\<close> forwards to the next, and the last one is live.\<close>

fun rotation_chain :: "(pubkey \<Rightarrow> signed_record \<Rightarrow> bool) \<Rightarrow> (pubkey \<Rightarrow> signed_record option) \<Rightarrow> pubkey list \<Rightarrow> bool" where
  "rotation_chain ok recs [] = False"
| "rotation_chain ok recs [k] =
     (case recs k of None \<Rightarrow> False | Some r \<Rightarrow> ok k r \<and> \<not> is_terminal (sr_record r))"
| "rotation_chain ok recs (k # k' # ks) =
     ((case recs k of None \<Rightarrow> False | Some r \<Rightarrow> ok k r \<and> successor (sr_record r) = Some k') \<and>
      rotation_chain ok recs (k' # ks))"

text \<open>Servers that all hold the same records, and never send a successor along.\<close>

definition honest :: "(pubkey \<Rightarrow> signed_record option) \<Rightarrow> 'w requests \<Rightarrow> bool" where
  "honest recs request \<longleftrightarrow> (\<forall>i k n w. request i (Lookup k n) w = (Inr (Answer (recs k) None), w))"

lemma fetch_honest:
  assumes "honest recs request" and "rc_servers (rs_config rs) \<noteq> []" and "\<not> rc_cache (rs_config rs)"
    and "recs k = Some r" and "verify_answer c r k (clock 1) = Inr ()" and "map_of (rs_marks rs) k = None"
  shows "fetch c tx request clock k rs w =
    (Inr (Some r, None), rs\<lparr>rs_marks := AList.update k (seen_of r) (rs_marks rs)\<rparr>, w)"
proof -
  obtain a as where "rc_servers (rs_config rs) = a # as" using assms(2) by (cases "rc_servers (rs_config rs)") auto
  then have "try_servers tx request (Lookup k n) what rs w = (Inr (Answer (Some r) None), w)" for n what
    using assms(1,4) by (simp add: try_servers_def honest_def)
  moreover have "sr_key r = k" using assms(5) by (simp add: verify_answer_chain chain_ok_def)
  ultimately show ?thesis
    using assms(3,5,6) by (simp add: fetch_def fetch_servers_def note_rank_def cache_answer_def)
qed

lemma no_retirement:
  "successor (sr_record r) = Some k \<Longrightarrow> revocation_error r = None"
  "\<not> is_terminal (sr_record r) \<Longrightarrow> revocation_error r = None"
  "\<not> is_terminal (sr_record r) \<Longrightarrow> successor (sr_record r) = None"
  by (auto simp: live_iff) (auto simp: successor_def revocation_error_def split: record_body.splits)

lemma resolve_loop_chain:
  fixes request :: "'w requests"
  assumes "honest recs request"
  shows "rotation_chain (\<lambda>k r. verify_answer c r k now = Inr ()) recs (k # ks) \<Longrightarrow> distinct (k # ks) \<Longrightarrow>
    set ks \<inter> set visited = {} \<Longrightarrow> set (k # ks) \<inter> dom (map_of (rs_marks rs)) = {} \<Longrightarrow>
    rc_servers (rs_config rs) \<noteq> [] \<Longrightarrow> \<not> rc_cache (rs_config rs) \<Longrightarrow>
    (if length ks < n
     then \<exists>loc. fst (resolve_loop c tx request rng (\<lambda>_. now) key n i k visited chain None rs w) = Inr loc \<and>
            sl_key loc = last (k # ks) \<and> sl_superseded_from loc = chain @ butlast (k # ks)
     else \<exists>m. fst (resolve_loop c tx request rng (\<lambda>_. now) key n i k visited chain None rs w) = Inl (E_SupersedeChain m))"
proof (induction ks arbitrary: n i k visited chain rs)
  case Nil
  show ?case
  proof (cases n)
    case 0
    then show ?thesis by simp
  next
    case (Suc n')
    from Nil(1) obtain r where r: "recs k = Some r" "verify_answer c r k now = Inr ()" "\<not> is_terminal (sr_record r)"
      by (auto split: option.splits)
    have "map_of (rs_marks rs) k = None" using Nil(4) by auto
    from fetch_honest [where clock = "\<lambda>_. now", OF assms(1) Nil(5,6) r(1,2) this]
    have "fetch c tx request (\<lambda>_. now) k rs w = (Inr (Some r, None), rs\<lparr>rs_marks := AList.update k (seen_of r) (rs_marks rs)\<rparr>, w)" .
    moreover have "sr_key r = k" using r(2) by (simp add: verify_answer_chain chain_ok_def)
    ultimately show ?thesis using no_retirement(2,3) [OF r(3)] by (simp add: Suc)
  qed
next
  case (Cons k' ks)
  show ?case
  proof (cases n)
    case 0
    then show ?thesis by simp
  next
    case (Suc n')
    from Cons.prems(1) obtain r where r: "recs k = Some r" "verify_answer c r k now = Inr ()" "successor (sr_record r) = Some k'"
      by (auto split: option.splits)
    let ?rs = "rs\<lparr>rs_marks := AList.update k (seen_of r) (rs_marks rs)\<rparr>"
    have "map_of (rs_marks rs) k = None" using Cons.prems(4) by auto
    from fetch_honest [where clock = "\<lambda>_. now", OF assms(1) Cons.prems(5,6) r(1,2) this]
    have f: "fetch c tx request (\<lambda>_. now) k rs w = (Inr (Some r, None), ?rs, w)" .
    have "k' \<notin> set visited" using Cons.prems(3) by auto
    then have step: "resolve_loop c tx request rng (\<lambda>_. now) key n i k visited chain None rs w =
        resolve_loop c tx request rng (\<lambda>_. now) key n' (Suc i) k' (k' # visited) (chain @ [k]) None ?rs w"
      using f no_retirement(1) [OF r(3)] r(3) by (simp add: Suc prefetch_def)
    have "rotation_chain (\<lambda>k r. verify_answer c r k now = Inr ()) recs (k' # ks)" "distinct (k' # ks)"
      "set ks \<inter> set (k' # visited) = {}" "set (k' # ks) \<inter> dom (map_of (rs_marks ?rs)) = {}"
      "rc_servers (rs_config ?rs) \<noteq> []" "\<not> rc_cache (rs_config ?rs)"
      using Cons.prems by auto
    from Cons.IH [OF this, of n' "Suc i" "chain @ [k]"] show ?thesis
      unfolding step by (auto simp: Suc)
  qed
qed


section \<open>An example\<close>

text \<open>One server that holds a rotation of one key to another and the live record of that one.\<close>

definition sample_config :: resolver_config where
  "sample_config = config_default\<lparr>rc_servers := [addr_new (lit ''ns'') 5300 (key_n 9)], rc_cache := False\<rparr>"

definition sample_resolver :: resolver where
  "sample_resolver = \<lparr>rs_config = sample_config, rs_cache = cache_new, rs_marks = []\<rparr>"

definition addr_texts :: "server_addr texts" where
  "addr_texts = \<lparr>show_error = (\<lambda>_. lit ''error''), show_link = ad_host, debug_code = (\<lambda>_. lit ''code''),
     debug_response = (\<lambda>_. lit ''response''), stale_message = (\<lambda>_ _. lit ''stale'')\<rparr>"

definition sample_recs :: "pubkey \<Rightarrow> signed_record option" where
  "sample_recs = [key_n 2 \<mapsto> superseded 1 2 6 1010 3, key_n 3 \<mapsto> live 1 3 1 1010 300 [v4_endpoint 5300]]"

definition serve :: "(pubkey \<Rightarrow> signed_record option) \<Rightarrow> unit requests" where
  "serve recs i q w = ((case q of Lookup k _ \<Rightarrow> Inr (Answer (recs k) None) | _ \<Rightarrow> Inl (E_Connection (plain ''down''))), w)"

lemma sample_resolver_new: "resolver_new sample_config = Inr sample_resolver"
  by (simp add: resolver_new_def sample_config_def sample_resolver_def)

lemma sample_resolver_inv: "resolver_inv c sample_resolver"
  using resolver_inv_new [OF sample_resolver_new] .

lemma sample_resolver_simps:
  "rc_servers (rs_config sample_resolver) = [addr_new (lit ''ns'') 5300 (key_n 9)]"
  "\<not> rc_cache (rs_config sample_resolver)" "rs_marks sample_resolver = []"
  by (simp_all add: sample_resolver_def sample_config_def)

lemma sample_answers:
  "verify_answer toy_ed25519 (superseded 1 2 6 1010 3) (key_n 2) 1100 = Inr ()"
  "verify_answer toy_ed25519 (live 1 3 1 1010 300 [v4_endpoint 5300]) (key_n 3) 1100 = Inr ()"
  by (simp_all add: verify_answer_iff sample_checks)

lemma successor_superseded [simp]: "successor (sr_record (superseded i k n t s)) = Some (key_n s)"
  by (simp add: successor_def superseded_def)

lemma sample_chain:
  "rotation_chain (\<lambda>k r. verify_answer toy_ed25519 r k 1100 = Inr ()) sample_recs [key_n 2, key_n 3]"
  by (simp add: sample_recs_def sample_answers)

lemma serve_honest: "honest recs (serve recs)"
  by (simp add: honest_def serve_def)


theorem resolve_service_sound_witness:
  "\<exists>loc. fst (resolve_service toy_ed25519 addr_texts (serve sample_recs) (\<lambda>_ _. 0) (\<lambda>_. 1100) (key_n 2) sample_resolver ()) = Inr loc \<and>
     forwards toy_ed25519 (key_n 2) [key_n 2] (key_n 3) \<and> is_stale loc \<and> sl_key loc = key_n 3"
proof -
  let ?run = "resolve_service toy_ed25519 addr_texts (serve sample_recs) (\<lambda>_ _. 0) (\<lambda>_. 1100) (key_n 2) sample_resolver ()"
  have "\<exists>loc. fst ?run = Inr loc \<and> sl_key loc = key_n 3 \<and> sl_superseded_from loc = [key_n 2]"
    using resolve_loop_chain [OF serve_honest sample_chain, where n = 8 and i = 0 and chain = "[]" and
        rs = sample_resolver and visited = "[key_n 2]" and tx = addr_texts and rng = "\<lambda>_ _. 0" and key = "key_n 2" and w = "()"]
    by (simp add: sample_resolver_simps resolve_service_def MAX_SUPERSEDE_HOPS_def)
  then obtain loc rs' w' where run: "?run = (Inr loc, rs', w')" and loc: "sl_key loc = key_n 3" "sl_superseded_from loc = [key_n 2]"
    by (cases ?run) auto
  from resolve_service_sound [OF sample_resolver_inv run] loc run show ?thesis by simp
qed

theorem resolver_never_downgrades_witness:
  "fst (lookup toy_ed25519 addr_texts (serve sample_recs) (\<lambda>_. 1100) (key_n 2) sample_resolver ()) =
     Inr (Some (superseded 1 2 6 1010 3)) \<and>
   sr_identity (superseded 1 2 6 1010 3) = key_n 1 \<and>
   rec_serial (sr_record (superseded 1 2 6 1010 3)) \<le> rec_serial (sr_record (superseded 1 2 6 1010 3))"
proof -
  let ?r = "superseded 1 2 6 1010 3"
  let ?rs = "sample_resolver\<lparr>rs_marks := AList.update (key_n 2) (seen_of ?r) []\<rparr>"
  have 1: "lookup toy_ed25519 addr_texts (serve sample_recs) (\<lambda>_. 1100) (key_n 2) sample_resolver () = (Inr (Some ?r), ?rs, ())"
    using fetch_honest [OF serve_honest, where rs = sample_resolver and k = "key_n 2" and r = ?r and c = toy_ed25519
        and clock = "\<lambda>_. 1100" and tx = addr_texts and w = "()" and recs = sample_recs]
    by (simp add: lookup_def sample_resolver_simps sample_recs_def sample_answers)
  have 2: "lookup toy_ed25519 addr_texts (serve sample_recs) (\<lambda>_. 1100) (key_n 2) ?rs () = (Inr (Some ?r), ?rs, ())"
    by (simp add: lookup_def fetch_def fetch_servers_def sample_resolver_simps try_servers_def serve_def sample_recs_def
        sample_answers note_rank_def cache_answer_def)
  from resolver_never_downgrades [OF sample_resolver_inv 1 rtranclp.rtrancl_refl 2] 1 show ?thesis by simp
qed

theorem first_answer_decides_witness:
  "fst (lookup toy_ed25519 addr_texts (\<lambda>i q w. ((if i = 0 then Inr (Answer None None) else Inr (Answer (Some (superseded 1 2 6 1010 3)) None)), w))
     (\<lambda>_. 1100) (key_n 2) (sample_resolver\<lparr>rs_config := sample_config\<lparr>rc_servers := [addr_new (lit ''a'') 1 (key_n 8), addr_new (lit ''b'') 1 (key_n 9)]\<rparr>\<rparr>) ()) =
   Inr None"
  by (subst first_answer_decides [where i = 0 and found = None and succ = None and
        f = "\<lambda>i. if i = 0 then Inr (Answer None None) else Inr (Answer (Some (superseded 1 2 6 1010 3)) None)"])
    (simp_all add: sample_config_def)

end
