(* ===== verification/Typing.thy ===== *)
theory Typing
  imports Server Replication
begin

text \<open>
  Well-formedness as a type system over the server: what is read from the wire or from a snapshot is
  well-formed (lengths, text encodings, sizes that fit their prefixes), every operation of the
  server keeps its state well-formed, and so whatever a server sends or writes can be read back.
\<close>

section \<open>Stores\<close>

definition store_ok :: "store \<Rightarrow> bool" where
  "store_ok st \<longleftrightarrow>
     (\<forall>k r. held st k = Some r \<longrightarrow> signed_record_ok r) \<and>
     (\<forall>k i. bound st k = Some i \<longrightarrow> pubkey_ok k \<and> pubkey_ok i)"

lemma store_ok_new: "store_ok (store_new p)"
  by (simp add: store_ok_def store_new_def)

lemma signed_record_keys: "signed_record_ok r \<Longrightarrow> pubkey_ok (sr_key r) \<and> pubkey_ok (sr_identity r)"
  by (simp add: signed_record_ok_def record_ok_def delegation_ok_def sr_key_def sr_identity_def rec_identity_def)

lemma store_ok_bind: "store_ok st \<Longrightarrow> pubkey_ok k \<Longrightarrow> pubkey_ok i \<Longrightarrow> store_ok (bind k i st)"
  by (auto simp: store_ok_def bound_bind)

lemma store_ok_put: "store_ok st \<Longrightarrow> signed_record_ok r \<Longrightarrow> store_ok (snd (put c now r st))"
  using signed_record_keys [of r]
  by (cases rule: put_cases [of c now r st])
    (auto simp: store_ok_def held_put_result bound_put_result split: if_splits)

lemma store_ok_purge: "store_ok st \<Longrightarrow> hm_wf (st_records st) \<Longrightarrow> store_ok (snd (purge_expired now st))"
  by (auto simp: store_ok_def held_purge split: option.splits if_splits)

lemma store_ok_load:
  "store_ok st \<Longrightarrow> \<forall>r \<in> set rs. signed_record_ok r \<Longrightarrow> store_ok (load_records c now clock n rs st)"
  by (induction rs arbitrary: n st) (auto intro: store_ok_put)

lemma store_ok_bind_all:
  "store_ok st \<Longrightarrow> \<forall>(k, i) \<in> set bs. pubkey_ok k \<and> pubkey_ok i \<Longrightarrow> store_ok (fold (\<lambda>(k, i). bind k i) bs st)"
  by (induction bs arbitrary: st) (auto intro: store_ok_bind)

lemma hm_insert_all_sub: "set (hm_insert_all ps) \<subseteq> set ps"
proof -
  have "set (fold (\<lambda>(k, v) m. AList.update k v m) ps m) \<subseteq> set m \<union> set ps" for m
  proof (induction ps arbitrary: m)
    case (Cons p ps)
    have "set (AList.update (fst p) (snd p) m) \<subseteq> insert p (set m)"
      by (induction m) auto
    with Cons.IH [of "AList.update (fst p) (snd p) m"] show ?case by (auto simp: case_prod_unfold)
  qed simp
  from this [of "[]"] show ?thesis by (simp add: hm_insert_all_def)
qed

lemma store_ok_open:
  assumes "open_store c clock fs p = Inr st"
  shows "store_ok st"
proof -
  have "(\<forall>r \<in> set rs. signed_record_ok r) \<and> (\<forall>(k, i) \<in> set bs. pubkey_ok k \<and> pubkey_ok i)"
    if "decode_snapshot b = Inr (rs, bs)" for b rs bs
    using that hm_insert_all_sub by (fastforce simp: decode_snapshot_def snapshot.full_iff snapshot_ok_def)
  then show ?thesis
    using assms
    by (fastforce simp: open_store_def Let_def split: option.splits disk_file.splits sum.splits
        intro: store_ok_new intro!: store_ok_load store_ok_bind_all)
qed

lemma persistable_iff:
  assumes "store_inv c st" and "store_ok st"
  shows "persistable st \<longleftrightarrow> length (st_records st) < 2 ^ 32 \<and> length (st_bindings st) < 2 ^ 32"
  using assms by (fastforce simp: persistable_def store_ok_def store_inv_def map_of_eq_Some_iff)

section \<open>The relay\<close>

definition cache_typed :: "cache option \<Rightarrow> bool" where
  "cache_typed ca \<longleftrightarrow> (case ca of None \<Rightarrow> True | Some x \<Rightarrow> ca.vetted (\<lambda>_. signed_record_ok) x)"

lemma cache_typed_simps [simp]:
  "cache_typed None"
  "cache_typed (Some x) \<longleftrightarrow> ca.vetted (\<lambda>_. signed_record_ok) x"
  by (simp_all add: cache_typed_def)

lemma cache_typed_purge: "cache_typed (up_cache up) \<Longrightarrow> cache_typed (up_cache (snd (up_purge now up)))"
  using ca.vetted_purge [of _ "\<lambda>_. signed_record_ok" now]
  by (cases "up_cache up") (auto simp: up_purge_def case_prod_unfold Let_def)

text \<open>Responses from other servers were decoded from bytes.\<close>

definition ask_ok :: "('l \<Rightarrow> request \<Rightarrow> 'w \<Rightarrow> ask_outcome \<times> 'w) \<Rightarrow> bool" where
  "ask_ok ask \<longleftrightarrow> (\<forall>l q w resp w'. ask l q w = (Responded resp, w') \<longrightarrow> response_ok resp)"

lemma cache_typed_relayed:
  assumes "cache_typed ca" and "signed_record_ok r" and "slot_ok succ"
  shows "cache_typed (cache_relayed r succ ca)"
  using assms by (cases ca; cases succ) (auto simp: cache_relayed_def ca.put_found ca.keeps_wf split: if_splits)

lemma up_loop_typed:
  assumes "up_loop c tx ask clock st key req ls i errs n ca w = (out, ca', w')" and "ask_ok ask" and "cache_typed ca"
  shows "cache_typed ca' \<and> (\<forall>rel. out = Inl rel \<longrightarrow> signed_record_ok (rl_record rel) \<and> slot_ok (rl_successor rel))"
  using assms
proof (induction ls arbitrary: i errs n ca w)
  case Nil
  then show ?case by auto
next
  case (Cons l ls)
  show ?case
  proof (cases "\<exists>rcd succ w1. ask l req w = (Responded (Answer (Some rcd) succ), w1) \<and>
      is_ok (accept c (clock (2 + 2 * i)) st key rcd)")
    case True
    then obtain rcd succ w1 where a: "ask l req w = (Responded (Answer (Some rcd) succ), w1)"
      and ok: "accept c (clock (2 + 2 * i)) st key rcd = Inr ()" by (auto simp: is_ok_iff)
    let ?s = "case succ of None \<Rightarrow> None | Some s \<Rightarrow> accept_successor c (clock (3 + 2 * i)) st rcd s"
    have out: "out = Inl \<lparr>rl_record = rcd, rl_successor = ?s\<rparr>" and ca': "ca' = cache_relayed rcd ?s ca"
      using Cons.prems(1) ok by (auto simp: a Let_def)
    have r: "signed_record_ok rcd" "slot_ok succ" using Cons.prems(2) a by (fastforce simp: ask_ok_def)+
    then have s: "slot_ok ?s"
      by (cases succ) (auto simp: accept_successor_def split: option.splits)
    from cache_typed_relayed [OF Cons.prems(3) r(1) s] r(1) s show ?thesis by (simp add: out ca')
  next
    case False
    then show ?thesis
      using Cons.prems Cons.IH
      by (auto simp: is_ok_iff split: prod.splits ask_outcome.splits response.splits option.splits sum.splits)
  qed
qed

lemma cached_successor_typed:
  assumes "cached_successor now r ca = (succ, ca')" and "cache_typed (Some ca)"
  shows "cache_typed (Some ca') \<and> slot_ok succ"
proof (cases "successor (sr_record r)")
  case None
  with assms show ?thesis by (auto simp: cached_successor_def)
next
  case (Some nxt)
  have "signed_record_ok s" if "fst (cache_get now nxt ca) = Some (Some s)" for s
    using ca.vetted_hit [OF _ that, of "\<lambda>_. signed_record_ok"] assms(2) by simp
  moreover have "ca.vetted (\<lambda>_. signed_record_ok) (snd (cache_get now nxt ca))"
    using assms(2) by (intro ca.vetted_get) simp
  ultimately show ?thesis
    using assms(1) Some by (auto simp: cached_successor_def split: prod.splits option.splits)
qed

lemma up_ask_typed:
  assumes "up_ask c tx ask clock st key recurse up w = (out, up', w')" and "ask_ok ask" and "cache_typed (up_cache up)"
  shows "cache_typed (up_cache up') \<and>
    (\<forall>rel. out = Inr (Some rel) \<longrightarrow> signed_record_ok (rl_record rel) \<and> slot_ok (rl_successor rel))"
proof -
  obtain res ca w1 where l: "up_loop c tx ask clock st key (Lookup key recurse) (up_links up) 0 [] 0
      (up_cache up) w = (res, ca, w1)"
    by (cases "up_loop c tx ask clock st key (Lookup key recurse) (up_links up) 0 [] 0 (up_cache up) w") auto
  note t = up_loop_typed [OF l assms(2,3)]
  have "cache_typed (map_option (put_missing now k) ca)" for now k
    using t by (cases ca) (auto simp: ca.miss_found ca.keeps_wf split: if_splits)
  with t l assms(1) show ?thesis
    by (cases res) (auto simp: up_ask_def Let_def split: if_splits)
qed

lemma up_lookup_typed:
  assumes "up_lookup c tx ask clock st key recurse up w = (out, up', w')" and "ask_ok ask" and "cache_typed (up_cache up)"
  shows "cache_typed (up_cache up') \<and>
    (\<forall>rel. out = Inr (Some rel) \<longrightarrow> signed_record_ok (rl_record rel) \<and> slot_ok (rl_successor rel))"
proof (cases "up_cache up")
  case None
  then have "up_ask c tx ask clock st key recurse up w = (out, up', w')" using assms(1) by (simp add: up_lookup_def)
  from up_ask_typed [OF this assms(2,3)] show ?thesis .
next
  case (Some ca)
  define ca1 where "ca1 = snd (cache_get (clock 0) key ca)"
  have v: "ca.vetted (\<lambda>_. signed_record_ok) ca" using assms(3) Some by simp
  have v1: "cache_typed (Some ca1)" using ca.vetted_get [OF v] by (simp add: ca1_def)
  show ?thesis
  proof (cases "fst (cache_get (clock 0) key ca)")
    case None
    then have "up_ask c tx ask clock st key recurse (up\<lparr>up_cache := Some ca1\<rparr>) w = (out, up', w')"
      using assms(1) Some by (simp add: up_lookup_def ca1_def case_prod_unfold Let_def)
    from up_ask_typed [OF this assms(2)] v1 show ?thesis by simp
  next
    case hit: (Some h)
    show ?thesis
    proof (cases h)
      case None
      then show ?thesis
        using assms(1) Some hit v1 by (auto simp: up_lookup_def ca1_def case_prod_unfold Let_def)
    next
      case h: (Some rcd)
      obtain succ ca2 where s: "cached_successor (clock 1) rcd ca1 = (succ, ca2)" by fastforce
      have "signed_record_ok rcd" using ca.vetted_hit [OF v, of "clock 0" key rcd] hit h by simp
      moreover have "out = Inr (Some \<lparr>rl_record = rcd, rl_successor = succ\<rparr>)" "up' = up\<lparr>up_cache := Some ca2\<rparr>"
        using assms(1) Some hit h s by (auto simp: up_lookup_def ca1_def case_prod_unfold Let_def)
      ultimately show ?thesis using cached_successor_typed [OF s v1] by simp
    qed
  qed
qed

section \<open>The server\<close>

definition server_ok :: "'l server \<Rightarrow> bool" where
  "server_ok sv \<longleftrightarrow> store_ok (sv_store sv) \<and> cache_typed (up_cache (sv_upstream sv))"

lemma get_typed: "store_ok st \<Longrightarrow> get now k st = Some r \<Longrightarrow> signed_record_ok r"
  by (auto simp: store_ok_def get_held)

lemma slot_get_typed: "store_ok st \<Longrightarrow> slot_ok (get now k st)"
  using get_typed [of st now k] by (cases "get now k st") auto

lemma identity_records_typed:
  assumes "store_ok st" and "r \<in> set (identity_records now i n st)"
  shows "signed_record_ok r"
  using assms by (force simp: identity_records_def store_ok_def List.map_filter_def split: option.splits dest!: in_set_takeD)

lemma length_identity_records: "length (identity_records now i n st) \<le> n"
  by (simp add: identity_records_def split: option.splits)

lemma since_typed:
  assumes "store_ok st" and "hm_wf (st_records st)" and "r \<in> set (fst (since now from n st))"
  shows "signed_record_ok r"
  using assms by (auto simp: since_eq store_ok_def set_sync_list dest!: in_set_takeD)

lemma u16_clamp_batch: "unat (u16_clamp n 1 MAX_SYNC_BATCH) \<le> 512"
  by (auto simp: u16_clamp_def MAX_SYNC_BATCH_def not_less word_le_nat_alt)

text \<open>An error, whose text may be of any length, or a well-formed response.\<close>

definition sendable :: "response \<Rightarrow> bool" where
  "sendable resp \<longleftrightarrow> (\<exists>code m. resp = ErrorResp code m) \<or> response_ok resp"

lemma handle_lookup_typed:
  assumes "handle_lookup c en key n sv w = (resp, sv', w')" and "server_ok sv" and "ask_ok (en_ask en)"
  shows "sendable resp \<and> server_ok sv'"
proof (cases "get (en_clock en 0) key (sv_store sv) \<noteq> None \<or> n = 0 \<or> up_is_empty (sv_upstream sv)")
  case True
  have st: "store_ok (sv_store sv)" using assms(2) by (simp add: server_ok_def)
  note g = get_typed [OF st] slot_get_typed [OF st]
  from True assms(1,2) g show ?thesis
    by (auto simp: handle_lookup_def sendable_def Let_def split: option.splits if_splits)
next
  case False
  obtain out up w1 where up: "up_lookup c (en_texts en) (en_ask en) (\<lambda>n. en_clock en (n + 2)) (sv_store sv)
      key (n - 1) (sv_upstream sv) w = (out, up, w1)"
    by (cases "up_lookup c (en_texts en) (en_ask en) (\<lambda>n. en_clock en (n + 2)) (sv_store sv) key (n - 1)
      (sv_upstream sv) w") auto
  have t: "cache_typed (up_cache up)"
    "\<And>rel. out = Inr (Some rel) \<Longrightarrow> signed_record_ok (rl_record rel) \<and> slot_ok (rl_successor rel)"
    using up_lookup_typed [OF up assms(3)] assms(2) by (auto simp: server_ok_def)
  from False up assms(1) have sv': "sv' = sv\<lparr>sv_upstream := up\<rparr>"
    by (auto simp: handle_lookup_def Let_def split: option.splits sum.splits)
  have "sendable resp"
    using False up assms(1) t(2)
    by (auto simp: handle_lookup_def sendable_def Let_def split: option.splits sum.splits)
  with sv' t(1) assms(2) show ?thesis by (simp add: server_ok_def)
qed

lemma handle_publish_typed:
  assumes "handle_publish c en r sv = (resp, sv', pushes)" and "server_ok sv" and "signed_record_ok r"
  shows "sendable resp \<and> server_ok sv' \<and> (\<forall>r \<in> set pushes. signed_record_ok r)"
proof -
  obtain out st where p: "put c (en_clock en 0) r (sv_store sv) = (out, st)" by fastforce
  have st: "store_ok st"
    using store_ok_put [of "sv_store sv" r c "en_clock en 0"] assms(2,3) p by (simp add: server_ok_def)
  consider "out = Inr Stored" | "out = Inr Stale" | e where "out = Inl e"
    by (cases out) (metis put_outcome.exhaust)+
  then show ?thesis
    using assms st by cases (auto simp: handle_publish_def p server_ok_def sendable_def)
qed

lemma handle_typed:
  assumes "handle c en q sv w = (resp, sv', pushes, w')" and "server_ok sv" and "request_ok q"
    and "hm_wf (st_records (sv_store sv))" and "ask_ok (en_ask en)" and "string_ok (en_version en)"
  shows "sendable resp \<and> server_ok sv' \<and> (\<forall>r \<in> set pushes. signed_record_ok r)"
proof (cases q)
  case (Lookup key n)
  with assms(1) handle_lookup_typed [OF _ assms(2,5), of c key n w] show ?thesis
    by (auto split: prod.splits)
next
  case (Publish r)
  with assms(1,3) handle_publish_typed [OF _ assms(2), of c en r] show ?thesis
    by (auto split: prod.splits)
next
  case Status
  with assms show ?thesis by (auto simp: sendable_def status_def)
next
  case (LookupIdentity i)
  have "store_ok (sv_store sv)" using assms(2) by (simp add: server_ok_def)
  with LookupIdentity assms(1,2) show ?thesis
    using length_identity_records [of "en_clock en 0" i 512 "sv_store sv"]
    by (auto simp: sendable_def MAX_SYNC_BATCH_def dest: identity_records_typed)
next
  case (Sync since_at limit)
  have st: "store_ok (sv_store sv)" using assms(2) by (simp add: server_ok_def)
  let ?s = "since (en_clock en 0) since_at (unat (u16_clamp limit 1 MAX_SYNC_BATCH)) (sv_store sv)"
  have "length (fst ?s) \<le> 512" using u16_clamp_batch [of limit] by (simp add: since_eq)
  moreover have "\<forall>r \<in> set (fst ?s). signed_record_ok r" using since_typed [OF st assms(4)] by blast
  ultimately have "response_ok (Records (fst ?s) (snd ?s))" by simp
  then show ?thesis
    using Sync assms(1,2) by (auto simp: sendable_def case_prod_unfold Let_def split: if_splits)
qed

end
