(* ===== verification/Key_File.thy ===== *)
theory Key_File
  imports Key_Text
begin

unbundle bit_operations_syntax

text \<open>
  Private keys on disk and the sqns directory (\<open>crates/sqns-core/src/key.rs\<close>). A path is its list of
  components, a file system maps paths to files and directories with their permission bits, and
  \<open>umask\<close> is the mask of the process. The process may read and write every file; what can go wrong is a
  missing file or directory, a directory in the place of a file, or the other way round.
\<close>

section \<open>Files with permissions\<close>

type_synonym path = "rstring list"

datatype node = File (nd_data: bytes) (nd_mode: u32) | Dir (nd_mode: u32)

type_synonym file_system = "path \<rightharpoonup> node"

abbreviation not_found :: error where
  "not_found \<equiv> E_Io (plain ''No such file or directory'')"

text \<open>\<open>Path::display\<close>: the components with slashes between them.\<close>

fun path_display :: "path \<Rightarrow> rstring" where
  "path_display [] = []"
| "path_display [c] = c"
| "path_display (c # cs) = c @ ch CHR ''/'' # path_display cs"

definition parent :: "path \<Rightarrow> path option" where
  "parent p = (if p = [] then None else Some (butlast p))"

definition exists_path :: "file_system \<Rightarrow> path \<Rightarrow> bool" where
  "exists_path fs p \<longleftrightarrow> fs p \<noteq> None"

text \<open>New files and directories get all the bits the mask leaves.\<close>

definition new_mode :: "u32 \<Rightarrow> u32 \<Rightarrow> u32" where
  "new_mode umask bits = bits AND NOT umask"

fun create_dirs :: "u32 \<Rightarrow> path list \<Rightarrow> file_system \<Rightarrow> unit res \<times> file_system" where
  "create_dirs umask [] fs = (Inr (), fs)"
| "create_dirs umask (p # ps) fs =
     (case fs p of
        None \<Rightarrow> create_dirs umask ps (fs(p \<mapsto> Dir (new_mode umask 511)))
      | Some (Dir _) \<Rightarrow> create_dirs umask ps fs
      | Some (File _ _) \<Rightarrow> (Inl (E_Io (plain ''File exists'')), fs))"

definition create_dir_all :: "u32 \<Rightarrow> path \<Rightarrow> file_system \<Rightarrow> unit res \<times> file_system" where
  "create_dir_all umask p fs = create_dirs umask (map (\<lambda>n. take (Suc n) p) [0..<length p]) fs"

definition is_dir :: "file_system \<Rightarrow> path \<Rightarrow> bool" where
  "is_dir fs p \<longleftrightarrow> (case fs p of Some (Dir _) \<Rightarrow> True | _ \<Rightarrow> False)"

definition fs_write :: "u32 \<Rightarrow> path \<Rightarrow> bytes \<Rightarrow> file_system \<Rightarrow> unit res \<times> file_system" where
  "fs_write umask p b fs =
     (case fs p of
        Some (Dir _) \<Rightarrow> (Inl (E_Io (plain ''Is a directory'')), fs)
      | Some (File _ mode) \<Rightarrow> (Inr (), fs(p \<mapsto> File b mode))
      | None \<Rightarrow>
          if p \<noteq> [] \<and> (butlast p = [] \<or> is_dir fs (butlast p))
          then (Inr (), fs(p \<mapsto> File b (new_mode umask 438)))
          else (Inl not_found, fs))"

definition set_permissions :: "path \<Rightarrow> u32 \<Rightarrow> file_system \<Rightarrow> unit res \<times> file_system" where
  "set_permissions p mode fs =
     (case fs p of
        None \<Rightarrow> (Inl not_found, fs)
      | Some (File b _) \<Rightarrow> (Inr (), fs(p \<mapsto> File b mode))
      | Some (Dir _) \<Rightarrow> (Inr (), fs(p \<mapsto> Dir mode)))"

definition read_to_string :: "path \<Rightarrow> file_system \<Rightarrow> rstring res" where
  "read_to_string p fs =
     (case fs p of
        Some (File b _) \<Rightarrow>
          if utf8_valid b then Inr b else Inl (E_Io (plain ''stream did not contain valid UTF-8''))
      | Some (Dir _) \<Rightarrow> Inl (E_Io (plain ''Is a directory''))
      | None \<Rightarrow> Inl not_found)"

section \<open>The sqns directory\<close>

text \<open>\<open>home_env\<close> is the value of \<open>SQNS_HOME\<close>, \<open>home_dir\<close> the answer of the \<open>dirs\<close> crate.\<close>

definition sqns_dir :: "path option \<Rightarrow> path option \<Rightarrow> path res" where
  "sqns_dir home_env home_dir =
     (case (case home_env of Some v \<Rightarrow> if v = [] then None else Some v | None \<Rightarrow> None) of
        Some dir \<Rightarrow> Inr dir
      | None \<Rightarrow>
        (case home_dir of
           Some home \<Rightarrow> Inr (home @ [lit ''.sqns''])
         | None \<Rightarrow> Inl (E_Key (plain ''could not determine your home directory''))))"

definition ensure_sqns_dir ::
  "u32 \<Rightarrow> path option \<Rightarrow> path option \<Rightarrow> file_system \<Rightarrow> path res \<times> file_system" where
  "ensure_sqns_dir umask home_env home_dir fs =
     (case sqns_dir home_env home_dir of
        Inl e \<Rightarrow> (Inl e, fs)
      | Inr dir \<Rightarrow>
        (case (if exists_path fs dir then (Inr (), fs) else create_dir_all umask dir fs) of
           (Inl e, fs) \<Rightarrow> (Inl e, fs)
         | (Inr _, fs) \<Rightarrow>
           (case set_permissions dir 448 fs of
              (Inl e, fs) \<Rightarrow> (Inl e, fs)
            | (Inr _, fs) \<Rightarrow> (Inr dir, fs))))"

definition default_path :: "path option \<Rightarrow> path option \<Rightarrow> rstring \<Rightarrow> path res" where
  "default_path home_env home_dir name = rbind (sqns_dir home_env home_dir) (\<lambda>d. Inr (d @ [name]))"

section \<open>Key files\<close>

definition load_secret_file :: "key_codecs \<Rightarrow> path \<Rightarrow> file_system \<Rightarrow> bytes res" where
  "load_secret_file kc p fs =
     (case fs p of
        None \<Rightarrow> Inl not_found
      | Some nd \<Rightarrow>
          if nd_mode nd AND 63 \<noteq> 0
          then Inl (E_Key (Msg ''{} is group/world accessible (mode {:o}); run: chmod 600 {}''
                      [unat (nd_mode nd AND 511)] p))
          else rbind (read_to_string p fs) (\<lambda>s. secret_from_hex kc (trim s)))"

text \<open>The steps of \<open>save_secret_file\<close>; each is one system call another process can run between.\<close>

datatype key_step = MakeDirs path | WriteKey path bytes | Chmod path u32

fun run_step :: "u32 \<Rightarrow> key_step \<Rightarrow> file_system \<Rightarrow> unit res \<times> file_system" where
  "run_step umask (MakeDirs p) fs = create_dir_all umask p fs"
| "run_step umask (WriteKey p b) fs = fs_write umask p b fs"
| "run_step umask (Chmod p mode) fs = set_permissions p mode fs"

fun run_steps :: "u32 \<Rightarrow> key_step list \<Rightarrow> file_system \<Rightarrow> unit res \<times> file_system" where
  "run_steps umask [] fs = (Inr (), fs)"
| "run_steps umask (s # ss) fs =
     (case run_step umask s fs of
        (Inl e, fs) \<Rightarrow> (Inl e, fs)
      | (Inr _, fs) \<Rightarrow> run_steps umask ss fs)"

definition save_steps :: "key_codecs \<Rightarrow> path \<Rightarrow> bytes \<Rightarrow> key_step list" where
  "save_steps kc p seed =
     (case parent p of Some dir \<Rightarrow> if dir \<noteq> [] then [MakeDirs dir] else [] | None \<Rightarrow> []) @
     [WriteKey p (hex_encode kc seed @ [10]), Chmod p 384]"

definition save_secret_file :: "key_codecs \<Rightarrow> u32 \<Rightarrow> path \<Rightarrow> bytes \<Rightarrow> file_system \<Rightarrow> unit res \<times> file_system" where
  "save_secret_file kc umask p seed fs = run_steps umask (save_steps kc p seed) fs"

section \<open>What the key files promise\<close>

lemma hex_text:
  assumes "key_codecs_correct kc"
  shows "hex_decode kc (hex_encode kc b) = Some b" "\<forall>x \<in> set (hex_encode kc b). is_ascii_hexdigit x"
    "length (hex_encode kc b) = 2 * length b"
  using assms by (simp_all add: key_codecs_correct_def)

lemma ends_blank_newline: "ends_blank (s @ [10]) = Some [10]"
proof -
  have "find (\<lambda>w. strip_suffix w (s @ [10]) \<noteq> None) white_space = Some [10]"
    by (simp add: white_space_def strip_suffix_def)
  then show ?thesis by (simp add: ends_blank_def)
qed

lemma trim_line:
  assumes "s \<noteq> []" and "\<forall>b \<in> set s. visible b"
  shows "trim (s @ [10]) = s"
proof -
  have "starts_blank (s @ [10]) = None" using assms starts_blank_visible by (cases s) auto
  then have "trim (s @ [10]) = trim_end (s @ [10])" by (simp add: trim_def trim_start.simps)
  also have "\<dots> = trim_end s" by (subst trim_end.simps) (simp add: ends_blank_newline)
  also have "\<dots> = s"
    using trim_all_visible [OF assms] starts_blank_visible [of "hd s" "tl s"] assms
    by (simp add: trim_def trim_start.simps)
  finally show ?thesis .
qed

lemma seed_text:
  assumes "key_codecs_correct kc" and "length seed = 32"
  shows "trim (hex_encode kc seed @ [10]) = hex_encode kc seed" "utf8_valid (hex_encode kc seed @ [10])"
    "secret_from_hex kc (hex_encode kc seed) = Inr seed"
proof -
  have vis: "\<forall>b \<in> set (hex_encode kc seed). visible b" using hex_text(2) [OF assms(1)] hexdigit_visible by blast
  have ne: "hex_encode kc seed \<noteq> []" using hex_text(3) [OF assms(1), of seed] assms(2) by auto
  show "trim (hex_encode kc seed @ [10]) = hex_encode kc seed" by (rule trim_line [OF ne vis])
  show "utf8_valid (hex_encode kc seed @ [10])"
    by (rule utf8_valid_ascii) (use vis in \<open>auto simp: visible_def\<close>)
  show "secret_from_hex kc (hex_encode kc seed) = Inr seed"
    using hex_text(1) [OF assms(1)] assms(2) by (simp add: secret_from_hex_def trim_all_visible [OF ne vis])
qed

text \<open>Where a saved key ends up.\<close>

lemma key_steps_append:
  "run_steps umask (xs @ ys) fs =
    (case run_steps umask xs fs of (Inl e, fs) \<Rightarrow> (Inl e, fs) | (Inr _, fs) \<Rightarrow> run_steps umask ys fs)"
  by (induction xs arbitrary: fs) (auto split: prod.splits sum.splits)

lemma save_secret_file_result:
  assumes "save_secret_file kc umask p seed fs = (Inr u, fs')"
  shows "fs' p = Some (File (hex_encode kc seed @ [10]) 384)"
  using assms
  by (auto simp: save_secret_file_def save_steps_def key_steps_append fs_write_def set_permissions_def
      split: prod.splits sum.splits option.splits node.splits if_splits)

lemma load_secret_private:
  "load_secret_file kc p fs = Inr seed \<Longrightarrow> \<exists>b mode. fs p = Some (File b mode) \<and> mode AND 63 = 0 \<and> length seed = 32"
  by (auto simp: load_secret_file_def read_to_string_def secret_from_hex_def
      split: option.splits node.splits if_splits)

text \<open>
  A private key that was saved is loaded again and readable by its owner only, and no key is ever
  loaded from a file that the group or others have any access to.
\<close>

theorem key_file_roundtrip:
  assumes "key_codecs_correct kc" and "length seed = 32" and "save_secret_file kc umask p seed fs = (Inr u, fs')"
  shows "load_secret_file kc p fs' = Inr seed \<and> (\<exists>b. fs' p = Some (File b 384)) \<and>
    (\<forall>q fs s. load_secret_file kc q fs = Inr s \<longrightarrow> (\<exists>b mode. fs q = Some (File b mode) \<and> mode AND 63 = 0))"
  using save_secret_file_result [OF assms(3)] seed_text [OF assms(1,2)] load_secret_private
  by (fastforce simp: load_secret_file_def read_to_string_def)

theorem key_file_roundtrip_witness:
  "load_secret_file toy_codecs [lit ''id.key'']
     (snd (save_secret_file toy_codecs 18 [lit ''id.key''] (replicate 32 7) Map.empty)) = Inr (replicate 32 7)"
proof -
  obtain fs' where "save_secret_file toy_codecs 18 [lit ''id.key''] (replicate 32 7) Map.empty = (Inr (), fs')"
    by (simp add: save_secret_file_def save_steps_def parent_def fs_write_def set_permissions_def)
  with key_file_roundtrip [OF toy_codecs_correct _ this] show ?thesis by simp
qed

text \<open>
  While a new key file is being saved there is a moment when it holds the seed with the permissions
  the mask of the process leaves: with the usual mask anyone can read it. A process that stops there
  leaves a key file behind that \<open>load_secret_file\<close> refuses.
\<close>

theorem seed_exposed_while_saving:
  assumes "fs p = None" and "p = [name]" and "umask = 18"
  shows "\<exists>sofar todo fs'. save_steps kc p seed = sofar @ todo \<and> todo \<noteq> [] \<and> run_steps umask sofar fs = (Inr (), fs') \<and>
    fs' p = Some (File (hex_encode kc seed @ [10]) 420) \<and> (\<exists>e. load_secret_file kc p fs' = Inl e)"
proof (intro exI conjI)
  let ?w = "[WriteKey p (hex_encode kc seed @ [10])]"
  let ?fs = "fs(p \<mapsto> File (hex_encode kc seed @ [10]) 420)"
  show "save_steps kc p seed = ?w @ [Chmod p 384]" by (simp add: save_steps_def parent_def assms(2))
  show "run_steps umask ?w fs = (Inr (), ?fs)"
    using assms by (simp add: fs_write_def new_mode_def)
  show "load_secret_file kc p ?fs = Inl (E_Key (Msg ''{} is group/world accessible (mode {:o}); run: chmod 600 {}'' [420] p))"
    by (simp add: load_secret_file_def)
qed simp_all

theorem seed_exposed_while_saving_witness:
  "\<exists>sofar todo fs'. save_steps toy_codecs [lit ''id.key''] (replicate 32 7) = sofar @ todo \<and> todo \<noteq> [] \<and>
     run_steps 18 sofar Map.empty = (Inr (), fs') \<and>
     fs' [lit ''id.key''] = Some (File (hex_encode toy_codecs (replicate 32 7) @ [10]) 420)"
  using seed_exposed_while_saving [of Map.empty "[lit ''id.key'']" "lit ''id.key''" 18 toy_codecs "replicate 32 7"]
  by auto

end
