(* ===== verification/Config.thy ===== *)
theory Config
  imports Addr Key_File
begin

text \<open>
  The configuration of the server (\<open>crates/sqnsd/src/config.rs\<close>): listen addresses, the shape of the
  file, and its resolution. Reading TOML is the third-party crate \<open>toml\<close>, a parameter of the operations
  that use it. Socket addresses are read as \<open>std::net\<close> reads them.
\<close>

section \<open>Listen addresses\<close>

datatype socket_addr = SockV4 bytes u16 | SockV6 bytes u16 u32

fun socket_new :: "ip_addr \<Rightarrow> u16 \<Rightarrow> socket_addr" where
  "socket_new (IpV4 a) port = SockV4 a port"
| "socket_new (IpV6 a) port = SockV6 a port 0"

text \<open>\<open>read_number\<close> without a limit on the digits.\<close>

definition read_any_number :: "nat \<Rightarrow> rstring \<Rightarrow> (nat \<times> rstring) option" where
  "read_any_number most s =
     (let (ds, r) = read_digits 10 s
      in if ds \<noteq> [] \<and> num_val 10 ds \<le> most then Some (num_val 10 ds, r) else None)"

definition read_port :: "rstring \<Rightarrow> (u16 \<times> rstring) option" where
  "read_port s =
     Option.bind (strip_prefix (lit '':'') s) (\<lambda>s. map_option (\<lambda>(n, r). (of_nat n, r)) (read_any_number 65535 s))"

definition read_socket_v4 :: "rstring \<Rightarrow> (socket_addr \<times> rstring) option" where
  "read_socket_v4 s =
     Option.bind (read_ipv4_addr s) (\<lambda>(a, r). map_option (\<lambda>(p, r). (SockV4 a p, r)) (read_port r))"

definition read_scope :: "rstring \<Rightarrow> u32 \<times> rstring" where
  "read_scope s =
     (case strip_prefix (lit ''%'') s of
        None \<Rightarrow> (0, s)
      | Some r \<Rightarrow> (case read_any_number 4294967295 r of None \<Rightarrow> (0, s) | Some (n, r) \<Rightarrow> (of_nat n, r)))"

definition read_socket_v6 :: "rstring \<Rightarrow> (socket_addr \<times> rstring) option" where
  "read_socket_v6 s =
     Option.bind (strip_prefix (lit ''['') s) (\<lambda>s.
     Option.bind (read_ipv6_addr s) (\<lambda>(a, r).
     let (scope, r) = read_scope r in
     Option.bind (strip_prefix (lit '']'') r) (\<lambda>r.
     map_option (\<lambda>(p, r). (SockV6 a p scope, r)) (read_port r))))"

definition parse_socket :: "rstring \<Rightarrow> socket_addr option" where
  "parse_socket s = whole (case read_socket_v4 s of Some x \<Rightarrow> Some x | None \<Rightarrow> read_socket_v6 s)"

definition parse_listen :: "rstring \<Rightarrow> socket_addr res" where
  "parse_listen s =
     (case parse_socket s of
        Some addr \<Rightarrow> Inr addr
      | None \<Rightarrow>
        (case parse_u16 s of
           Some port \<Rightarrow>
             (case parse_socket (lit ''[::]:'' @ show_nat (unat port)) of
                Some addr \<Rightarrow> Inr addr
              | None \<Rightarrow> Inl (E_Address (Msg ''bad listen port '' [] [s])))
         | None \<Rightarrow>
           (case parse_ip s of
              Some ip \<Rightarrow> Inr (socket_new ip DEFAULT_PORT)
            | None \<Rightarrow> Inl (E_Address (Msg ''cannot parse listen address '' [] [s])))))"

section \<open>Configuration\<close>

definition default_listen :: rstring where
  "default_listen = lit ''[::]:'' @ show_nat (unat DEFAULT_PORT)"

definition default_sync_interval :: u64 where "default_sync_interval = 60"
definition default_envelope_versions :: "byte list" where "default_envelope_versions = [1, 2]"
definition default_persist_interval :: u64 where "default_persist_interval = 30"
definition default_upstream_timeout :: u64 where "default_upstream_timeout = 5"
definition default_max_upstream_inflight :: u64 where "default_max_upstream_inflight = 64"

record file_config =
  fc_listen :: rstring
  fc_key_file :: path
  fc_state_file :: "path option"
  fc_peers :: "rstring list"
  fc_allowed_clients :: "rstring list"
  fc_upstreams :: "rstring list"
  fc_upstream_timeout_secs :: u64
  fc_upstream_cache :: bool
  fc_max_upstream_inflight :: u64
  fc_require_dnssec :: bool
  fc_allow_sync :: bool
  fc_sync_interval_secs :: u64
  fc_persist_interval_secs :: u64
  fc_accepted_envelope_versions :: "byte list"

text \<open>Durations are in seconds.\<close>

record config =
  cf_listen :: socket_addr
  cf_key_file :: path
  cf_state_file :: "path option"
  cf_peers :: "server_addr list"
  cf_upstreams :: "server_addr list"
  cf_upstream_timeout :: u64
  cf_upstream_cache :: bool
  cf_max_upstream_inflight :: u64
  cf_allowed_clients :: "pubkey list"
  cf_require_dnssec :: bool
  cf_allow_sync :: bool
  cf_sync_interval :: u64
  cf_persist_interval :: u64
  cf_accepted_envelope_versions :: "byte list"

text \<open>\<open>iter().map(parse).collect::<Result<Vec<_>>>()\<close>: the first error, or all the results.\<close>

fun collect :: "('a \<Rightarrow> 'b res) \<Rightarrow> 'a list \<Rightarrow> 'b list res" where
  "collect f [] = Inr []"
| "collect f (x # xs) = rbind (f x) (\<lambda>y. rbind (collect f xs) (\<lambda>ys. Inr (y # ys)))"

definition config_resolve :: "key_codecs \<Rightarrow> file_config \<Rightarrow> config res" where
  "config_resolve kc fc =
     rbind (parse_listen (fc_listen fc)) (\<lambda>listen.
     rbind (collect (addr_from_str kc) (fc_peers fc)) (\<lambda>peers.
     rbind (collect (addr_from_str kc) (fc_upstreams fc)) (\<lambda>upstreams.
     rbind (collect (pubkey_from_str kc) (fc_allowed_clients fc)) (\<lambda>allowed.
     if fc_accepted_envelope_versions fc = [] \<or> 0 \<in> set (fc_accepted_envelope_versions fc)
     then Inl (E_Protocol (plain ''accepted_envelope_versions must be a non-empty list without 0''))
     else Inr
       \<lparr>cf_listen = listen, cf_key_file = fc_key_file fc, cf_state_file = fc_state_file fc,
        cf_peers = peers, cf_upstreams = upstreams,
        cf_upstream_timeout = max (fc_upstream_timeout_secs fc) 1,
        cf_upstream_cache = fc_upstream_cache fc,
        cf_max_upstream_inflight = max (fc_max_upstream_inflight fc) 1,
        cf_allowed_clients = allowed, cf_require_dnssec = fc_require_dnssec fc,
        cf_allow_sync = fc_allow_sync fc,
        cf_sync_interval = max (fc_sync_interval_secs fc) 5,
        cf_persist_interval = max (fc_persist_interval_secs fc) 1,
        cf_accepted_envelope_versions = fc_accepted_envelope_versions fc\<rparr>))))"

definition config_from_file ::
  "key_codecs \<Rightarrow> (rstring \<Rightarrow> file_config option) \<Rightarrow> path \<Rightarrow> file_system \<Rightarrow> config res" where
  "config_from_file kc toml p fs =
     (case read_to_string p fs of
        Inl e \<Rightarrow> Inl (E_Protocol (Msg ''cannot read {}: {e}'' [] p))
      | Inr text \<Rightarrow>
        (case toml text of
           None \<Rightarrow> Inl (E_Protocol (Msg ''cannot parse {}: {e}'' [] p))
         | Some fc \<Rightarrow> config_resolve kc fc))"

section \<open>What is accepted\<close>

lemma collect_iff: "collect f xs = Inr ys \<longleftrightarrow> map f xs = map Inr ys"
  by (induction xs arbitrary: ys) (auto simp: Cons_eq_map_conv map_eq_Cons_conv)

lemma read_any_number_show:
  assumes "ends_number 10 r" and "n \<le> most"
  shows "read_any_number most (show_nat n @ r) = Some (n, r)"
proof -
  obtain ds where "read_digits 10 (show_nat n @ r) = (ds, r)" "ds \<noteq> []" "num_val 10 ds = n"
    using read_digits_show [of 10 r n] assms(1) by auto
  with assms(2) show ?thesis by (simp add: read_any_number_def)
qed

lemma read_port_show: "read_port (58 # show_nat (unat p)) = Some (p, [])"
proof -
  have "unat p \<le> 65535" using unat_less_pow [of p] by simp
  from read_any_number_show [of "[]" "unat p" 65535] this show ?thesis by (simp add: read_port_def)
qed

lemma no_quad_no_socket4: "46 \<notin> set s \<Longrightarrow> read_socket_v4 s = None"
  by (simp add: read_socket_v4_def no_dots_no_ipv4)

lemma show_nat_no_dots: "46 \<notin> set (show_nat n)"
  by (simp add: show_num_no_punct)

text \<open>A bare port listens on every address; the error branch for it is never taken.\<close>

lemma parse_any_socket: "parse_socket (lit ''[::]:'' @ show_nat (unat p)) = Some (SockV6 (replicate 16 0) p 0)"
proof -
  have "read_socket_v4 (lit ''[::]:'' @ show_nat (unat p)) = None"
    by (rule no_quad_no_socket4) (simp add: lit_def show_nat_no_dots)
  moreover have "read_ipv6_addr (58 # 58 # 93 # 58 # show_nat (unat p)) =
      Some (replicate 16 0, 93 # 58 # show_nat (unat p))"
  proof -
    let ?r = "93 # 58 # show_nat (unat p)"
    have dots: "46 \<notin> set ?r" by (simp add: show_nat_no_dots)
    have head: "read_groups 8 0 (58 # 58 # ?r) = ([], False, 58 # 58 # ?r)"
      by (rule read_groups_stop) (use dots in \<open>auto simp: stops_groups_def\<close>)
    have "read_groups (Suc 6) 0 ?r = ([], False, ?r)"
      using no_dots_no_ipv4 [OF dots] by (simp only: read_groups.simps read_sep_def) (simp add: read_number_none)
    then have tail: "read_groups 7 0 ?r = ([], False, ?r)" by simp
    have z: "to_be_bytes (0 :: u16) = [0, 0]" by (simp add: to_be_bytes_def numeral_2_eq_2)
    show ?thesis using head tail by (simp add: read_ipv6_addr_def read_ipv6_groups_def lit_def z numeral_eq_Suc)
  qed
  ultimately show ?thesis
    by (simp add: parse_socket_def read_socket_v6_def lit_def read_scope_def read_port_show whole_def)
qed

lemma parse_socket_v4: "length a = 4 \<Longrightarrow> parse_socket (show_ipv4 a @ 58 # show_nat (unat p)) = Some (SockV4 a p)"
  using read_ipv4_show [of a "58 # show_nat (unat p)"]
  by (simp add: parse_socket_def read_socket_v4_def read_port_show whole_def)

lemma no_bracket_no_socket6: "s = [] \<or> hd s \<noteq> 91 \<Longrightarrow> read_socket_v6 s = None"
  by (cases s) (auto simp: read_socket_v6_def)

lemma parse_socket_v6:
  assumes "length a = 16"
  shows "parse_socket (91 # show_ipv6 a @ 93 # 58 # show_nat (unat p)) = Some (SockV6 a p 0)"
proof -
  let ?q = "93 # 58 # show_nat (unat p)"
  have "read_ipv4_addr (91 # s) = None" for s
  proof -
    have "read_number 10 3 255 False (91 # s) = None" by (rule read_number_none) (simp add: to_digit_def Let_def)
    then have "read_octets (Suc 3) 0 (91 # s) = None" by (simp only: read_octets.simps read_sep_def) simp
    then show ?thesis by simp
  qed
  then have "read_socket_v4 (91 # show_ipv6 a @ ?q) = None" by (simp add: read_socket_v4_def)
  moreover have "read_ipv6_addr (show_ipv6 a @ ?q) = Some (a, ?q)"
    by (rule read_ipv6_show [OF assms]) (simp add: show_nat_no_dots)
  ultimately show ?thesis
    by (simp add: parse_socket_def read_socket_v6_def read_scope_def lit_def read_port_show whole_def)
qed

text \<open>An address literal is not a number.\<close>

lemma not_a_number:
  assumes "b \<in> set s" and "b \<noteq> 43" and "to_digit 10 b = None"
  shows "parse_u16 s = None"
proof -
  let ?d = "case s of x # r \<Rightarrow> if x = ch CHR ''+'' then r else s | [] \<Rightarrow> s"
  have "b \<in> set ?d" using assms(1,2) by (cases s) auto
  then have "None \<in> set (map (to_digit 10) ?d)" using assms(3) by (auto simp: image_iff intro!: bexI [of _ b])
  then show ?thesis unfolding parse_u16_def parse_uint_def Let_def by (simp only: simp_thms if_True option.map)
qed

lemma show_ipv4_dot: "length a = 4 \<Longrightarrow> 46 \<in> set (show_ipv4 a)"
  by (auto simp: show_ipv4_def numeral_eq_Suc length_Suc_conv)

text \<open>
  Listen addresses. A bare port listens on every address, an address literal on the default port, and
  an address with a port on just that; each is recognised whatever the address and the port are.
\<close>

theorem parse_listen_forms:
  "parse_listen (show_nat (unat p)) = Inr (SockV6 (replicate 16 0) p 0) \<and>
   (length a = 4 \<longrightarrow> parse_listen (show_ipv4 a) = Inr (SockV4 a DEFAULT_PORT) \<and>
      parse_listen (show_ipv4 a @ 58 # show_nat (unat p)) = Inr (SockV4 a p)) \<and>
   (length a = 16 \<longrightarrow> parse_listen (show_ipv6 a) = Inr (SockV6 a DEFAULT_PORT 0) \<and>
      parse_listen (91 # show_ipv6 a @ 93 # 58 # show_nat (unat p)) = Inr (SockV6 a p 0))"
proof (intro conjI impI)
  have "91 \<notin> set (show_nat (unat p))" by (simp add: show_num_no_punct)
  then have "hd (show_nat (unat p)) \<noteq> 91" using hd_in_set [OF show_num_nonempty] by metis
  then have "parse_socket (show_nat (unat p)) = None"
    by (simp add: parse_socket_def no_quad_no_socket4 show_nat_no_dots no_bracket_no_socket6 whole_def)
  then show "parse_listen (show_nat (unat p)) = Inr (SockV6 (replicate 16 0) p 0)"
    by (simp add: parse_listen_def parse_show_u16 parse_any_socket)
next
  assume a: "length a = 4"
  have lit: "literal_char b \<and> b \<noteq> 58" if "b \<in> set (show_ipv4 a)" for b using show_ipv4_literal [OF that] .
  have ne: "show_ipv4 a \<noteq> []" using show_ipv4_dot [OF a] by auto
  then have "hd (show_ipv4 a) \<noteq> 91" using lit [of "hd (show_ipv4 a)"] by (auto simp: literal_char_def)
  then have "parse_socket (show_ipv4 a) = None"
    using read_ipv4_show [OF a, of "[]"]
    by (simp add: parse_socket_def read_socket_v4_def read_port_def no_bracket_no_socket6 whole_def)
  moreover have "parse_u16 (show_ipv4 a) = None"
    by (rule not_a_number [OF show_ipv4_dot [OF a]]) simp_all
  moreover have "parse_ip (show_ipv4 a) = Some (IpV4 a)" by (rule parse_ip_v4 [OF a])
  ultimately show "parse_listen (show_ipv4 a) = Inr (SockV4 a DEFAULT_PORT)" by (simp add: parse_listen_def)
  show "parse_listen (show_ipv4 a @ 58 # show_nat (unat p)) = Inr (SockV4 a p)"
    by (simp add: parse_listen_def parse_socket_v4 [OF a])
next
  assume a: "length a = 16"
  have colon: "58 \<in> set (show_ipv6 a)" by (rule show_ipv6_colon [OF a])
  have ne: "show_ipv6 a \<noteq> []" using colon by auto
  then have "hd (show_ipv6 a) \<noteq> 91" using show_ipv6_literal [of "hd (show_ipv6 a)" a] by (auto simp: literal_char_def)
  then have "parse_socket (show_ipv6 a) = None"
    by (simp add: parse_socket_def read_socket_v4_def ipv6_not_ipv4 [OF a] no_bracket_no_socket6 whole_def)
  moreover have "parse_u16 (show_ipv6 a) = None" by (rule not_a_number [OF colon]) simp_all
  moreover have "parse_ip (show_ipv6 a) = Some (IpV6 a)" by (rule parse_ip_v6 [OF a])
  ultimately show "parse_listen (show_ipv6 a) = Inr (SockV6 a DEFAULT_PORT 0)" by (simp add: parse_listen_def)
  show "parse_listen (91 # show_ipv6 a @ 93 # 58 # show_nat (unat p)) = Inr (SockV6 a p 0)"
    by (simp add: parse_listen_def parse_socket_v6 [OF a])
qed

theorem parse_listen_forms_witness:
  "parse_listen (lit ''127.0.0.1:5301'') = Inr (SockV4 [127, 0, 0, 1] 5301)"
proof -
  have "show_ipv4 [127, 0, 0, 1] @ 58 # show_nat (unat (5301 :: u16)) = lit ''127.0.0.1:5301''"
    by (simp add: show_ipv4_def show_num.simps digit_def lit_def)
  with parse_listen_forms [of 5301 "[127, 0, 0, 1]"] show ?thesis by simp
qed

text \<open>
  A configuration that is accepted is usable: every address and key in it was understood, no interval
  or limit is zero, whatever the file says, and at least one envelope version is accepted, none of
  them the reserved version zero. One bad address or key refuses the whole file.
\<close>

theorem config_resolve_spec:
  "config_resolve kc fc = Inr cf \<longleftrightarrow>
     parse_listen (fc_listen fc) = Inr (cf_listen cf) \<and>
     map (addr_from_str kc) (fc_peers fc) = map Inr (cf_peers cf) \<and>
     map (addr_from_str kc) (fc_upstreams fc) = map Inr (cf_upstreams cf) \<and>
     map (pubkey_from_str kc) (fc_allowed_clients fc) = map Inr (cf_allowed_clients cf) \<and>
     fc_accepted_envelope_versions fc \<noteq> [] \<and> 0 \<notin> set (fc_accepted_envelope_versions fc) \<and>
     cf = \<lparr>cf_listen = cf_listen cf, cf_key_file = fc_key_file fc, cf_state_file = fc_state_file fc,
           cf_peers = cf_peers cf, cf_upstreams = cf_upstreams cf,
           cf_upstream_timeout = max (fc_upstream_timeout_secs fc) 1, cf_upstream_cache = fc_upstream_cache fc,
           cf_max_upstream_inflight = max (fc_max_upstream_inflight fc) 1,
           cf_allowed_clients = cf_allowed_clients cf, cf_require_dnssec = fc_require_dnssec fc,
           cf_allow_sync = fc_allow_sync fc, cf_sync_interval = max (fc_sync_interval_secs fc) 5,
           cf_persist_interval = max (fc_persist_interval_secs fc) 1,
           cf_accepted_envelope_versions = fc_accepted_envelope_versions fc\<rparr>"
  by (auto simp: config_resolve_def collect_iff)

end
