(* ===== verification/Daemon.thy ===== *)
theory Daemon
  imports Config
begin

text \<open>
  The command line of the server (\<open>crates/sqnsd/src/main.rs\<close>): where its key and state live, merging
  the flags with the configuration file, loading or creating its key. The effective user, the
  environment and the file system are arguments; a generated key is the argument \<open>fresh\<close>.
\<close>

section \<open>The model\<close>

definition SYSTEM_CONFIG :: path where "SYSTEM_CONFIG = [[], lit ''etc'', lit ''sqns'', lit ''sqnsd.toml'']"
definition SYSTEM_KEY :: path where "SYSTEM_KEY = [[], lit ''etc'', lit ''sqns'', lit ''sqnsd.key'']"
definition SYSTEM_STATE :: path where "SYSTEM_STATE = [[], lit ''var'', lit ''lib'', lit ''sqns'', lit ''records.db'']"
definition USER_KEY :: rstring where "USER_KEY = lit ''sqnsd.key''"
definition USER_STATE :: rstring where "USER_STATE = lit ''records.db''"

record daemon_cli =
  dc_config :: "path option"
  dc_listen :: "rstring option"
  dc_key_file :: "path option"
  dc_state_file :: "path option"
  dc_peers :: "rstring list"
  dc_upstreams :: "rstring list"
  dc_no_sync :: bool
  dc_insecure_dns :: bool

record host_env =
  he_root :: bool
  he_umask :: u32
  he_home_env :: "path option"
  he_home_dir :: "path option"

definition daemon_keygen :: "key_codecs \<Rightarrow> u32 \<Rightarrow> bytes \<Rightarrow> path \<Rightarrow> bool \<Rightarrow> file_system \<Rightarrow> unit res \<times> file_system" where
  "daemon_keygen kc umask fresh out force fs =
     (if exists_path fs out \<and> \<not> force
      then (Inl (E_Key (Msg ''{} already exists; pass --force to overwrite it'' [] out)), fs)
      else save_secret_file kc umask out fresh fs)"

definition load_or_create_key ::
  "key_codecs \<Rightarrow> u32 \<Rightarrow> bytes \<Rightarrow> path \<Rightarrow> bool \<Rightarrow> file_system \<Rightarrow> bytes res \<times> file_system" where
  "load_or_create_key kc umask fresh p explicit fs =
     (if exists_path fs p then (load_secret_file kc p fs, fs)
      else if explicit then (Inl (E_Key (Msg ''no key at {}; generate one with: sqnsd keygen --out {}'' [] p)), fs)
      else case save_secret_file kc umask p fresh fs of
             (Inl e, fs) \<Rightarrow> (Inl e, fs)
           | (Inr _, fs) \<Rightarrow> (Inr fresh, fs))"

definition default_paths :: "host_env \<Rightarrow> file_system \<Rightarrow> (path \<times> path) res \<times> file_system" where
  "default_paths he fs =
     (if he_root he then (Inr (SYSTEM_KEY, SYSTEM_STATE), fs)
      else case ensure_sqns_dir (he_umask he) (he_home_env he) (he_home_dir he) fs of
             (Inl e, fs) \<Rightarrow> (Inl e, fs)
           | (Inr dir, fs) \<Rightarrow> (Inr (dir @ [USER_KEY], dir @ [USER_STATE]), fs))"

definition built_in_config :: "path \<Rightarrow> path \<Rightarrow> file_config" where
  "built_in_config key_file state_file =
     \<lparr>fc_listen = lit ''[::]:'' @ show_nat (unat DEFAULT_PORT), fc_key_file = key_file, fc_state_file = Some state_file,
      fc_peers = [], fc_allowed_clients = [], fc_upstreams = [], fc_upstream_timeout_secs = 5, fc_upstream_cache = True,
      fc_max_upstream_inflight = 64, fc_require_dnssec = True, fc_allow_sync = True, fc_sync_interval_secs = 60,
      fc_persist_interval_secs = 30, fc_accepted_envelope_versions = [1, 2]\<rparr>"

definition base_config ::
  "key_codecs \<Rightarrow> (rstring \<Rightarrow> file_config option) \<Rightarrow> host_env \<Rightarrow> daemon_cli \<Rightarrow> file_system \<Rightarrow> config res \<times> file_system" where
  "base_config kc toml he cli fs =
     (case (case dc_config cli of
              Some p \<Rightarrow> Some p
            | None \<Rightarrow> if exists_path fs SYSTEM_CONFIG then Some SYSTEM_CONFIG else None) of
        Some p \<Rightarrow> (config_from_file kc toml p fs, fs)
      | None \<Rightarrow>
        (case default_paths he fs of
           (Inl e, fs) \<Rightarrow> (Inl e, fs)
         | (Inr (key_file, state_file), fs) \<Rightarrow> (config_resolve kc (built_in_config key_file state_file), fs)))"

text \<open>The flags, in the order the code applies them.\<close>

definition apply_flags :: "key_codecs \<Rightarrow> daemon_cli \<Rightarrow> config \<Rightarrow> config res" where
  "apply_flags kc cli cf =
     rbind (case dc_listen cli of
              None \<Rightarrow> Inr cf
            | Some l \<Rightarrow> rbind (parse_listen l) (\<lambda>a. Inr (cf\<lparr>cf_listen := a\<rparr>))) (\<lambda>cf.
     let cf = cf_key_file_update (\<lambda>f. case dc_key_file cli of None \<Rightarrow> f | Some p \<Rightarrow> p) cf;
         cf = cf_state_file_update (\<lambda>f. case dc_state_file cli of None \<Rightarrow> f | Some p \<Rightarrow> Some p) cf
     in rbind (collect (addr_from_str kc) (dc_peers cli)) (\<lambda>peers.
        let cf = cf_peers_update (\<lambda>ps. ps @ peers) cf in
        rbind (collect (addr_from_str kc) (dc_upstreams cli)) (\<lambda>upstreams.
        let cf = cf_upstreams_update (\<lambda>us. us @ upstreams) cf;
            cf = cf_allow_sync_update (\<lambda>b. if dc_no_sync cli then False else b) cf;
            cf = cf_require_dnssec_update (\<lambda>b. if dc_insecure_dns cli then False else b) cf
        in Inr cf)))"

definition build_config ::
  "key_codecs \<Rightarrow> (rstring \<Rightarrow> file_config option) \<Rightarrow> host_env \<Rightarrow> daemon_cli \<Rightarrow> file_system \<Rightarrow> config res \<times> file_system" where
  "build_config kc toml he cli fs =
     (let (out, fs) = base_config kc toml he cli fs in (rbind out (apply_flags kc cli), fs))"

text \<open>\<open>serve\<close> up to the start of the runtime: the configuration and the key the server runs with.\<close>

definition serve_start ::
  "key_codecs \<Rightarrow> (rstring \<Rightarrow> file_config option) \<Rightarrow> host_env \<Rightarrow> bytes \<Rightarrow> daemon_cli \<Rightarrow> file_system \<Rightarrow>
   (config \<times> bytes) res \<times> file_system" where
  "serve_start kc toml he fresh cli fs =
     (case build_config kc toml he cli fs of
        (Inl e, fs) \<Rightarrow> (Inl e, fs)
      | (Inr cf, fs) \<Rightarrow>
        (case load_or_create_key kc (he_umask he) fresh (cf_key_file cf) (dc_key_file cli \<noteq> None) fs of
           (Inl e, fs) \<Rightarrow> (Inl e, fs)
         | (Inr key, fs) \<Rightarrow> (Inr (cf, key), fs)))"

text \<open>\<open>--show-pubkey\<close>: the key that is printed, created on a first run.\<close>

definition show_pubkey ::
  "bytes ed25519 \<Rightarrow> key_codecs \<Rightarrow> (rstring \<Rightarrow> file_config option) \<Rightarrow> host_env \<Rightarrow> bytes \<Rightarrow> daemon_cli \<Rightarrow> file_system \<Rightarrow>
   rstring res \<times> file_system" where
  "show_pubkey c kc toml he fresh cli fs =
     (case build_config kc toml he cli fs of
        (Inl e, fs) \<Rightarrow> (Inl e, fs)
      | (Inr cf, fs) \<Rightarrow>
          let (out, fs) = load_or_create_key kc (he_umask he) fresh (cf_key_file cf) (dc_key_file cli \<noteq> None) fs
          in (rbind out (\<lambda>key. Inr (to_base58 kc (public_of c key))), fs))"

section \<open>Keys\<close>

text \<open>
  C39. A server keeps its identity. A key that was created on the first run is the one every later run
  loads, whatever key a later run would have generated; a key file named on the command line is never
  created; and a key file that exists is never replaced unless it is forced.
\<close>

theorem server_key_stable:
  assumes "key_codecs_correct kc" and "length fresh = 32"
    and "load_or_create_key kc umask fresh p explicit fs = (Inr key, fs')"
  shows "load_or_create_key kc umask' fresh' p explicit' fs' = (Inr key, fs') \<and>
    (explicit \<longrightarrow> fs' = fs) \<and> (exists_path fs p \<longrightarrow> fs' = fs) \<and>
    daemon_keygen kc umask' fresh' p False fs' =
      (Inl (E_Key (Msg ''{} already exists; pass --force to overwrite it'' [] p)), fs')"
proof (cases "exists_path fs p")
  case True
  with assms(3) show ?thesis by (auto simp: load_or_create_key_def daemon_keygen_def)
next
  case False
  with assms(3) have e: "\<not> explicit" and s: "save_secret_file kc umask p fresh fs = (Inr (), fs')" and k: "key = fresh"
    by (auto simp: load_or_create_key_def split: if_splits prod.splits sum.splits)
  have "exists_path fs' p" using save_secret_file_result [OF s] by (simp add: exists_path_def)
  moreover have "load_secret_file kc p fs' = Inr fresh"
    using save_secret_file_result [OF s] seed_text [OF assms(1,2)] by (simp add: load_secret_file_def read_to_string_def)
  ultimately show ?thesis using e False k by (simp add: load_or_create_key_def daemon_keygen_def)
qed

theorem server_key_stable_witness:
  "\<exists>fs'. load_or_create_key toy_codecs 18 (replicate 32 7) [lit ''sqnsd.key''] False Map.empty = (Inr (replicate 32 7), fs') \<and>
     load_or_create_key toy_codecs 18 (replicate 32 8) [lit ''sqnsd.key''] True fs' = (Inr (replicate 32 7), fs')"
proof -
  obtain fs' where "load_or_create_key toy_codecs 18 (replicate 32 7) [lit ''sqnsd.key''] False Map.empty = (Inr (replicate 32 7), fs')"
    by (simp add: load_or_create_key_def exists_path_def save_secret_file_def save_steps_def parent_def fs_write_def set_permissions_def)
  with server_key_stable [OF toy_codecs_correct _ this] show ?thesis by auto
qed

section \<open>Flags\<close>

text \<open>
  Flags win over the file: a flag that names a value replaces it, peers and upstreams are added after
  those of the file, and the two switches can only tighten synchronisation and loosen DNSSEC, never
  the other way round; everything else is as the file has it.
\<close>

theorem flags_win:
  assumes "apply_flags kc cli cf = Inr cf'"
  shows "(case dc_listen cli of None \<Rightarrow> cf_listen cf' = cf_listen cf | Some l \<Rightarrow> parse_listen l = Inr (cf_listen cf')) \<and>
    cf_key_file cf' = (case dc_key_file cli of None \<Rightarrow> cf_key_file cf | Some p \<Rightarrow> p) \<and>
    cf_state_file cf' = (case dc_state_file cli of None \<Rightarrow> cf_state_file cf | Some p \<Rightarrow> Some p) \<and>
    (\<exists>ps. map (addr_from_str kc) (dc_peers cli) = map Inr ps \<and> cf_peers cf' = cf_peers cf @ ps) \<and>
    (\<exists>us. map (addr_from_str kc) (dc_upstreams cli) = map Inr us \<and> cf_upstreams cf' = cf_upstreams cf @ us) \<and>
    cf_allow_sync cf' = (cf_allow_sync cf \<and> \<not> dc_no_sync cli) \<and>
    cf_require_dnssec cf' = (cf_require_dnssec cf \<and> \<not> dc_insecure_dns cli) \<and>
    cf_upstream_timeout cf' = cf_upstream_timeout cf \<and> cf_sync_interval cf' = cf_sync_interval cf \<and>
    cf_allowed_clients cf' = cf_allowed_clients cf \<and>
    cf_accepted_envelope_versions cf' = cf_accepted_envelope_versions cf"
proof -
  let ?listen = "case dc_listen cli of None \<Rightarrow> Inr cf | Some l \<Rightarrow> rbind (parse_listen l) (\<lambda>a. Inr (cf\<lparr>cf_listen := a\<rparr>))"
  obtain cf1 ps us where l: "?listen = Inr cf1"
    and ps: "collect (addr_from_str kc) (dc_peers cli) = Inr ps" and us: "collect (addr_from_str kc) (dc_upstreams cli) = Inr us"
    using assms by (auto simp: apply_flags_def Let_def)
  have cf1: "cf1 = cf\<lparr>cf_listen := cf_listen cf1\<rparr>"
    and listen: "case dc_listen cli of None \<Rightarrow> cf_listen cf1 = cf_listen cf | Some l \<Rightarrow> parse_listen l = Inr (cf_listen cf1)"
    using l by (auto split: option.splits)
  obtain a where cf1': "cf1 = cf\<lparr>cf_listen := a\<rparr>" using cf1 by blast
  have "Inr cf' = apply_flags kc cli cf" by (rule assms [symmetric])
  also have "\<dots> = Inr (cf_require_dnssec_update (\<lambda>b. if dc_insecure_dns cli then False else b)
      (cf_allow_sync_update (\<lambda>b. if dc_no_sync cli then False else b) (cf_upstreams_update (\<lambda>x. x @ us)
      (cf_peers_update (\<lambda>x. x @ ps) (cf_state_file_update (\<lambda>f. case dc_state_file cli of None \<Rightarrow> f | Some p \<Rightarrow> Some p)
      (cf_key_file_update (\<lambda>f. case dc_key_file cli of None \<Rightarrow> f | Some p \<Rightarrow> p) cf1))))))"
    unfolding apply_flags_def Let_def l ps us rbind.simps ..
  finally have cf': "cf' = cf_require_dnssec_update (\<lambda>b. if dc_insecure_dns cli then False else b)
      (cf_allow_sync_update (\<lambda>b. if dc_no_sync cli then False else b) (cf_upstreams_update (\<lambda>x. x @ us)
      (cf_peers_update (\<lambda>x. x @ ps) (cf_state_file_update (\<lambda>f. case dc_state_file cli of None \<Rightarrow> f | Some p \<Rightarrow> Some p)
      (cf_key_file_update (\<lambda>f. case dc_key_file cli of None \<Rightarrow> f | Some p \<Rightarrow> p) cf1)))))" by (simp only: sum.inject)
  have "cf_listen cf1 = cf_listen cf'" by (simp add: cf')
  from listen [unfolded this] ps us show ?thesis by (simp add: cf' [unfolded cf1'] collect_iff)
qed

theorem flags_win_witness:
  "\<exists>cf'. apply_flags toy_codecs
      \<lparr>dc_config = None, dc_listen = None, dc_key_file = Some [lit ''k''], dc_state_file = None, dc_peers = [], dc_upstreams = [],
       dc_no_sync = True, dc_insecure_dns = False\<rparr>
      \<lparr>cf_listen = SockV6 (replicate 16 0) DEFAULT_PORT 0, cf_key_file = [lit ''j''], cf_state_file = None, cf_peers = [],
       cf_upstreams = [], cf_upstream_timeout = 5, cf_upstream_cache = True, cf_max_upstream_inflight = 64,
       cf_allowed_clients = [], cf_require_dnssec = True, cf_allow_sync = True, cf_sync_interval = 60,
       cf_persist_interval = 30, cf_accepted_envelope_versions = [1, 2]\<rparr> = Inr cf' \<and>
    cf_key_file cf' = [lit ''k''] \<and> \<not> cf_allow_sync cf' \<and> cf_require_dnssec cf'"
proof -
  let ?cli = "\<lparr>dc_config = None, dc_listen = None, dc_key_file = Some [lit ''k''], dc_state_file = None, dc_peers = [], dc_upstreams = [],
       dc_no_sync = True, dc_insecure_dns = False\<rparr>"
  let ?cf = "\<lparr>cf_listen = SockV6 (replicate 16 0) DEFAULT_PORT 0, cf_key_file = [lit ''j''], cf_state_file = None, cf_peers = [],
       cf_upstreams = [], cf_upstream_timeout = 5, cf_upstream_cache = True, cf_max_upstream_inflight = 64,
       cf_allowed_clients = [], cf_require_dnssec = True, cf_allow_sync = True, cf_sync_interval = 60,
       cf_persist_interval = 30, cf_accepted_envelope_versions = [1, 2]\<rparr>"
  obtain cf' where "apply_flags toy_codecs ?cli ?cf = Inr cf'" by (simp add: apply_flags_def)
  with flags_win [OF this] show ?thesis by simp
qed

lemma built_in_config_ok:
  "config_resolve kc (built_in_config k s) =
    Inr \<lparr>cf_listen = SockV6 (replicate 16 0) DEFAULT_PORT 0, cf_key_file = k, cf_state_file = Some s, cf_peers = [], cf_upstreams = [],
         cf_upstream_timeout = 5, cf_upstream_cache = True, cf_max_upstream_inflight = 64, cf_allowed_clients = [],
         cf_require_dnssec = True, cf_allow_sync = True, cf_sync_interval = 60, cf_persist_interval = 30,
         cf_accepted_envelope_versions = [1, 2]\<rparr>"
proof -
  have "parse_listen (lit ''[::]:'' @ show_nat (unat DEFAULT_PORT)) = Inr (SockV6 (replicate 16 0) DEFAULT_PORT 0)"
    by (simp only: parse_listen_def parse_any_socket) simp
  then show ?thesis by (simp add: config_resolve_def built_in_config_def)
qed

end
