(* ===== verification/Serving.thy ===== *)
theory Serving
  imports Typing Daemon Protocol_Props
begin

text \<open>
  A server from start to stop: \<open>bind\<close> and \<open>serve\<close> of \<open>crates/sqnsd/src/server.rs\<close>. Streams that arrive,
  rounds of replication and the ticks of the maintenance loop are the steps of a state machine; they
  run one after the other, as they do where they touch the store. Listening and the
  conversion of client keys are sQUIC's and parameters here.
\<close>

section \<open>Starting\<close>

text \<open>\<open>SocketAddr\<close> as \<open>std::net\<close> writes it.\<close>

fun show_socket :: "socket_addr \<Rightarrow> rstring" where
  "show_socket (SockV4 a port) = show_ipv4 a @ lit '':'' @ show_nat (unat port)"
| "show_socket (SockV6 a port scope) =
     lit ''['' @ show_ipv6 a @ (if scope = 0 then [] else lit ''%'' @ show_nat (unat scope)) @ lit '']:'' @
     show_nat (unat port)"

record bound_server =
  bd_server :: "server_addr server"
  bd_peers :: "server_addr peer list"
  bd_sync_interval :: u64
  bd_persist_interval :: u64
  bd_local_addr :: socket_addr
  bd_public_key :: pubkey

definition allowed_keys :: "(bytes \<Rightarrow> msg + bytes) \<Rightarrow> pubkey list \<Rightarrow> bytes list option res" where
  "allowed_keys to_x25519 clients =
     (if clients = [] then Inr None
      else rbind (collect (\<lambda>k. case to_x25519 (as_bytes k) of
                                 Inl _ \<Rightarrow> Inl (E_Key (Msg ''client key {k} is unusable: {e}'' [] [as_bytes k]))
                               | Inr x \<Rightarrow> Inr x) clients) (\<lambda>keys. Inr (Some keys)))"

text \<open>
  \<open>listen\<close> is given the address, the server's key, the client keys allowed and the envelope versions; the
  listener it gives is asked for its own address, which may fail too.
\<close>

definition bind_server ::
  "bytes ed25519 \<Rightarrow> (bytes \<Rightarrow> msg + bytes) \<Rightarrow>
   (socket_addr \<Rightarrow> bytes \<Rightarrow> bytes list option \<Rightarrow> byte list \<Rightarrow> msg + (msg + socket_addr)) \<Rightarrow> (nat \<Rightarrow> u64) \<Rightarrow>
   (rstring \<Rightarrow> disk_file) \<Rightarrow> config \<Rightarrow> bytes \<Rightarrow> bound_server res" where
  "bind_server c to_x25519 listen clock disk cf signing_key =
     rbind (open_store c clock disk (map_option path_display (cf_state_file cf))) (\<lambda>st.
     let peers = replicator_new (cf_peers cf);
         up = upstream_new (cf_upstreams cf) (cf_upstream_cache cf)
     in rbind (allowed_keys to_x25519 (cf_allowed_clients cf)) (\<lambda>allowed.
        case listen (cf_listen cf) signing_key allowed (cf_accepted_envelope_versions cf) of
          Inl _ \<Rightarrow> Inl (E_Connection (Msg ''cannot listen on {}: {e}'' [] [show_socket (cf_listen cf)]))
        | Inr (Inl _) \<Rightarrow> Inl (E_Connection (Msg ''cannot read the local address: {e}'' [] []))
        | Inr (Inr local_addr) \<Rightarrow>
            Inr \<lparr>bd_server = \<lparr>sv_store = st, sv_upstream = up, sv_peers = peer_count peers, sv_allow_sync = cf_allow_sync cf\<rparr>,
                 bd_peers = peers, bd_sync_interval = cf_sync_interval cf, bd_persist_interval = cf_persist_interval cf,
                 bd_local_addr = local_addr, bd_public_key = public_of c signing_key\<rparr>))"

section \<open>Serving\<close>

record serving =
  sg_daemon :: "server_addr daemon"
  sg_peers :: "server_addr peer list"

definition serve_from :: "(rstring \<Rightarrow> disk_file) \<Rightarrow> bound_server \<Rightarrow> serving" where
  "serve_from disk bd = \<lparr>sg_daemon = maintenance_start (bd_server bd) disk, sg_peers = bd_peers bd\<rparr>"

abbreviation sg_store :: "serving \<Rightarrow> store" where
  "sg_store s \<equiv> sv_store (dm_server (sg_daemon s))"

text \<open>
  Whatever arrives: any bytes on a stream, any well-formed answers of upstreams and peers (answers
  are decoded from bytes), any times, any failed write. The world that answers counts its answers, so
  the same question may be answered differently each time.
\<close>

inductive serving_step :: "bytes ed25519 \<Rightarrow> serving \<Rightarrow> serving \<Rightarrow> bool" for c where
  sg_stream: "serve_stream c (en :: (server_addr, nat) env) b (dm_server (sg_daemon s)) w = (out, sv, pushes, w') \<Longrightarrow> ask_ok (en_ask en) \<Longrightarrow>
     string_ok (en_version en) \<Longrightarrow>
     serving_step c s (s\<lparr>sg_daemon := (sg_daemon s)\<lparr>dm_server := sv\<rparr>\<rparr>)"
| sg_pull: "pull_all c (request :: (server_addr, nat) requester) clock i (sg_peers s) (sg_store s) w = (peers, st, w') \<Longrightarrow> batches signed_record_ok request \<Longrightarrow>
     serving_step c s (s\<lparr>sg_daemon := (sg_daemon s)\<lparr>dm_server := (dm_server (sg_daemon s))\<lparr>sv_store := st\<rparr>\<rparr>, sg_peers := peers\<rparr>)"
| sg_purge: "serving_step c s (s\<lparr>sg_daemon := purge_tick now now' (sg_daemon s)\<rparr>)"
| sg_persist: "serving_step c s (s\<lparr>sg_daemon := persist_tick written failed (sg_daemon s)\<rparr>)"

text \<open>The same as a function of what happens, and a server from start to stop: \<open>serve\<close> and \<open>run\<close>.\<close>

datatype serving_event =
    Ev_Stream "(server_addr, nat) env" bytes nat
  | Ev_Pull "(server_addr, nat) requester" "nat \<Rightarrow> nat \<Rightarrow> u64" nat nat
  | Ev_Purge u64 u64
  | Ev_Persist bool "rstring \<Rightarrow> disk_file"

fun serve_event :: "bytes ed25519 \<Rightarrow> serving_event \<Rightarrow> serving \<Rightarrow> serving" where
  "serve_event c (Ev_Stream en b w) s =
     (let (_, sv, _, _) = serve_stream c en b (dm_server (sg_daemon s)) w
      in s\<lparr>sg_daemon := (sg_daemon s)\<lparr>dm_server := sv\<rparr>\<rparr>)"
| "serve_event c (Ev_Pull request clock i w) s =
     (let (peers, st, _) = pull_all c request clock i (sg_peers s) (sg_store s) w
      in s\<lparr>sg_daemon := (sg_daemon s)\<lparr>dm_server := (dm_server (sg_daemon s))\<lparr>sv_store := st\<rparr>\<rparr>, sg_peers := peers\<rparr>)"
| "serve_event c (Ev_Purge now now') s = s\<lparr>sg_daemon := purge_tick now now' (sg_daemon s)\<rparr>"
| "serve_event c (Ev_Persist written failed) s = s\<lparr>sg_daemon := persist_tick written failed (sg_daemon s)\<rparr>"

definition serve :: "bytes ed25519 \<Rightarrow> serving_event list \<Rightarrow> bool \<Rightarrow> (rstring \<Rightarrow> disk_file) \<Rightarrow>
   (rstring \<Rightarrow> disk_file) \<Rightarrow> bound_server \<Rightarrow> server_addr daemon" where
  "serve c events written failed disk bd =
     shutdown written failed (sg_daemon (fold (serve_event c) events (serve_from disk bd)))"

definition run_server ::
  "bytes ed25519 \<Rightarrow> (bytes \<Rightarrow> msg + bytes) \<Rightarrow>
   (socket_addr \<Rightarrow> bytes \<Rightarrow> bytes list option \<Rightarrow> byte list \<Rightarrow> msg + (msg + socket_addr)) \<Rightarrow> (nat \<Rightarrow> u64) \<Rightarrow>
   (rstring \<Rightarrow> disk_file) \<Rightarrow> config \<Rightarrow> bytes \<Rightarrow> serving_event list \<Rightarrow> bool \<Rightarrow> (rstring \<Rightarrow> disk_file) \<Rightarrow>
   server_addr daemon res" where
  "run_server c to_x25519 listen clock disk cf signing_key events written failed =
     rbind (bind_server c to_x25519 listen clock disk cf signing_key) (\<lambda>bd. Inr (serve c events written failed disk bd))"

text \<open>What other machines send is decoded from bytes.\<close>

fun event_ok :: "serving_event \<Rightarrow> bool" where
  "event_ok (Ev_Stream en _ _) \<longleftrightarrow> ask_ok (en_ask en) \<and> string_ok (en_version en)"
| "event_ok (Ev_Pull request _ _ _) \<longleftrightarrow> batches signed_record_ok request"
| "event_ok _ \<longleftrightarrow> True"

lemma serving_step_iff: "serving_step c s s' \<longleftrightarrow> (\<exists>ev. event_ok ev \<and> s' = serve_event c ev s)"
proof
  assume "serving_step c s s'"
  then show "\<exists>ev. event_ok ev \<and> s' = serve_event c ev s"
  proof cases
    case (sg_stream en b w out sv pushes w')
    then show ?thesis by (intro exI [of _ "Ev_Stream en b w"]) simp
  next
    case (sg_pull request clock i w peers st w')
    then show ?thesis by (intro exI [of _ "Ev_Pull request clock i w"]) simp
  next
    case (sg_purge now now')
    then show ?thesis by (intro exI [of _ "Ev_Purge now now'"]) simp
  next
    case (sg_persist written failed)
    then show ?thesis by (intro exI [of _ "Ev_Persist written failed"]) simp
  qed
next
  assume "\<exists>ev. event_ok ev \<and> s' = serve_event c ev s"
  then obtain ev where "event_ok ev" "s' = serve_event c ev s" by blast
  then show "serving_step c s s'"
    by (cases ev) (auto intro: serving_step.intros split: prod.splits)
qed

lemma serve_events_run:
  "rtranclp (serving_step c) s s' \<longleftrightarrow> (\<exists>events. list_all event_ok events \<and> s' = fold (serve_event c) events s)"
proof
  assume "rtranclp (serving_step c) s s'"
  then show "\<exists>events. list_all event_ok events \<and> s' = fold (serve_event c) events s"
  proof (induction rule: rtranclp_induct)
    case base
    then show ?case by (intro exI [of _ "[]"]) simp
  next
    case (step y z)
    then obtain events ev where "list_all event_ok events" "y = fold (serve_event c) events s" "event_ok ev" "z = serve_event c ev y"
      by (auto simp: serving_step_iff)
    then show ?case by (intro exI [of _ "events @ [ev]"]) simp
  qed
next
  assume "\<exists>events. list_all event_ok events \<and> s' = fold (serve_event c) events s"
  then obtain events where "list_all event_ok events" "s' = fold (serve_event c) events s" by blast
  then show "rtranclp (serving_step c) s s'"
  proof (induction events arbitrary: s)
    case (Cons ev events)
    then have "serving_step c s (serve_event c ev s)" by (auto simp: serving_step_iff)
    with Cons show ?case by (auto intro: converse_rtranclp_into_rtranclp)
  qed simp
qed

text \<open>What a server prints for its clients.\<close>

definition connection_string :: "key_codecs \<Rightarrow> bound_server \<Rightarrow> rstring" where
  "connection_string kc bd =
     lit ''sqc://'' @ show_socket (bd_local_addr bd) @ lit ''/'' @ to_base58 kc (bd_public_key bd)"

section \<open>What a run keeps\<close>

definition serving_inv :: "bytes ed25519 \<Rightarrow> serving \<Rightarrow> bool" where
  "serving_inv c s \<longleftrightarrow> server_inv c (dm_server (sg_daemon s)) \<and> server_ok (dm_server (sg_daemon s))"

lemma feed_run: "rtranclp (store_step c) st (feed c xs st)"
proof (induction xs arbitrary: st)
  case (Cons x xs)
  obtain now r where x: "x = (now, r)" by (cases x)
  have "store_step c st (snd (put c now r st))" by (rule step_put)
  with Cons.IH [of "snd (put c now r st)"] show ?case by (simp add: x converse_rtranclp_into_rtranclp)
qed simp

lemma feed_typed:
  "store_ok st \<Longrightarrow> \<forall>r \<in> snd ` set xs. signed_record_ok r \<Longrightarrow> store_ok (feed c xs st)"
  by (induction xs arbitrary: st) (auto simp: store_ok_put)

lemma handle_store_run:
  assumes "handle c en q sv w = (resp, sv', pushes, w')"
  shows "rtranclp (store_step c) (sv_store sv) (sv_store sv')"
proof (cases q)
  case (Publish r)
  then have "sv_store sv' = snd (put c (en_clock en 0) r (sv_store sv))"
    using assms by (auto simp: handle_publish_def Let_def split: prod.splits sum.splits put_outcome.splits)
  then show ?thesis using step_put by (metis r_into_rtranclp)
qed (use assms in \<open>auto simp: Let_def split: prod.splits if_splits dest: handle_lookup_store\<close>)

lemma clamped_ok: "request_ok q \<Longrightarrow> request_ok (clamped q)"
  by (cases q) auto

lemma request_read_ok: "request_read_from b = Inr (q, tail) \<Longrightarrow> request_ok q"
  by (auto simp: request_read_from_def request_decode_iff clamped_ok)

lemma serve_stream_cases:
  assumes "serve_stream c en b sv w = (out, sv', pushes, w')"
  obtains "sv' = sv"
  | q tail resp where "request_read_from b = Inr (q, tail)" "handle c en q sv w = (resp, sv', pushes, w')"
  using assms
  by (cases "request_read_from b") (auto simp: serve_stream_def Let_def split: sum.splits prod.splits)

lemma serving_step_keeps:
  assumes "serving_step c s s'" and "serving_inv c s"
  shows "serving_inv c s' \<and> rtranclp (store_step c) (sg_store s) (sg_store s') \<and>
    snapshot_path (sg_store s') = snapshot_path (sg_store s)"
proof -
  have inv: "server_inv c (dm_server (sg_daemon s))" and ok: "server_ok (dm_server (sg_daemon s))"
    and wf: "hm_wf (st_records (sg_store s))" and sinv: "store_inv c (sg_store s)"
    using assms(2) by (auto simp: serving_inv_def server_inv_def store_inv_def)
  have path: "snapshot_path st' = snapshot_path st" if "rtranclp (store_step c) st st'" for st st' :: store
    using that
  proof (induction rule: rtranclp_induct)
    case (step y z)
    have "snapshot_path (snd (put c now r y)) = snapshot_path y" for now r
      by (cases rule: put_cases [of c now r y]) (auto simp: snapshot_path_def put_result_def)
    with step show ?case by (auto simp: snapshot_path_def)
  qed simp
  have keeps: "serving_inv c s' \<and> rtranclp (store_step c) (sg_store s) (sg_store s')"
    using assms(1)
  proof cases
    case (sg_stream en b w out sv pushes w')
    from sg_stream(2) show ?thesis
    proof (cases rule: serve_stream_cases)
      case 1
      with sg_stream assms(2) show ?thesis by (simp add: serving_inv_def)
    next
      case (2 q tail resp)
      from handle_inv [OF 2(2) inv] handle_store_run [OF 2(2)]
        handle_typed [OF 2(2) ok request_read_ok [OF 2(1)] wf sg_stream(3,4)]
      show ?thesis by (simp add: sg_stream(1) serving_inv_def)
    qed
  next
    case (sg_pull request clock i w peers st w')
    obtain xs where xs: "st = feed c xs (sg_store s)"
      "\<forall>r \<in> snd ` set xs. signed_record_ok r"
      using pull_all_feed [OF sg_pull(2,3)] by blast
    have run: "rtranclp (store_step c) (sg_store s) st" unfolding xs(1) by (rule feed_run)
    moreover have "store_ok st" using feed_typed [OF _ xs(2), of "sg_store s" c] ok by (simp add: xs(1) server_ok_def)
    moreover have "store_inv c st" using store_run_inv [OF run sinv] .
    ultimately show ?thesis using inv ok by (simp add: sg_pull(1) serving_inv_def server_inv_def server_ok_def)
  next
    case (sg_purge now now')
    let ?up = "snd (up_purge now' (sv_upstream (dm_server (sg_daemon s))))"
    have st: "sg_store s' = snd (purge_expired now (sg_store s))" and up: "sv_upstream (dm_server (sg_daemon s')) = ?up"
      by (simp_all add: sg_purge purge_tick_def Let_def case_prod_unfold)
    have "store_step c (sg_store s) (sg_store s')" unfolding st by (rule step_purge)
    moreover have "store_inv c (sg_store s')" "store_ok (sg_store s')"
      using purge_inv [OF sinv] store_ok_purge [OF _ wf] ok by (simp_all add: st server_ok_def)
    moreover have "cache_vetted c (up_cache ?up) \<and> cache_typed (up_cache ?up)"
      using inv ok by (simp add: server_inv_def server_ok_def cache_vetted_purge cache_typed_purge)
    ultimately show ?thesis by (auto simp: serving_inv_def server_inv_def server_ok_def up)
  next
    case (sg_persist written failed)
    then show ?thesis using assms(2) by (auto simp: persist_tick_def serving_inv_def Let_def)
  qed
  with path show ?thesis by blast
qed

lemma serving_run_keeps:
  assumes "rtranclp (serving_step c) s s'" and "serving_inv c s"
  shows "serving_inv c s' \<and> rtranclp (store_step c) (sg_store s) (sg_store s') \<and>
    snapshot_path (sg_store s') = snapshot_path (sg_store s)"
  using assms(1)
proof (induction rule: rtranclp_induct)
  case base
  then show ?case using assms(2) by simp
next
  case (step y z)
  then show ?case using serving_step_keeps [of c y z] by auto
qed

lemma bind_server_store:
  assumes "bind_server c to_x25519 listen clock disk cf key = Inr bd"
  shows "open_store c clock disk (map_option path_display (cf_state_file cf)) = Inr (sv_store (bd_server bd))"
    and "sv_upstream (bd_server bd) = upstream_new (cf_upstreams cf) (cf_upstream_cache cf)"
proof -
  obtain allowed st where "allowed_keys to_x25519 (cf_allowed_clients cf) = Inr allowed"
    and "open_store c clock disk (map_option path_display (cf_state_file cf)) = Inr st"
    using assms by (auto simp: bind_server_def Let_def)
  then show "open_store c clock disk (map_option path_display (cf_state_file cf)) = Inr (sv_store (bd_server bd))"
    and "sv_upstream (bd_server bd) = upstream_new (cf_upstreams cf) (cf_upstream_cache cf)"
    using assms by (auto simp: bind_server_def Let_def split: sum.split_asm)
qed

lemma serving_inv_start:
  assumes "bind_server c to_x25519 listen clock disk cf key = Inr bd"
  shows "serving_inv c (serve_from disk' bd)"
  using open_store_inv [OF bind_server_store(1) [OF assms]] store_ok_open [OF bind_server_store(1) [OF assms]]
  by (simp add: serving_inv_def serve_from_def maintenance_start_def server_inv_def server_ok_def
      bind_server_store(2) [OF assms] upstream_new_def cache_vetted_Some)

lemma open_store_path:
  assumes "open_store c clock disk p = Inr st"
  shows "snapshot_path st = p"
proof -
  have put: "st_path (snd (put c now r s)) = st_path s" for now r s
    by (cases rule: put_cases [of c now r s]) (auto simp: put_result_def)
  have load: "st_path (load_records c now clock n rs s) = st_path s" for now n rs s
    by (induction rs arbitrary: n s) (auto simp: put)
  have binds: "st_path (fold (\<lambda>(k, i). bind k i) bs s) = st_path s" for bs s
    by (induction bs arbitrary: s) auto
  show ?thesis
    using assms load binds
    by (auto simp: open_store_def snapshot_path_def store_new_def Let_def split: option.splits disk_file.splits sum.splits)
qed

section \<open>Properties of a run\<close>



section \<open>A run, for the witnesses\<close>

definition serving_config :: config where
  "serving_config =
     \<lparr>cf_listen = SockV6 (replicate 16 0) DEFAULT_PORT 0, cf_key_file = [lit ''k''], cf_state_file = Some [lit ''db''], cf_peers = [],
      cf_upstreams = [], cf_upstream_timeout = 5, cf_upstream_cache = True, cf_max_upstream_inflight = 64,
      cf_allowed_clients = [], cf_require_dnssec = True, cf_allow_sync = True, cf_sync_interval = 60,
      cf_persist_interval = 30, cf_accepted_envelope_versions = [1, 2]\<rparr>"

definition serving_env :: "(server_addr, nat) env" where
  "serving_env = \<lparr>en_texts = \<lparr>show_error = (\<lambda>_. []), show_link = (\<lambda>_. []), debug_code = (\<lambda>_. []),
     debug_response = (\<lambda>_. []), stale_message = (\<lambda>_ _. [])\<rparr>, en_ask = (\<lambda>_ _ w. (TimedOut, w)),
     en_clock = (\<lambda>_. 1020), en_uptime = 0, en_version = []\<rparr>"

abbreviation any_listen :: "socket_addr \<Rightarrow> bytes \<Rightarrow> bytes list option \<Rightarrow> byte list \<Rightarrow> msg + (msg + socket_addr)" where
  "any_listen \<equiv> \<lambda>a _ _ _. Inr (Inr a)"

definition serving_bound :: "store \<Rightarrow> bound_server" where
  "serving_bound st =
     \<lparr>bd_server = \<lparr>sv_store = st, sv_upstream = upstream_new [] True, sv_peers = 0, sv_allow_sync = True\<rparr>,
      bd_peers = [], bd_sync_interval = 60, bd_persist_interval = 30,
      bd_local_addr = SockV6 (replicate 16 0) DEFAULT_PORT 0, bd_public_key = key_n 9\<rparr>"

lemma sample_bind:
  assumes "open_store seed_ed25519 clock disk (Some (lit ''db'')) = Inr st"
  shows "bind_server seed_ed25519 Inr any_listen clock disk serving_config (replicate 32 9) = Inr (serving_bound st)"
  using assms by (simp add: bind_server_def serving_config_def allowed_keys_def replicator_new_def peer_count_def serving_bound_def)

lemma retired_encoding_ok: "signed_record_ok (superseded 1 2 6 1010 3)"
proof -
  let ?r = "superseded 1 2 6 1010 3"
  have "record_ok (sr_record ?r)"
    by (simp add: record_ok_def delegation_ok_def superseded_def string_ok_def lit_def)
  moreover have "length (record_encode (sr_record ?r)) \<le> 65535"
    by (simp add: record_encode_eq delegation_encode_into_eq superseded_def lit_def put_string_def)
  ultimately show ?thesis by (simp add: signed_record_ok_def) (simp add: superseded_def)
qed

lemma sample_serving_step:
  fixes st0 :: store
  defines "st0 \<equiv> store_new (Some (lit ''db''))"
  shows "\<exists>s. serving_step seed_ed25519 (serve_from (\<lambda>_. Absent) (serving_bound st0)) s \<and>
    sg_store s = put_result (superseded 1 2 6 1010 3) st0"
proof -
  let ?r = "superseded 1 2 6 1010 3" and ?s = "serve_from (\<lambda>_. Absent) (serving_bound st0)"
  have "request_ok (Publish ?r)" by (simp add: retired_encoding_ok)
  from request_wire [OF this, of "[]"] obtain b where b: "request_read_from b = Inr (Publish ?r, [])" by auto
  have "put seed_ed25519 1020 ?r st0 = (Inr Stored, put_result ?r st0)"
    unfolding st0_def by (rule put_new) (simp add: sample_checks)
  then have "handle seed_ed25519 serving_env (Publish ?r) (bd_server (serving_bound st0)) (0 :: nat) =
      (Published 6 (expires_at (sr_record ?r)), (bd_server (serving_bound st0))\<lparr>sv_store := put_result ?r st0\<rparr>, [?r], 0)"
    by (simp add: handle_publish_def serving_env_def serving_bound_def)
  then obtain out where "serve_stream seed_ed25519 serving_env b (dm_server (sg_daemon ?s)) (0 :: nat) =
      (out, (bd_server (serving_bound st0))\<lparr>sv_store := put_result ?r st0\<rparr>, [?r], 0)"
    using b
    by (cases "response_write_to (Published 6 (expires_at (sr_record ?r)))")
      (auto simp: serve_stream_def serve_from_def maintenance_start_def)
  from sg_stream [OF this] show ?thesis
    by (intro exI) (auto simp: ask_ok_def serving_env_def string_ok_def)
qed



section \<open>Connection strings\<close>

lemma split_bracketed_authority:
  "93 \<notin> set h \<Longrightarrow> split_authority (91 # h @ 93 # 58 # show_nat (unat p)) = Inr (h, p)"
  by (simp add: split_authority_def split_bracketed parse_port_show)

text \<open>
  The connection string a server prints can be handed to a client: it is read as an address with
  the port the server is bound to, pinned to the server's key, whose host is the IP address it is
  bound to, with its scope if it has one. It uses \<open>sqc://\<close>, so DNSSEC is not asked for.
\<close>

theorem connection_string_usable:
  assumes "key_codecs_correct kc" and "pubkey_ok (bd_public_key bd)"
    and "case bd_local_addr bd of SockV4 a _ \<Rightarrow> length a = 4 | SockV6 a _ _ \<Rightarrow> length a = 16"
  shows "addr_from_str kc (connection_string kc bd) = Inr
    \<lparr>ad_scheme = Sqc,
     ad_host = (case bd_local_addr bd of
                  SockV4 a _ \<Rightarrow> show_ipv4 a
                | SockV6 a _ scope \<Rightarrow> show_ipv6 a @ (if scope = 0 then [] else 37 # show_nat (unat scope))),
     ad_port = (case bd_local_addr bd of SockV4 _ port \<Rightarrow> port | SockV6 _ port _ \<Rightarrow> port),
     ad_key = bd_public_key bd\<rparr>"
proof (cases "bd_local_addr bd")
  case (SockV4 a port)
  have v4: "47 \<notin> set (show_ipv4 a)" "58 \<notin> set (show_ipv4 a)" "\<And>r. show_ipv4 a \<noteq> 91 # r"
    using show_ipv4_literal [of _ a] by (fastforce simp: literal_char_def)+
  have "47 \<notin> set (show_ipv4 a @ 58 # show_nat (unat port))" using v4(1) by (simp add: show_num_no_punct)
  from addr_from_parts [OF assms(1,2) this split_host_port [OF v4(2,3)], of Sqc] SockV4 show ?thesis
    by (simp add: connection_string_def)
next
  case (SockV6 a port scope)
  let ?h = "show_ipv6 a @ (if scope = 0 then [] else 37 # show_nat (unat scope))"
  have v6: "47 \<notin> set ?h" "93 \<notin> set ?h"
    using show_ipv6_literal [of _ a] by (auto simp: literal_char_def show_num_no_punct)
  then have "47 \<notin> set (91 # ?h @ 93 # 58 # show_nat (unat port))" by (simp add: show_num_no_punct)
  from addr_from_parts [OF assms(1,2) this split_bracketed_authority [OF v6(2)], of Sqc]
  have "addr_from_str kc (scheme_prefix Sqc @ 91 # ?h @ 93 # 58 # show_nat (unat port) @ 47 # to_base58 kc (bd_public_key bd)) =
      Inr \<lparr>ad_scheme = Sqc, ad_host = ?h, ad_port = port, ad_key = bd_public_key bd\<rparr>" by simp
  moreover have "lit ''%'' = [37]" by (simp add: lit_def)
  ultimately show ?thesis by (auto simp: connection_string_def SockV6)
qed

theorem connection_string_usable_witness:
  "addr_from_str toy_codecs (connection_string toy_codecs (serving_bound (store_new None))) =
     Inr \<lparr>ad_scheme = Sqc, ad_host = show_ipv6 (replicate 16 0), ad_port = DEFAULT_PORT, ad_key = key_n 9\<rparr>"
  using connection_string_usable [OF toy_codecs_correct, of "serving_bound (store_new None)"]
  by (simp add: serving_bound_def)

end
