(* ===== verification/Registry.thy ===== *)
theory Registry
  imports Serving
begin

text \<open>
  What a server is for, without its data structures: a registry that keeps for every key its best
  record and its owner. The store implements it operation by operation, and a running server, with
  its streams, peers, timers and files, only ever takes steps of it.
\<close>

section \<open>The specification\<close>

record registry =
  rg_record :: "pubkey \<Rightarrow> signed_record option"
  rg_owner :: "pubkey \<Rightarrow> pubkey option"

text \<open>A record is accepted if it verifies, comes from the owner and beats what is there; nothing beats a retirement.\<close>

definition reg_accepts :: "'v verifier_scheme \<Rightarrow> u64 \<Rightarrow> signed_record \<Rightarrow> registry \<Rightarrow> bool" where
  "reg_accepts c now r g \<longleftrightarrow>
     admissible c now r \<and>
     (case rg_owner g (sr_key r) of None \<Rightarrow> True | Some i \<Rightarrow> sr_identity r = i) \<and>
     (case rg_record g (sr_key r) of None \<Rightarrow> True | Some h \<Rightarrow> supersedes (sr_record r) (sr_record h))"

definition reg_put :: "'v verifier_scheme \<Rightarrow> u64 \<Rightarrow> signed_record \<Rightarrow> registry \<Rightarrow> registry" where
  "reg_put c now r g =
     (if reg_accepts c now r g
      then \<lparr>rg_record = (rg_record g)(sr_key r \<mapsto> r), rg_owner = (rg_owner g)(sr_key r \<mapsto> sr_identity r)\<rparr>
      else g)"

definition reg_get :: "u64 \<Rightarrow> pubkey \<Rightarrow> registry \<Rightarrow> signed_record option" where
  "reg_get now k g =
     (case rg_record g k of None \<Rightarrow> None | Some r \<Rightarrow> if is_expired (sr_record r) now then None else Some r)"

definition reg_expire :: "u64 \<Rightarrow> registry \<Rightarrow> registry" where
  "reg_expire now g = g\<lparr>rg_record := (\<lambda>k. reg_get now k g)\<rparr>"

definition reg_issued :: "u64 \<Rightarrow> pubkey \<Rightarrow> registry \<Rightarrow> signed_record set" where
  "reg_issued now i g = {r. \<exists>k. rg_owner g k = Some i \<and> reg_get now k g = Some r}"

text \<open>What a question with no hops left is answered.\<close>

definition reg_answer :: "u64 \<Rightarrow> u64 \<Rightarrow> pubkey \<Rightarrow> registry \<Rightarrow> response" where
  "reg_answer now now' k g =
     (case reg_get now k g of
        None \<Rightarrow> Answer None None
      | Some r \<Rightarrow> Answer (Some r) (Option.bind (successor (sr_record r)) (\<lambda>nxt. reg_get now' nxt g)))"

inductive reg_step :: "'v verifier_scheme \<Rightarrow> registry \<Rightarrow> registry \<Rightarrow> bool" for c where
  reg_step_put: "reg_step c g (reg_put c now r g)"
| reg_step_expire: "reg_step c g (reg_expire now g)"

section \<open>Simulation\<close>

text \<open>A machine whose steps are runs of another, as long as its invariant holds.\<close>

locale simulation =
  fixes conc :: "'s \<Rightarrow> 's \<Rightarrow> bool"
    and spec :: "'a \<Rightarrow> 'a \<Rightarrow> bool"
    and abs :: "'s \<Rightarrow> 'a"
    and inv1 :: "'s \<Rightarrow> bool"
  assumes sim_step: "inv1 s \<Longrightarrow> conc s s' \<Longrightarrow> inv1 s' \<and> rtranclp spec (abs s) (abs s')"
begin

lemma run:
  assumes "rtranclp conc s s'" and "inv1 s"
  shows "inv1 s' \<and> rtranclp spec (abs s) (abs s')"
  using assms(1)
proof (induction rule: rtranclp_induct)
  case base
  then show ?case using assms(2) by simp
next
  case (step y z)
  then show ?case using sim_step [of y z] by (auto intro: rtranclp_trans)
qed

end

text \<open>Simulations compose.\<close>

locale simulation_chain =
  upper: simulation mid spec abs2 inv2 + lower: simulation conc mid abs1 inv1
  for conc :: "'s \<Rightarrow> 's \<Rightarrow> bool" and mid :: "'m \<Rightarrow> 'm \<Rightarrow> bool" and spec :: "'a \<Rightarrow> 'a \<Rightarrow> bool"
    and abs1 :: "'s \<Rightarrow> 'm" and abs2 :: "'m \<Rightarrow> 'a" and inv1 :: "'s \<Rightarrow> bool" and inv2 :: "'m \<Rightarrow> bool" +
  assumes mid_inv: "inv1 s \<Longrightarrow> inv2 (abs1 s)"

sublocale simulation_chain \<subseteq> whole: simulation conc spec "\<lambda>s. abs2 (abs1 s)" inv1
proof
  fix s s' assume s: "inv1 s" and st: "conc s s'"
  from lower.sim_step [OF s st] have "inv1 s'" and r: "rtranclp mid (abs1 s) (abs1 s')" by auto
  with upper.run [OF r mid_inv [OF s]] show "inv1 s' \<and> rtranclp spec (abs2 (abs1 s)) (abs2 (abs1 s'))" by blast
qed

section \<open>The store implements it\<close>

definition registry_of :: "store \<Rightarrow> registry" where
  "registry_of st = \<lparr>rg_record = held st, rg_owner = bound st\<rparr>"

lemma accepts_iff: "reg_accepts c now r (registry_of st) \<longleftrightarrow> admissible c now r \<and> wins r st"
  by (auto simp: reg_accepts_def registry_of_def wins_def supersedes_iff split: option.splits)

lemma registry_put: "registry_of (snd (put c now r st)) = reg_put c now r (registry_of st)"
proof (cases rule: put_cases [of c now r st])
  case Stored
  then show ?thesis by (simp add: reg_put_def accepts_iff) (simp add: registry_of_def held_put_result bound_put_result)
next
  case Stale
  then have "\<not> (admissible c now r \<and> wins r st)" using put_stored_iff [of c now r st "put_result r st"] by auto
  with Stale show ?thesis by (auto simp: reg_put_def accepts_iff)
next
  case (Rejected e)
  then have "\<not> (admissible c now r \<and> wins r st)" using put_stored_iff [of c now r st "put_result r st"] by auto
  with Rejected show ?thesis by (auto simp: reg_put_def accepts_iff)
qed

lemma registry_get: "get now k st = reg_get now k (registry_of st)"
  by (simp add: get_def reg_get_def registry_of_def split: option.splits)

lemma registry_purge:
  "hm_wf (st_records st) \<Longrightarrow> registry_of (snd (purge_expired now st)) = reg_expire now (registry_of st)"
  by (auto simp: registry_of_def reg_expire_def reg_get_def held_purge fun_eq_iff split: option.splits)

interpretation store_sim: simulation "store_step c" "reg_step c" registry_of "store_inv c" for c
proof
  fix st st' assume inv: "store_inv c st" and "store_step c st st'"
  from this(2) show "store_inv c st' \<and> rtranclp (reg_step c) (registry_of st) (registry_of st')"
  proof cases
    case (step_put now r)
    with put_inv [OF inv] registry_put reg_step_put show ?thesis by (metis r_into_rtranclp)
  next
    case (step_purge now)
    have "hm_wf (st_records st)" using inv by (simp add: store_inv_def)
    with step_purge purge_inv [OF inv] registry_purge reg_step_expire show ?thesis by (metis r_into_rtranclp)
  qed
qed

interpretation serving_sim: simulation "serving_step c" "store_step c" sg_store "serving_inv c" for c
  using serving_step_keeps by unfold_locales blast

interpretation serving_chain: simulation_chain "serving_step c" "store_step c" "reg_step c" sg_store registry_of
    "serving_inv c" "store_inv c" for c
  by unfold_locales (simp add: serving_inv_def server_inv_def)


section \<open>Refinement\<close>

lemma registry_issued:
  assumes "store_inv c st"
  shows "set (identity_list now i st) = reg_issued now i (registry_of st)"
proof (rule set_eqI)
  fix r
  have key: "held st k = Some r \<Longrightarrow> sr_key r = k \<and> bound st k = Some (sr_identity r)" for k
    using assms by (auto simp: store_inv_def record_inv_def)
  have live: "reg_get now k (registry_of st) = Some r \<longleftrightarrow> held st k = Some r \<and> \<not> is_expired (sr_record r) now" for k
    by (auto simp: reg_get_def registry_of_def split: option.splits)
  have "r \<in> reg_issued now i (registry_of st) \<longleftrightarrow>
      (\<exists>k. bound st k = Some i \<and> held st k = Some r) \<and> \<not> is_expired (sr_record r) now"
    unfolding reg_issued_def mem_Collect_eq live by (auto simp: registry_of_def)
  also have "\<dots> \<longleftrightarrow> r \<in> set (identity_list now i st)"
    unfolding set_identity_list [OF assms] using key by fastforce
  finally show "r \<in> set (identity_list now i st) \<longleftrightarrow> r \<in> reg_issued now i (registry_of st)" by simp
qed

lemma accepted_iff: "fst (put c now r st) = Inr Stored \<longleftrightarrow> reg_accepts c now r (registry_of st)"
proof -
  have "fst (put c now r st) = Inr Stored \<longleftrightarrow> (\<exists>st'. put c now r st = (Inr Stored, st'))"
    by (cases "put c now r st") simp
  then show ?thesis by (simp add: put_stored_iff accepts_iff)
qed

lemma registry_listing:
  assumes "store_inv c st"
  shows "distinct (map sr_key (identity_records now i limit st))"
    and "set (identity_records now i limit st) \<subseteq> reg_issued now i (registry_of st)"
    and "card (reg_issued now i (registry_of st)) \<le> limit \<Longrightarrow>
      set (identity_records now i limit st) = reg_issued now i (registry_of st)"
proof -
  note dist = distinct_identity_list [OF assms, of now i] and issued = registry_issued [OF assms, symmetric]
  show "distinct (map sr_key (identity_records now i limit st))"
    using dist by (simp add: identity_records_eq take_map [symmetric])
  show "set (identity_records now i limit st) \<subseteq> reg_issued now i (registry_of st)"
    by (simp add: identity_records_eq issued set_take_subset)
  assume "card (reg_issued now i (registry_of st)) \<le> limit"
  then have "length (identity_list now i st) \<le> limit"
    using distinct_card [of "identity_list now i st"] dist by (simp add: issued distinct_map)
  then show "set (identity_records now i limit st) = reg_issued now i (registry_of st)"
    by (simp add: identity_records_eq issued)
qed

lemma registry_lookup:
  "handle c en (Lookup k 0) sv w = (reg_answer (en_clock en 0) (en_clock en 1) k (registry_of (sv_store sv)), sv, [], w)"
  by (simp add: handle_lookup_def reg_answer_def registry_get Option.bind_def split: option.splits)

lemma registry_publish:
  assumes "handle c en (Publish r) sv w = (resp, sv', pushes, w')"
  shows "registry_of (sv_store sv') = reg_put c (en_clock en 0) r (registry_of (sv_store sv))"
    and "reg_accepts c (en_clock en 0) r (registry_of (sv_store sv)) \<longleftrightarrow>
      resp = Published (rec_serial (sr_record r)) (expires_at (sr_record r))"
  using assms accepted_iff [of c "en_clock en 0" r "sv_store sv"] registry_put [of c "en_clock en 0" r "sv_store sv"]
  by (auto simp: handle_publish_def Let_def split: prod.splits sum.splits put_outcome.splits)

text \<open>
  C8. The store refines the registry. On every state in which its invariant holds, each of its operations
  does what the registry's does: \<open>put\<close> stores exactly what the registry accepts and changes what it
  changes, purging forgets what has expired and no owner, a lookup answers the live record,
  and the listing of an identity holds distinct keys it owns, and all of them if the limit is not reached.
\<close>

theorem store_refines_registry:
  assumes "store_inv c st"
  shows "registry_of (snd (put c now r st)) = reg_put c now r (registry_of st) \<and>
    (fst (put c now r st) = Inr Stored \<longleftrightarrow> reg_accepts c now r (registry_of st)) \<and>
    registry_of (snd (purge_expired now st)) = reg_expire now (registry_of st) \<and>
    get now k st = reg_get now k (registry_of st) \<and>
    identity_of k st = rg_owner (registry_of st) k \<and>
    distinct (map sr_key (identity_records now i limit st)) \<and>
    set (identity_records now i limit st) \<subseteq> reg_issued now i (registry_of st) \<and>
    (card (reg_issued now i (registry_of st)) \<le> limit \<longrightarrow>
      set (identity_records now i limit st) = reg_issued now i (registry_of st))"
proof -
  have "registry_of (snd (purge_expired now st)) = reg_expire now (registry_of st)"
    using assms by (simp add: registry_purge store_inv_def)
  moreover have "identity_of k st = rg_owner (registry_of st) k" by (simp add: identity_of_def registry_of_def)
  ultimately show ?thesis
    using registry_listing [OF assms, of now i limit] by (simp add: registry_put accepted_iff registry_get)
qed

theorem store_refines_registry_witness:
  "fst (put seed_ed25519 1020 (superseded 1 2 6 1010 3) store_live) = Inr Stored \<and>
   set (identity_records 1100 (key_n 1) 512 store_live) = {live 1 2 5 1000 300 [v4_endpoint 5300]}"
proof -
  let ?r = "superseded 1 2 6 1010 3" and ?h = "live 1 2 5 1000 300 [v4_endpoint 5300]"
  have acc: "reg_accepts seed_ed25519 1020 ?r (registry_of store_live)"
    by (simp add: reg_accepts_def registry_of_def sample_checks supersedes_iff)
  have issued: "reg_issued 1100 (key_n 1) (registry_of store_live) = {?h}"
    by (auto simp: reg_issued_def reg_get_def registry_of_def live_expired saturating_add_def split: if_splits)
  have inv: "store_inv seed_ed25519 store_live" by (simp add: store_inv_seed store_inv_samples)
  from store_refines_registry [OF inv, of 1020 ?r] acc
    store_refines_registry [OF inv, of 1100 _ _ "key_n 1" 512] issued
  show ?thesis by simp
qed



end
