(* ===== verification/Publisher.thy ===== *)
theory Publisher
  imports Resolver
begin

text \<open>
  The publisher of \<open>crates/sqns-client/src/publisher.rs\<close>: it signs the record of one service key and
  keeps it refreshed. The serial counter is an atomic 64-bit word that only this object updates; the
  clock readings of one publication are \<open>clock 0\<close> (signing), \<open>clock 1\<close> (publishing), \<open>clock 2\<close> and
  \<open>clock 3\<close> (the lookup after a refusal), \<open>clock 4\<close> and \<open>clock 5\<close> (the second attempt).
\<close>

section \<open>The model\<close>

definition DEFAULT_TTL :: u32 where "DEFAULT_TTL = 300"

record 'sk publisher =
  pb_signing_key :: 'sk
  pb_delegation :: delegation
  pb_endpoints :: "endpoint list"
  pb_ttl :: u32
  pb_serial :: u64

definition publisher_new ::
  "'sk ed25519 \<Rightarrow> u64 \<Rightarrow> 'sk \<Rightarrow> delegation \<Rightarrow> endpoint list \<Rightarrow> u32 \<Rightarrow> 'sk publisher res" where
  "publisher_new c now service_key d eps ttl =
     rbind (delegation_verify c d (public_of c service_key)) (\<lambda>_.
       Inr \<lparr>pb_signing_key = service_key, pb_delegation = d, pb_endpoints = eps, pb_ttl = ttl, pb_serial = now\<rparr>)"

definition pb_key :: "'sk ed25519 \<Rightarrow> 'sk publisher \<Rightarrow> pubkey" where
  "pb_key c pb = public_of c (pb_signing_key pb)"

definition pb_identity :: "'sk publisher \<Rightarrow> pubkey" where
  "pb_identity pb = dl_identity (pb_delegation pb)"

text \<open>In seconds.\<close>

definition refresh_interval :: "'sk publisher \<Rightarrow> u64" where
  "refresh_interval pb = max (ucast (pb_ttl pb) div 3) 10"

text \<open>\<open>fetch_add\<close> wraps.\<close>

definition pb_sign ::
  "'sk ed25519 \<Rightarrow> u64 \<Rightarrow> endpoint list \<Rightarrow> 'sk publisher \<Rightarrow> signed_record res \<times> 'sk publisher" where
  "pb_sign c now eps pb =
     (let serial = pb_serial pb;
          rcd = record_live now (pb_key c pb) (pb_delegation pb) serial (pb_ttl pb) eps
      in (rbind (validate c rcd) (\<lambda>_. record_sign c rcd (pb_signing_key pb)), pb\<lparr>pb_serial := serial + 1\<rparr>))"

definition build :: "'sk ed25519 \<Rightarrow> u64 \<Rightarrow> 'sk publisher \<Rightarrow> signed_record res \<times> 'sk publisher" where
  "build c now pb = pb_sign c now (pb_endpoints pb) pb"

definition adopt_network_serial ::
  "'sk ed25519 \<Rightarrow> server_addr texts \<Rightarrow> 'w requests \<Rightarrow> (nat \<Rightarrow> u64) \<Rightarrow> 'sk publisher \<Rightarrow> resolver \<Rightarrow> 'w \<Rightarrow>
   unit res \<times> 'sk publisher \<times> resolver \<times> 'w" where
  "adopt_network_serial c tx request clock pb rs w =
     (case lookup c tx request clock (pb_key c pb) rs w of
        (Inl e, rs, w) \<Rightarrow> (Inl e, pb, rs, w)
      | (Inr None, rs, w) \<Rightarrow> (Inr (), pb, rs, w)
      | (Inr (Some h), rs, w) \<Rightarrow>
          (Inr (), pb\<lparr>pb_serial := max (pb_serial pb) (saturating_add (rec_serial (sr_record h)) 1)\<rparr>, rs, w))"

definition publish_endpoints ::
  "'sk ed25519 \<Rightarrow> server_addr texts \<Rightarrow> 'w requests \<Rightarrow> (nat \<Rightarrow> u64) \<Rightarrow> endpoint list \<Rightarrow>
   'sk publisher \<Rightarrow> resolver \<Rightarrow> 'w \<Rightarrow> u64 res \<times> 'sk publisher \<times> resolver \<times> 'w" where
  "publish_endpoints c tx request clock eps pb rs w =
     (case pb_sign c (clock 0) eps pb of
        (Inl e, pb) \<Rightarrow> (Inl e, pb, rs, w)
      | (Inr rcd, pb) \<Rightarrow>
        (case publish c tx request (clock 1) rcd rs w of
           (Inl (E_Server code message), rs, w) \<Rightarrow>
             if code = code_as_u16 EC_Stale
             then (case adopt_network_serial c tx request (\<lambda>n. clock (n + 2)) pb rs w of
                     (Inl e, pb, rs, w) \<Rightarrow> (Inl e, pb, rs, w)
                   | (Inr _, pb, rs, w) \<Rightarrow>
                     (case pb_sign c (clock 4) eps pb of
                        (Inl e, pb) \<Rightarrow> (Inl e, pb, rs, w)
                      | (Inr rcd, pb) \<Rightarrow>
                          let (out, rs, w) = publish c tx request (clock 5) rcd rs w in (out, pb, rs, w)))
             else (Inl (E_Server code message), pb, rs, w)
         | (other, rs, w) \<Rightarrow> (other, pb, rs, w)))"

definition pb_publish ::
  "'sk ed25519 \<Rightarrow> server_addr texts \<Rightarrow> 'w requests \<Rightarrow> (nat \<Rightarrow> u64) \<Rightarrow>
   'sk publisher \<Rightarrow> resolver \<Rightarrow> 'w \<Rightarrow> u64 res \<times> 'sk publisher \<times> resolver \<times> 'w" where
  "pb_publish c tx request clock pb rs w = publish_endpoints c tx request clock (pb_endpoints pb) pb rs w"

definition withdraw ::
  "'sk ed25519 \<Rightarrow> server_addr texts \<Rightarrow> 'w requests \<Rightarrow> (nat \<Rightarrow> u64) \<Rightarrow>
   'sk publisher \<Rightarrow> resolver \<Rightarrow> 'w \<Rightarrow> u64 res \<times> 'sk publisher \<times> resolver \<times> 'w" where
  "withdraw c tx request clock pb rs w = publish_endpoints c tx request clock [] pb rs w"

text \<open>The loop of \<open>run\<close> for the ticks whose clocks are given; a failed refresh is only logged.\<close>

fun run ::
  "'sk ed25519 \<Rightarrow> server_addr texts \<Rightarrow> 'w requests \<Rightarrow> (nat \<Rightarrow> u64) list \<Rightarrow>
   'sk publisher \<Rightarrow> resolver \<Rightarrow> 'w \<Rightarrow> 'sk publisher \<times> resolver \<times> 'w" where
  "run c tx request [] pb rs w = (pb, rs, w)"
| "run c tx request (clock # ticks) pb rs w =
     (let (_, pb, rs, w) = pb_publish c tx request clock pb rs w in run c tx request ticks pb rs w)"

end
