(* ===== verification/Cli.thy ===== *)
theory Cli
  imports Daemon Publisher
begin

text \<open>
  The command line client (\<open>crates/sqns/src/main.rs\<close>): choosing the servers, keys and delegations on
  disk, and the commands. Arguments are parsed by the third-party crate \<open>clap\<close> and given here as the
  parsed values; what a command prints is not modelled, except for the functions that compute a text.
  A private key is its seed, so the Ed25519 operations are over byte strings. \<open>net config\<close> is the
  network as a resolver with that configuration reaches it; \<open>clock n\<close> is the \<open>n\<close>-th reading of the clock.
\<close>

section \<open>Files\<close>

definition IDENTITY_KEY :: rstring where "IDENTITY_KEY = lit ''identity.key''"
definition SERVICE_KEY :: rstring where "SERVICE_KEY = lit ''service.key''"
definition SERVICE_DELEGATION :: rstring where "SERVICE_DELEGATION = lit ''service.deleg''"
definition CONFIG_FILE :: rstring where "CONFIG_FILE = lit ''config''"
definition DEFAULT_SERVER :: rstring where
  "DEFAULT_SERVER = lit ''sqns://ns.squic.org/9Yb1A35fjEVVxphy5sGKfqC9fhTD9etoJQ4gVSa1jEKb''"

text \<open>\<open>?\<close> where a state is threaded along.\<close>

definition try_st :: "'a res \<times> 's \<Rightarrow> ('a \<Rightarrow> 's \<Rightarrow> 'b res \<times> 's) \<Rightarrow> 'b res \<times> 's" where
  "try_st m k = (case m of (Inl e, s) \<Rightarrow> (Inl e, s) | (Inr x, s) \<Rightarrow> k x s)"

record cli_env =
  ce_host :: host_env
  ce_server_env :: "rstring option"

definition path_or_default :: "cli_env \<Rightarrow> path option \<Rightarrow> rstring \<Rightarrow> file_system \<Rightarrow> path res \<times> file_system" where
  "path_or_default env given name fs =
     (case given of
        Some p \<Rightarrow> (Inr p, fs)
      | None \<Rightarrow>
          try_st (ensure_sqns_dir (he_umask (ce_host env)) (he_home_env (ce_host env)) (he_home_dir (ce_host env)) fs)
            (\<lambda>dir fs. (Inr (dir @ [name]), fs)))"

definition load_key :: "key_codecs \<Rightarrow> path \<Rightarrow> rstring \<Rightarrow> file_system \<Rightarrow> bytes res" where
  "load_key kc p hint fs =
     (if \<not> exists_path fs p then Inl (E_Key (Msg ''no key at {}; create one with: {hint}'' [] (p @ [hint])))
      else load_secret_file kc p fs)"

definition cli_keygen :: "key_codecs \<Rightarrow> u32 \<Rightarrow> bytes \<Rightarrow> path \<Rightarrow> bool \<Rightarrow> file_system \<Rightarrow> unit res \<times> file_system" where
  "cli_keygen kc umask fresh out force fs =
     (if exists_path fs out \<and> \<not> force
      then (Inl (E_Key (Msg ''{} already exists; pass --force to overwrite it'' [] out)), fs)
      else save_secret_file kc umask out fresh fs)"

text \<open>\<open>Path::new\<close>: the components between slashes; a leading slash is an empty first component.\<close>

definition path_of :: "rstring \<Rightarrow> path" where
  "path_of s =
     (case split_on (ch CHR ''/'') s of
        [] \<Rightarrow> []
      | c # cs \<Rightarrow> (if c = [] \<and> cs = [] then [] else [c]) @ filter (\<lambda>x. x \<noteq> []) cs)"

definition read_pubkey :: "bytes ed25519 \<Rightarrow> key_codecs \<Rightarrow> rstring \<Rightarrow> file_system \<Rightarrow> pubkey res" where
  "read_pubkey c kc val fs =
     (case pubkey_from_str kc val of
        Inr k \<Rightarrow> Inr k
      | Inl _ \<Rightarrow>
          let p = path_of val in
          if \<not> exists_path fs p
          then Inl (E_Key (Msg ''neither a base58 public key nor an existing file: '' [] [val]))
          else rbind (load_secret_file kc p fs) (\<lambda>sk. Inr (public_of c sk)))"

definition load_delegation :: "'v verifier_scheme \<Rightarrow> path \<Rightarrow> file_system \<Rightarrow> delegation_file res" where
  "load_delegation c p fs =
     (case fs p of
        Some (File b _) \<Rightarrow> delegation_file_decode c b
      | _ \<Rightarrow> Inl (E_Delegation (Msg ''no delegation at {}; create one with: sqns delegate'' [] p)))"

section \<open>Delegations\<close>

definition MAX_DELEGATION_LIFETIME :: u64 where "MAX_DELEGATION_LIFETIME = 31536000"
definition DEFAULT_DELEGATION_LIFETIME :: u64 where "DEFAULT_DELEGATION_LIFETIME = 7776000"

definition saturating_mul :: "u64 \<Rightarrow> u64 \<Rightarrow> u64" where
  "saturating_mul a b = (if unat a * unat b < 2 ^ 64 then a * b else - 1)"

definition delegate ::
  "bytes ed25519 \<Rightarrow> key_codecs \<Rightarrow> u32 \<Rightarrow> u64 \<Rightarrow> path \<Rightarrow> rstring \<Rightarrow> u64 \<Rightarrow> bool \<Rightarrow> path \<Rightarrow> file_system \<Rightarrow>
   unit res \<times> file_system" where
  "delegate c kc umask now identity_path service_key days never_expires out fs =
     (case load_key kc identity_path (lit ''sqns keygen --identity'') fs of
        Inl e \<Rightarrow> (Inl e, fs)
      | Inr identity \<Rightarrow>
        (case read_pubkey c kc service_key fs of
           Inl e \<Rightarrow> (Inl e, fs)
         | Inr service_pub \<Rightarrow>
             if service_pub = public_of c identity
             then (Inl (E_Delegation (plain ''a key cannot be its own identity: generate a separate service key'')), fs)
             else
             let lifetime = saturating_mul days 86400 in
             if \<not> never_expires \<and> (lifetime = 0 \<or> lifetime > MAX_DELEGATION_LIFETIME)
             then (Inl (E_Delegation (Msg ''delegation must last 1..={} days, or pass --never-expires''
                          [unat MAX_DELEGATION_LIFETIME div 86400] [])), fs)
             else
             let not_after = (if never_expires then NEVER_EXPIRES else now + lifetime);
                 d = delegation_issue c identity service_pub not_after
             in fs_write umask out (delegation_file_encode \<lparr>df_service_key = service_pub, df_delegation = d\<rparr>) fs))"

definition retirement_delegation :: "bytes ed25519 \<Rightarrow> u64 \<Rightarrow> bytes \<Rightarrow> pubkey \<Rightarrow> delegation" where
  "retirement_delegation c now identity service_key =
     delegation_issue c identity service_key (now + DEFAULT_DELEGATION_LIFETIME)"

section \<open>Servers\<close>

record server_args =
  sa_servers :: "rstring list"
  sa_client_key :: "path option"
  sa_timeout :: u64
  sa_no_recurse :: bool
  sa_insecure_dns :: bool

text \<open>\<open>str::lines\<close>: a line feed ends a line, together with a carriage return before it.\<close>

definition text_lines :: "rstring \<Rightarrow> rstring list" where
  "text_lines s =
     (let ps = split_on 10 s;
          chomp = (\<lambda>l. case strip_suffix [13] l of Some l' \<Rightarrow> l' | None \<Rightarrow> l)
      in map chomp (butlast ps) @ (if last ps = [] then [] else [last ps]))"

definition servers_from_config :: "rstring \<Rightarrow> rstring list" where
  "servers_from_config text =
     filter (\<lambda>l. l \<noteq> []) (map (\<lambda>line. trim (hd (split_on (ch CHR ''#'') line))) (text_lines text))"

fun split_by :: "(byte \<Rightarrow> bool) \<Rightarrow> rstring \<Rightarrow> rstring list" where
  "split_by p [] = [[]]"
| "split_by p (b # s) =
     (if p b then [] # split_by p s
      else case split_by p s of x # xs \<Rightarrow> (b # x) # xs | [] \<Rightarrow> [[b]])"

definition servers_from_env :: "rstring \<Rightarrow> rstring list" where
  "servers_from_env text = filter (\<lambda>s. s \<noteq> []) (split_by (\<lambda>b. b \<in> set [44, 32, 9, 10]) text)"

definition server_specs :: "cli_env \<Rightarrow> server_args \<Rightarrow> path \<Rightarrow> file_system \<Rightarrow> rstring list" where
  "server_specs env args config_path fs =
     (let specs = sa_servers args;
          specs = (if specs = [] then case ce_server_env env of Some e \<Rightarrow> servers_from_env e | None \<Rightarrow> specs else specs);
          specs = (if specs = [] then case read_to_string config_path fs of Inr t \<Rightarrow> servers_from_config t | Inl _ \<Rightarrow> specs
                   else specs)
      in if specs = [] then [DEFAULT_SERVER] else specs)"

definition build_resolver :: "key_codecs \<Rightarrow> cli_env \<Rightarrow> server_args \<Rightarrow> file_system \<Rightarrow> resolver res" where
  "build_resolver kc env args fs =
     rbind (sqns_dir (he_home_env (ce_host env)) (he_home_dir (ce_host env))) (\<lambda>dir.
     rbind (collect (addr_from_str kc) (server_specs env args (dir @ [CONFIG_FILE]) fs)) (\<lambda>servers.
     rbind (case sa_client_key args of
              Some p \<Rightarrow> rbind (load_secret_file kc p fs) (\<lambda>seed. Inr (Some (hex_seed seed)))
            | None \<Rightarrow> Inr None) (\<lambda>client_key_hex.
     resolver_new
       \<lparr>rc_servers = servers, rc_client_key_hex = client_key_hex, rc_connect_timeout = sa_timeout args,
        rc_cache = False, rc_recurse = (if sa_no_recurse args then 0 else DEFAULT_RECURSE),
        rc_require_dnssec = \<not> sa_insecure_dns args\<rparr>)))"

section \<open>Retiring keys\<close>

definition supersede ::
  "bytes ed25519 \<Rightarrow> key_codecs \<Rightarrow> server_addr texts \<Rightarrow> (resolver_config \<Rightarrow> 'w requests) \<Rightarrow> (nat \<Rightarrow> u64) \<Rightarrow>
   cli_env \<Rightarrow> server_args \<Rightarrow> rstring \<Rightarrow> rstring \<Rightarrow> path \<Rightarrow> rstring \<Rightarrow> file_system \<Rightarrow> 'w \<Rightarrow> unit res \<times> 'w" where
  "supersede c kc tx net clock env args old_key new_key identity_path reason fs w =
     (case rbind (read_pubkey c kc old_key fs) (\<lambda>old.
           rbind (read_pubkey c kc new_key fs) (\<lambda>new.
           rbind (load_key kc identity_path (lit ''sqns keygen --identity'') fs) (\<lambda>identity.
           let d = retirement_delegation c (clock 0) identity old in
           rbind (record_sign c (record_superseded (clock 2) old d (clock 1) new reason) identity) (\<lambda>rcd.
           rbind (build_resolver kc env args fs) (\<lambda>rs. Inr (rcd, rs)))))) of
        Inl e \<Rightarrow> (Inl e, w)
      | Inr (rcd, rs) \<Rightarrow>
          let (out, _, w) = publish c tx (net (rs_config rs)) (clock 3) rcd rs w
          in (rbind out (\<lambda>_. Inr ()), w))"

text \<open>The keys \<open>revoke\<close> is asked to retire.\<close>

definition revoke_targets ::
  "bytes ed25519 \<Rightarrow> key_codecs \<Rightarrow> server_addr texts \<Rightarrow> 'w requests \<Rightarrow> u64 \<Rightarrow> rstring option \<Rightarrow> bool \<Rightarrow> bytes \<Rightarrow>
   resolver \<Rightarrow> file_system \<Rightarrow> 'w \<Rightarrow> pubkey list res \<times> 'w" where
  "revoke_targets c kc tx request now key_arg all identity rs fs w =
     (if all
      then let (out, w) = lookup_identity c tx request now (public_of c identity) rs w
           in (rbind out (\<lambda>records. Inr (map sr_key (filter (\<lambda>r. \<not> is_terminal (sr_record r)) records))), w)
      else case key_arg of
             None \<Rightarrow> (Inl (E_Key (plain ''pass --key <service key>, or --all with --identity-key'')), w)
           | Some val \<Rightarrow> (rbind (read_pubkey c kc val fs) (\<lambda>k. Inr [k]), w))"

fun revoke_loop ::
  "bytes ed25519 \<Rightarrow> server_addr texts \<Rightarrow> 'w requests \<Rightarrow> (nat \<Rightarrow> u64) \<Rightarrow> nat \<Rightarrow> bytes \<Rightarrow> rstring \<Rightarrow>
   pubkey list \<Rightarrow> resolver \<Rightarrow> 'w \<Rightarrow> unit res \<times> 'w" where
  "revoke_loop c tx request clock n identity reason [] rs w = (Inr (), w)"
| "revoke_loop c tx request clock n identity reason (target # targets) rs w =
     (let d = retirement_delegation c (clock n) identity target in
      case record_sign c (record_revoked (clock (n + 2)) target d (clock (n + 1)) reason) identity of
        Inl e \<Rightarrow> (Inl e, w)
      | Inr rcd \<Rightarrow>
        (case publish c tx request (clock (n + 3)) rcd rs w of
           (Inl e, rs, w) \<Rightarrow> (Inl e, w)
         | (Inr _, rs, w) \<Rightarrow> revoke_loop c tx request clock (n + 4) identity reason targets rs w))"

text \<open>\<open>answer\<close> is the line read from the terminal.\<close>

definition revoke ::
  "bytes ed25519 \<Rightarrow> key_codecs \<Rightarrow> server_addr texts \<Rightarrow> (resolver_config \<Rightarrow> 'w requests) \<Rightarrow> (nat \<Rightarrow> u64) \<Rightarrow>
   cli_env \<Rightarrow> server_args \<Rightarrow> rstring option \<Rightarrow> bool \<Rightarrow> path \<Rightarrow> rstring \<Rightarrow> bool \<Rightarrow> rstring \<Rightarrow> file_system \<Rightarrow> 'w \<Rightarrow>
   unit res \<times> 'w" where
  "revoke c kc tx net clock env args key_arg all identity_path reason yes answer fs w =
     (case rbind (build_resolver kc env args fs) (\<lambda>rs.
           rbind (load_key kc identity_path (lit ''sqns keygen --identity'') fs) (\<lambda>identity. Inr (rs, identity))) of
        Inl e \<Rightarrow> (Inl e, w)
      | Inr (rs, identity) \<Rightarrow>
        (case revoke_targets c kc tx (net (rs_config rs)) (clock 0) key_arg all identity rs fs w of
           (Inl e, w) \<Rightarrow> (Inl e, w)
         | (Inr targets, w) \<Rightarrow>
             if targets = [] then (Inr (), w)
             else if \<not> yes \<and> trim answer \<noteq> lit ''revoke'' then (Inl (E_Key (plain ''revocation cancelled'')), w)
             else revoke_loop c tx (net (rs_config rs)) clock 1 identity reason targets rs w))"

section \<open>Looking up and publishing\<close>

text \<open>The records \<open>lookup\<close> prints: the one asked for and, after a rotation, the one it leads to.\<close>

definition cmd_lookup ::
  "'v verifier_scheme \<Rightarrow> key_codecs \<Rightarrow> server_addr texts \<Rightarrow> (resolver_config \<Rightarrow> 'w requests) \<Rightarrow> rng \<Rightarrow> (nat \<Rightarrow> u64) \<Rightarrow>
   cli_env \<Rightarrow> server_args \<Rightarrow> rstring \<Rightarrow> file_system \<Rightarrow> 'w \<Rightarrow> signed_record list res \<times> 'w" where
  "cmd_lookup c kc tx net rng clock env args key fs w =
     (case rbind (pubkey_from_str kc key) (\<lambda>k. rbind (build_resolver kc env args fs) (\<lambda>rs. Inr (k, rs))) of
        Inl e \<Rightarrow> (Inl e, w)
      | Inr (k, rs) \<Rightarrow>
        (case lookup c tx (net (rs_config rs)) clock k rs w of
           (Inl e, _, w) \<Rightarrow> (Inl e, w)
         | (Inr None, _, w) \<Rightarrow> (Inl (E_Unpublished (as_bytes k)), w)
         | (Inr (Some rcd), rs, w) \<Rightarrow>
             if successor (sr_record rcd) = None then (Inr [rcd], w)
             else
             (case resolve_service c tx (net (rs_config rs)) rng (\<lambda>n. clock (n + 4)) k rs w of
                (Inl e, _, w) \<Rightarrow> (Inr [rcd], w)
              | (Inr loc, rs, w) \<Rightarrow>
                (case lookup c tx (net (rs_config rs)) (\<lambda>n. clock (n + 40)) (sl_key loc) rs w of
                   (Inl e, _, w) \<Rightarrow> (Inl e, w)
                 | (Inr None, _, w) \<Rightarrow> (Inr [rcd], w)
                 | (Inr (Some r), _, w) \<Rightarrow> (Inr [rcd, r], w)))))"

definition cmd_resolve ::
  "'v verifier_scheme \<Rightarrow> key_codecs \<Rightarrow> server_addr texts \<Rightarrow> (resolver_config \<Rightarrow> 'w requests) \<Rightarrow> rng \<Rightarrow> (nat \<Rightarrow> u64) \<Rightarrow>
   cli_env \<Rightarrow> server_args \<Rightarrow> rstring \<Rightarrow> file_system \<Rightarrow> 'w \<Rightarrow> rstring list res \<times> 'w" where
  "cmd_resolve c kc tx net rng clock env args key fs w =
     (case rbind (pubkey_from_str kc key) (\<lambda>k. rbind (build_resolver kc env args fs) (\<lambda>rs. Inr (k, rs))) of
        Inl e \<Rightarrow> (Inl e, w)
      | Inr (k, rs) \<Rightarrow>
        (case resolve_service c tx (net (rs_config rs)) rng clock k rs w of
           (Inl e, _, w) \<Rightarrow> (Inl e, w)
         | (Inr loc, _, w) \<Rightarrow>
             if sl_endpoints loc = [] then (Inl (E_Unpublished (as_bytes k @ lit '' (withdrawn)'')), w)
             else (Inr (map endpoint_authority (sl_endpoints loc)), w)))"

definition open_publisher ::
  "bytes ed25519 \<Rightarrow> key_codecs \<Rightarrow> u64 \<Rightarrow> cli_env \<Rightarrow> server_args \<Rightarrow> path option \<Rightarrow> path option \<Rightarrow> rstring list \<Rightarrow> u32 \<Rightarrow>
   file_system \<Rightarrow> (bytes publisher \<times> resolver) res \<times> file_system" where
  "open_publisher c kc now env args key_file deleg_file ep_args ttl fs =
     try_st (path_or_default env key_file SERVICE_KEY fs) (\<lambda>key_path fs.
     try_st (load_key kc key_path (lit ''sqns keygen'') fs, fs) (\<lambda>signing_key fs.
     try_st (collect endpoint_from_str ep_args, fs) (\<lambda>parsed fs.
     try_st (build_resolver kc env args fs, fs) (\<lambda>rs fs.
     try_st (path_or_default env deleg_file SERVICE_DELEGATION fs) (\<lambda>delegation_path fs.
     try_st (load_delegation c delegation_path fs, fs) (\<lambda>df fs.
     try_st (publisher_new c now signing_key (df_delegation df) parsed ttl, fs) (\<lambda>pb fs.
     (Inr (pb, rs), fs))))))))"

text \<open>\<open>ticks\<close> are the refreshes before the command is interrupted.\<close>

definition cmd_publish ::
  "bytes ed25519 \<Rightarrow> key_codecs \<Rightarrow> server_addr texts \<Rightarrow> (resolver_config \<Rightarrow> 'w requests) \<Rightarrow> (nat \<Rightarrow> u64) \<Rightarrow>
   (nat \<Rightarrow> u64) list \<Rightarrow> cli_env \<Rightarrow> server_args \<Rightarrow> path option \<Rightarrow> path option \<Rightarrow> rstring list \<Rightarrow> u32 \<Rightarrow> bool \<Rightarrow>
   file_system \<Rightarrow> 'w \<Rightarrow> u64 res \<times> file_system \<times> 'w" where
  "cmd_publish c kc tx net clock ticks env args key_file deleg_file ep_args ttl keepalive fs w =
     (case open_publisher c kc (clock 0) env args key_file deleg_file ep_args ttl fs of
        (Inl e, fs) \<Rightarrow> (Inl e, fs, w)
      | (Inr (pb, rs), fs) \<Rightarrow>
        (case pb_publish c tx (net (rs_config rs)) (\<lambda>n. clock (n + 1)) pb rs w of
           (Inl e, _, _, w) \<Rightarrow> (Inl e, fs, w)
         | (Inr serial, pb, rs, w) \<Rightarrow>
             if \<not> keepalive then (Inr serial, fs, w)
             else let (pb, rs, w) = Publisher.run c tx (net (rs_config rs)) ticks pb rs w
                  in (case withdraw c tx (net (rs_config rs)) (\<lambda>n. clock (n + 7)) pb rs w of
                        (Inl e, _, _, w) \<Rightarrow> (Inl e, fs, w)
                      | (Inr _, _, _, w) \<Rightarrow> (Inr serial, fs, w))))"

definition cmd_withdraw ::
  "bytes ed25519 \<Rightarrow> key_codecs \<Rightarrow> server_addr texts \<Rightarrow> (resolver_config \<Rightarrow> 'w requests) \<Rightarrow> (nat \<Rightarrow> u64) \<Rightarrow>
   cli_env \<Rightarrow> server_args \<Rightarrow> path option \<Rightarrow> path option \<Rightarrow> u32 \<Rightarrow> file_system \<Rightarrow> 'w \<Rightarrow> u64 res \<times> file_system \<times> 'w" where
  "cmd_withdraw c kc tx net clock env args key_file deleg_file ttl fs w =
     (case try_st (path_or_default env key_file SERVICE_KEY fs) (\<lambda>key_path fs.
           try_st (load_key kc key_path (lit ''sqns keygen'') fs, fs) (\<lambda>signing_key fs.
           try_st (path_or_default env deleg_file SERVICE_DELEGATION fs) (\<lambda>delegation_path fs.
           try_st (load_delegation c delegation_path fs, fs) (\<lambda>df fs.
           try_st (build_resolver kc env args fs, fs) (\<lambda>rs fs.
           try_st (publisher_new c (clock 0) signing_key (df_delegation df) [] ttl, fs) (\<lambda>pb fs.
           (Inr (pb, rs), fs))))))) of
        (Inl e, fs) \<Rightarrow> (Inl e, fs, w)
      | (Inr (pb, rs), fs) \<Rightarrow>
          let (out, _, _, w) = withdraw c tx (net (rs_config rs)) (\<lambda>n. clock (n + 1)) pb rs w in (out, fs, w))"

definition cmd_status ::
  "key_codecs \<Rightarrow> server_addr texts \<Rightarrow> (resolver_config \<Rightarrow> 'w requests) \<Rightarrow> cli_env \<Rightarrow> server_args \<Rightarrow> file_system \<Rightarrow> 'w \<Rightarrow>
   status_info res \<times> 'w" where
  "cmd_status kc tx net env args fs w =
     (case build_resolver kc env args fs of
        Inl e \<Rightarrow> (Inl e, w)
      | Inr rs \<Rightarrow> query_status tx (net (rs_config rs)) rs w)"

definition cmd_identity ::
  "bytes ed25519 \<Rightarrow> key_codecs \<Rightarrow> server_addr texts \<Rightarrow> (resolver_config \<Rightarrow> 'w requests) \<Rightarrow> u64 \<Rightarrow>
   cli_env \<Rightarrow> server_args \<Rightarrow> rstring \<Rightarrow> file_system \<Rightarrow> 'w \<Rightarrow> signed_record list res \<times> 'w" where
  "cmd_identity c kc tx net now env args key fs w =
     (case rbind (read_pubkey c kc key fs) (\<lambda>i. rbind (build_resolver kc env args fs) (\<lambda>rs. Inr (i, rs))) of
        Inl e \<Rightarrow> (Inl e, w)
      | Inr (i, rs) \<Rightarrow> lookup_identity c tx (net (rs_config rs)) now i rs w)"

section \<open>Dispatch\<close>

datatype command =
    C_Lookup rstring
  | C_Resolve rstring
  | C_Publish "path option" "path option" "rstring list" u32 bool
  | C_Withdraw "path option" "path option" u32
  | C_Status
  | C_Delegate "path option" "rstring option" u64 bool "path option"
  | C_Supersede rstring rstring "path option" rstring
  | C_Revoke "rstring option" bool "path option" rstring bool
  | C_Identity rstring
  | C_Keygen "path option" bool bool

text \<open>Forgetting the value of a result.\<close>

definition discard :: "'a res \<Rightarrow> unit res" where
  "discard out = rbind out (\<lambda>_. Inr ())"

text \<open>The two commands that run before the runtime starts.\<close>

definition cmd_keygen ::
  "key_codecs \<Rightarrow> bytes \<Rightarrow> cli_env \<Rightarrow> path option \<Rightarrow> bool \<Rightarrow> bool \<Rightarrow> file_system \<Rightarrow> unit res \<times> file_system" where
  "cmd_keygen kc fresh env out identity force fs =
     try_st (path_or_default env out (if identity then IDENTITY_KEY else SERVICE_KEY) fs) (\<lambda>p fs.
     cli_keygen kc (he_umask (ce_host env)) fresh p force fs)"

definition cmd_delegate ::
  "bytes ed25519 \<Rightarrow> key_codecs \<Rightarrow> u64 \<Rightarrow> cli_env \<Rightarrow> path option \<Rightarrow> rstring option \<Rightarrow> u64 \<Rightarrow> bool \<Rightarrow> path option \<Rightarrow>
   file_system \<Rightarrow> unit res \<times> file_system" where
  "cmd_delegate c kc now env identity_key service_key days never_expires out fs =
     try_st (path_or_default env identity_key IDENTITY_KEY fs) (\<lambda>identity_path fs.
     try_st (case service_key of
               Some val \<Rightarrow> (Inr val, fs)
             | None \<Rightarrow> try_st (path_or_default env None SERVICE_KEY fs) (\<lambda>p fs. (Inr (path_display p), fs))) (\<lambda>service fs.
     try_st (path_or_default env out SERVICE_DELEGATION fs) (\<lambda>out_path fs.
     delegate c kc (he_umask (ce_host env)) now identity_path service days never_expires out_path fs)))"

definition run_async ::
  "bytes ed25519 \<Rightarrow> key_codecs \<Rightarrow> server_addr texts \<Rightarrow> (resolver_config \<Rightarrow> 'w requests) \<Rightarrow> rng \<Rightarrow> (nat \<Rightarrow> u64) \<Rightarrow>
   (nat \<Rightarrow> u64) list \<Rightarrow> rstring \<Rightarrow> cli_env \<Rightarrow> server_args \<Rightarrow> command \<Rightarrow> file_system \<Rightarrow> 'w \<Rightarrow>
   unit res \<times> file_system \<times> 'w" where
  "run_async c kc tx net rng clock ticks answer env args cmd fs w =
     (case cmd of
        C_Lookup key \<Rightarrow>
          let (out, w) = cmd_lookup c kc tx net rng clock env args key fs w in (discard out, fs, w)
      | C_Resolve key \<Rightarrow>
          let (out, w) = cmd_resolve c kc tx net rng clock env args key fs w in (discard out, fs, w)
      | C_Publish key_file deleg_file ep_args ttl keepalive \<Rightarrow>
          let (out, fs, w) = cmd_publish c kc tx net clock ticks env args key_file deleg_file ep_args ttl keepalive fs w
          in (discard out, fs, w)
      | C_Withdraw key_file deleg_file ttl \<Rightarrow>
          let (out, fs, w) = cmd_withdraw c kc tx net clock env args key_file deleg_file ttl fs w
          in (discard out, fs, w)
      | C_Status \<Rightarrow>
          let (out, w) = cmd_status kc tx net env args fs w in (discard out, fs, w)
      | C_Supersede old_key new_key identity_key reason \<Rightarrow>
          (case path_or_default env identity_key IDENTITY_KEY fs of
             (Inl e, fs) \<Rightarrow> (Inl e, fs, w)
           | (Inr identity_path, fs) \<Rightarrow>
               let (out, w) = supersede c kc tx net clock env args old_key new_key identity_path reason fs w
               in (out, fs, w))
      | C_Revoke key all identity_key reason yes \<Rightarrow>
          (case path_or_default env identity_key IDENTITY_KEY fs of
             (Inl e, fs) \<Rightarrow> (Inl e, fs, w)
           | (Inr identity_path, fs) \<Rightarrow>
               let (out, w) = revoke c kc tx net clock env args key all identity_path reason yes answer fs w
               in (out, fs, w))
      | C_Identity key \<Rightarrow>
          let (out, w) = cmd_identity c kc tx net (clock 0) env args key fs w in (discard out, fs, w)
      | _ \<Rightarrow> (Inr (), fs, w))"

text \<open>\<open>fresh\<close> is the seed the generator would return; the last case of \<open>run_async\<close> is unreachable from here.\<close>

definition run_cli ::
  "bytes ed25519 \<Rightarrow> key_codecs \<Rightarrow> server_addr texts \<Rightarrow> (resolver_config \<Rightarrow> 'w requests) \<Rightarrow> rng \<Rightarrow> (nat \<Rightarrow> u64) \<Rightarrow>
   (nat \<Rightarrow> u64) list \<Rightarrow> rstring \<Rightarrow> bytes \<Rightarrow> cli_env \<Rightarrow> server_args \<Rightarrow> command \<Rightarrow> file_system \<Rightarrow> 'w \<Rightarrow>
   unit res \<times> file_system \<times> 'w" where
  "run_cli c kc tx net rng clock ticks answer fresh env args cmd fs w =
     (case cmd of
        C_Keygen out identity force \<Rightarrow>
          let (res, fs) = cmd_keygen kc fresh env out identity force fs in (res, fs, w)
      | C_Delegate identity_key service_key days never_expires out \<Rightarrow>
          let (res, fs) = cmd_delegate c kc (clock 0) env identity_key service_key days never_expires out fs
          in (res, fs, w)
      | _ \<Rightarrow> run_async c kc tx net rng clock ticks answer env args cmd fs w)"

section \<open>Texts\<close>

definition describe_state :: "key_codecs \<Rightarrow> signed_record \<Rightarrow> rstring" where
  "describe_state kc r =
     (case rec_body (sr_record r) of
        Superseded succ _ \<Rightarrow> lit ''superseded by '' @ to_base58 kc succ
      | Revoked reason \<Rightarrow> lit ''revoked ('' @ reason @ lit '')''
      | Live eps \<Rightarrow>
          if eps = [] then lit ''withdrawn''
          else lit ''live, '' @ show_nat (length eps) @ lit '' endpoint(s)'')"

definition format_duration :: "u64 \<Rightarrow> rstring" where
  "format_duration secs =
     (let s = unat secs in
      if s = 0 then lit ''0s''
      else if s < 60 then show_nat s @ lit ''s''
      else if s < 3600 then show_nat (s div 60) @ lit ''m'' @ show_nat (s mod 60) @ lit ''s''
      else if s < 86400 then show_nat (s div 3600) @ lit ''h'' @ show_nat (s mod 3600 div 60) @ lit ''m''
      else show_nat (s div 86400) @ lit ''d'' @ show_nat (s mod 86400 div 3600) @ lit ''h'')"

text \<open>\<open>{:<n}\<close> counts characters, not bytes.\<close>

definition char_count :: "rstring \<Rightarrow> nat" where
  "char_count s = length (filter (\<lambda>b. \<not> (128 \<le> b \<and> b < 192)) s)"

definition pad_right :: "nat \<Rightarrow> rstring \<Rightarrow> rstring" where
  "pad_right n s = s @ replicate (n - char_count s) (ch CHR '' '')"

text \<open>The dash of the printed texts, in UTF-8.\<close>

definition dash :: rstring where
  "dash = [0xE2, 0x80, 0x94]"

definition print_endpoint :: "endpoint \<Rightarrow> rstring" where
  "print_endpoint ep =
     lit ''  '' @ pad_right 40 (endpoint_authority ep) @ lit '' priority='' @
     pad_right 5 (show_nat (unat (ep_priority ep))) @ lit '' weight='' @ show_nat (unat (ep_weight ep))"

text \<open>The lines that \<open>print_record\<close> prints at the time \<open>now\<close>.\<close>

definition printed_record :: "key_codecs \<Rightarrow> rng \<Rightarrow> u64 \<Rightarrow> signed_record \<Rightarrow> rstring list" where
  "printed_record kc rng now s =
     (let r = sr_record s in
      [lit ''key:      '' @ to_base58 kc (rec_key r),
       lit ''identity: '' @ to_base58 kc (rec_identity r),
       lit ''serial:   '' @ show_nat (unat (rec_serial r)),
       lit ''issued:   '' @ show_nat (unat (saturating_sub now (rec_issued_at r))) @ lit ''s ago''] @
      (case rec_body r of
         Superseded succ reason \<Rightarrow>
           [lit ''status:   SUPERSEDED '' @ dash @ lit '' this key is retired ('' @ reason @ lit '')'',
            lit ''now use:  '' @ to_base58 kc succ,
            [],
            lit ''Resolving the old key follows this forward automatically; update any'',
            lit ''pinned copy of it to the new key.'']
       | Revoked reason \<Rightarrow>
           [lit ''status:   REVOKED '' @ dash @ lit '' this key is permanently dead'',
            lit ''reason:   '' @ reason]
       | Live eps \<Rightarrow>
           [lit ''expires:  in '' @ format_duration (rec_remaining r now) @ lit '' (ttl '' @ show_nat (unat (rec_ttl r)) @ lit ''s)'',
            (if delegation_never_expires (rec_delegation r) then lit ''delegation: never expires''
             else lit ''delegation: valid for another '' @
               format_duration (saturating_sub (dl_not_after (rec_delegation r)) now))] @
           (if eps = [] then [lit ''endpoints: none '' @ dash @ lit '' this key is withdrawn'']
            else lit ''endpoints:'' # map print_endpoint (order_with r rng))))"

end
