(* ===== verification/Publisher_Props.thy ===== *)
theory Publisher_Props
  imports Publisher Server Samples
begin

text \<open>
  The publisher together with the resolver it sends through and the server that answers: refused as
  stale, it takes over the serial the server holds and succeeds; what it signs verifies; how its
  refresh interval relates to the life of a record.
\<close>

section \<open>Signing\<close>

lemma pb_sign_ok:
  assumes "ed25519_correct c" and "delegation_verify c (pb_delegation pb) (pb_key c pb) = Inr ()"
    and "pb_sign c now eps pb = (Inr r, pb')"
  shows "sr_record r = record_live now (pb_key c pb) (pb_delegation pb) (pb_serial pb) (pb_ttl pb) eps \<and>
    chain_ok c (pb_key c pb) r \<and> pb' = pb\<lparr>pb_serial := pb_serial pb + 1\<rparr>"
proof -
  let ?r = "record_live now (pb_key c pb) (pb_delegation pb) (pb_serial pb) (pb_ttl pb) eps"
  have v: "valid_record c ?r" and s: "record_sign c ?r (pb_signing_key pb) = Inr r"
    and pb': "pb' = pb\<lparr>pb_serial := pb_serial pb + 1\<rparr>"
    using assms(3) by (auto simp: pb_sign_def Let_def validate_iff)
  have "delegated c ?r"
    using assms(2) delegation_verify_iff [of c ?r "()"] by (simp add: record_live_def)
  moreover have "sr_record r = ?r" "signed_by c (expected_signer ?r) r" using signed_by_sign [OF assms(1) s] by auto
  ultimately show ?thesis using v pb' by (simp add: chain_ok_def sr_key_def record_live_def)
qed

lemma pb_sign_valid:
  assumes "valid_record c (record_live now (pb_key c pb) (pb_delegation pb) s (pb_ttl pb) eps)"
  obtains r pb' where "pb_sign c now eps pb = (Inr r, pb')"
proof -
  let ?r = "record_live now (pb_key c pb) (pb_delegation pb) (pb_serial pb) (pb_ttl pb) eps"
  have "valid_record c ?r"
    using assms by (simp add: valid_record_def rec_identity_def record_live_def)
  moreover have "expected_signer ?r = public_of c (pb_signing_key pb)"
    by (simp add: expected_signer_def record_live_def pb_key_def)
  ultimately show thesis
    using that by (simp add: pb_sign_def Let_def validate_iff record_sign_def)
qed

section \<open>One server\<close>

text \<open>The resolver's only server runs the request handlers on its state.\<close>

definition one_server :: "'v verifier_scheme \<Rightarrow> ('l, unit) env \<Rightarrow> 'l server requests" where
  "one_server c en i q sv = (let (resp, sv, _, _) = handle c en q sv () in (Inr resp, sv))"

lemma put_stale:
  assumes "admissible c now r" and "held st (sr_key r) = Some h" and "\<not> is_terminal (sr_record h)"
    and "\<And>i. bound st (sr_key r) = Some i \<Longrightarrow> sr_identity r = i" and "\<not> supersedes (sr_record r) (sr_record h)"
  shows "put c now r st = (Inr Stale, st)"
proof -
  have "rbind (validate c (sr_record r)) (\<lambda>_. sr_verify c r) = Inr ()"
    using assms(1) by (auto simp: admissible_def validate_iff sr_verify_iff)
  moreover have "\<not> is_expired (sr_record r) now" "\<not> (delegation_is_expired (rec_delegation (sr_record r)) now \<and> \<not> is_terminal (sr_record r))"
    "\<not> now + MAX_CLOCK_SKEW < rec_issued_at (sr_record r)"
    using assms(1) by (auto simp: admissible_def timely_def)
  moreover have "retirement_error h = None" using assms(3) by (simp add: retirement_error_None_iff)
  ultimately have "put_locked c now r st = (Inr Stale, st)"
    using assms(2,4,5) by (cases "bound st (sr_key r)") (auto simp: put_locked_def Let_def sr_identity_def)
  then show ?thesis by (simp add: put_def)
qed

lemma publish_one_server:
  assumes "rc_servers (rs_config rs) = [a]" and "verify_answer c r (sr_key r) now = Inr ()"
  shows "publish c tx (one_server c en) now r rs sv =
    (case put c (en_clock en 0) r (sv_store sv) of
       (Inr Stored, st) \<Rightarrow>
         (Inr (rec_serial (sr_record r)), rs\<lparr>rs_cache := invalidate (sr_key r) (rs_cache rs)\<rparr>, sv\<lparr>sv_store := st\<rparr>)
     | (Inr Stale, st) \<Rightarrow>
         (Inl (E_Server (code_as_u16 EC_Stale) (link_error tx a (describe tx (ErrorResp EC_Stale
            (stale_message (en_texts en) (rec_serial (sr_record r)) (sr_key r)))))),
          rs\<lparr>rs_cache := invalidate (sr_key r) (rs_cache rs)\<rparr>, sv\<lparr>sv_store := st\<rparr>)
     | (Inl e, st) \<Rightarrow>
         (Inl (E_NoServer (Msg ''no server accepted the record ({})'' []
            [link_error tx a (describe tx (ErrorResp (publish_code e) (show_error (en_texts en) e)))])),
          rs\<lparr>rs_cache := invalidate (sr_key r) (rs_cache rs)\<rparr>, sv\<lparr>sv_store := st\<rparr>))"
proof -
  have code: "publish_code e \<noteq> EC_Stale" for e by (cases e) auto
  show ?thesis
    using assms code
    by (auto simp: publish_def one_server_def handle_publish_def Let_def
        split: prod.splits sum.splits put_outcome.splits)
qed

lemma lookup_one_server:
  assumes "rc_servers (rs_config rs) = [a]" and "fst (cache_get (clock 0) k (rs_cache rs)) = None"
    and "get (en_clock en 0) k (sv_store sv) = Some h" and "\<not> is_terminal (sr_record h)"
    and "verify_answer c h k (clock 1) = Inr ()" and "map_of (rs_marks rs) k = None"
  shows "\<exists>rs'. lookup c tx (one_server c en) clock k rs sv = (Inr (Some h), rs', sv) \<and> rs_config rs' = rs_config rs"
proof -
  have succ: "successor (sr_record h) = None" using assms(4) by (auto simp: is_terminal_def is_superseded_def successor_def split: record_body.splits)
  have key: "sr_key h = k" using assms(5) by (simp add: verify_answer_chain chain_ok_def)
  show ?thesis
    using assms succ key
    by (simp add: lookup_def fetch_def fetch_servers_def try_servers_def one_server_def handle_lookup_def
        note_rank_def cache_answer_def case_prod_unfold Let_def)
qed

section \<open>Recovering from a refusal\<close>

text \<open>What a publisher needs to be able to publish at \<open>now\<close> at all.\<close>

definition can_publish :: "'sk ed25519 \<Rightarrow> u64 \<Rightarrow> endpoint list \<Rightarrow> 'sk publisher \<Rightarrow> bool" where
  "can_publish c now eps pb \<longleftrightarrow>
     delegation_verify c (pb_delegation pb) (pb_key c pb) = Inr () \<and>
     valid_record c (record_live now (pb_key c pb) (pb_delegation pb) 0 (pb_ttl pb) eps) \<and>
     \<not> delegation_is_expired (pb_delegation pb) now \<and> unat now + 300 < 2 ^ 64"

lemma can_publish_sign:
  assumes "ed25519_correct c" and "can_publish c now eps pb"
  obtains r where "pb_sign c now eps pb = (Inr r, pb\<lparr>pb_serial := pb_serial pb + 1\<rparr>)"
    and "sr_record r = record_live now (pb_key c pb) (pb_delegation pb) (pb_serial pb) (pb_ttl pb) eps"
    and "sr_key r = pb_key c pb" and "sr_identity r = pb_identity pb" and "\<not> is_terminal (sr_record r)"
    and "admissible c now r" and "verify_answer c r (pb_key c pb) now = Inr ()"
proof -
  obtain r pb' where sg: "pb_sign c now eps pb = (Inr r, pb')"
    using pb_sign_valid [of c now pb 0 eps] assms(2) by (auto simp: can_publish_def)
  have r: "sr_record r = record_live now (pb_key c pb) (pb_delegation pb) (pb_serial pb) (pb_ttl pb) eps"
    and ok: "chain_ok c (pb_key c pb) r" and pb': "pb' = pb\<lparr>pb_serial := pb_serial pb + 1\<rparr>"
    using pb_sign_ok [OF assms(1) _ sg] assms(2) by (auto simp: can_publish_def)
  have live: "\<not> is_terminal (sr_record r)" by (simp add: r is_terminal_iff record_live_def)
  have ttl: "30 \<le> pb_ttl pb"
    using assms(2) by (simp add: can_publish_def valid_record_def record_live_def)
  have room: "unat now + 300 < 2 ^ 64" using assms(2) by (simp add: can_publish_def)
  have "unat now < unat (expires_at (sr_record r))"
    using ttl room unat_expires_at [OF live] by (simp add: r record_live_def word_le_nat_alt)
  then have "\<not> is_expired (sr_record r) now" by (simp add: is_expired_def word_le_nat_alt)
  then have t: "timely (sr_record r) now"
    using assms(2) by (simp add: timely_def can_publish_def r record_live_def)
  have "unat (now + MAX_CLOCK_SKEW) = unat now + 300"
    using room by (simp add: MAX_CLOCK_SKEW_def unat_word_ariths)
  then have "rec_issued_at (sr_record r) \<le> now + MAX_CLOCK_SKEW" by (simp add: r record_live_def word_le_nat_alt)
  with ok t have "admissible c now r" by (simp add: admissible_def chain_ok_def)
  moreover have "sr_key r = pb_key c pb" "sr_identity r = pb_identity pb"
    by (simp_all add: sr_key_def sr_identity_def rec_identity_def pb_identity_def r record_live_def)
  ultimately show thesis using that sg r live ok t pb' by (simp add: verify_answer_chain)
qed

lemma supersedes_serial:
  "\<not> is_terminal a \<Longrightarrow> \<not> is_terminal b \<Longrightarrow> rec_serial b < rec_serial a \<Longrightarrow> supersedes a b"
  by (simp add: supersedes_iff)

text \<open>What a publisher signs is stored by a server where it wins.\<close>

lemma publish_winning:
  assumes "ed25519_correct c" and "can_publish c now eps pb" and "pb_sign c now eps pb = (Inr r, pb')"
    and "\<And>n. en_clock en n = now" and "rc_servers (rs_config rs) = [a]" and "wins r (sv_store sv)"
  shows "publish c tx (one_server c en) now r rs sv =
      (Inr (rec_serial (sr_record r)), rs\<lparr>rs_cache := invalidate (pb_key c pb) (rs_cache rs)\<rparr>,
       sv\<lparr>sv_store := put_result r (sv_store sv)\<rparr>)"
    and "held (put_result r (sv_store sv)) (pb_key c pb) = Some r" and "endpoints (sr_record r) = eps"
    and "sr_identity r = pb_identity pb"
proof -
  have r: "sr_record r = record_live now (pb_key c pb) (pb_delegation pb) (pb_serial pb) (pb_ttl pb) eps"
    "sr_key r = pb_key c pb" "sr_identity r = pb_identity pb" "admissible c now r" "verify_answer c r (pb_key c pb) now = Inr ()"
    using can_publish_sign [OF assms(1,2)] assms(3) by auto
  have "put c now r (sv_store sv) = (Inr Stored, put_result r (sv_store sv))"
    using r(4) assms(6) by (simp add: put_stored_iff)
  then show "publish c tx (one_server c en) now r rs sv =
      (Inr (rec_serial (sr_record r)), rs\<lparr>rs_cache := invalidate (pb_key c pb) (rs_cache rs)\<rparr>,
       sv\<lparr>sv_store := put_result r (sv_store sv)\<rparr>)"
    using publish_one_server [OF assms(5), of c r now tx en sv] r(2,5) assms(4) by simp
  show "held (put_result r (sv_store sv)) (pb_key c pb) = Some r" by (simp add: held_put_result r(2))
  show "endpoints (sr_record r) = eps" by (simp add: r(1) endpoints_def record_live_def)
  show "sr_identity r = pb_identity pb" by (rule r(3))
qed

lemma adopt_held_serial:
  assumes "\<And>n. en_clock en n = now" and "rc_servers (rs_config rs) = [a]" and "map_of (rs_marks rs) (pb_key c pb) = None"
    and "fst (cache_get now (pb_key c pb) (rs_cache rs)) = None"
    and "held (sv_store sv) (pb_key c pb) = Some h" and "\<not> is_terminal (sr_record h)"
    and "verify_answer c h (pb_key c pb) now = Inr ()" and "rec_serial (sr_record h) < u64_max"
    and "pb_serial pb \<le> rec_serial (sr_record h) + 1"
  shows "\<exists>rs'. adopt_network_serial c tx (one_server c en) (\<lambda>_. now) pb rs sv =
      (Inr (), pb\<lparr>pb_serial := rec_serial (sr_record h) + 1\<rparr>, rs', sv) \<and> rs_config rs' = rs_config rs"
proof -
  have "\<not> is_expired (sr_record h) now" using assms(6,7) by (auto simp: verify_answer_chain timely_def)
  then have "get now (pb_key c pb) (sv_store sv) = Some h" using assms(5) by (simp add: get_held)
  then obtain rs' where "lookup c tx (one_server c en) (\<lambda>_. now) (pb_key c pb) rs sv = (Inr (Some h), rs', sv)"
    and "rs_config rs' = rs_config rs"
    using lookup_one_server [where clock = "\<lambda>_. now" and rs = rs and k = "pb_key c pb" and sv = sv and h = h and c = c
        and a = a and en = en and tx = tx] assms(1-4,6,7) by auto
  moreover have "saturating_add (rec_serial (sr_record h)) 1 = rec_serial (sr_record h) + 1"
    using assms(8) by (simp add: saturating_add_def word_less_nat_alt unat_max_word)
  ultimately show ?thesis using assms(9) by (simp add: adopt_network_serial_def max_def)
qed


text \<open>A publisher for the witnesses, whose clock is behind the serial the server holds.\<close>

definition sample_publisher :: "byte publisher" where
  "sample_publisher = \<lparr>pb_signing_key = 2, pb_delegation = deleg 1 2, pb_endpoints = [], pb_ttl = 300, pb_serial = 3\<rparr>"

definition publisher_env :: "u64 \<Rightarrow> (nat, unit) env" where
  "publisher_env now = \<lparr>en_texts = \<lparr>show_error = (\<lambda>_. []), show_link = (\<lambda>_. []), debug_code = (\<lambda>_. []),
     debug_response = (\<lambda>_. []), stale_message = (\<lambda>_ _. [])\<rparr>, en_ask = (\<lambda>_ _ w. (TimedOut, w)),
     en_clock = (\<lambda>_. now), en_uptime = 0, en_version = []\<rparr>"

definition publisher_texts :: "server_addr texts" where
  "publisher_texts = \<lparr>show_error = (\<lambda>_. []), show_link = (\<lambda>_. []), debug_code = (\<lambda>_. []),
     debug_response = (\<lambda>_. []), stale_message = (\<lambda>_ _. [])\<rparr>"

definition publisher_server :: "store \<Rightarrow> nat server" where
  "publisher_server st = \<lparr>sv_store = st, sv_upstream = upstream_new [] False, sv_peers = 0, sv_allow_sync = True\<rparr>"

definition publisher_resolver :: resolver where
  "publisher_resolver = \<lparr>rs_config = config_default\<lparr>rc_servers := [addr_new (lit ''ns'') 5300 (key_n 9)]\<rparr>,
     rs_cache = cache_new, rs_marks = []\<rparr>"

lemma sample_can_publish:
  assumes "now < 100000" and "length eps \<le> 255"
  shows "can_publish toy_ed25519 now eps sample_publisher"
proof -
  have "delegated toy_ed25519 (sr_record (live 1 2 0 now 300 eps))" by (rule sample_verifies)
  then have "delegation_verify toy_ed25519 (deleg 1 2) (key_n 2) = Inr ()"
    using delegation_verify_iff [of toy_ed25519 "sr_record (live 1 2 0 now 300 eps)" "()"] by (simp add: live_def)
  moreover have "valid_record toy_ed25519 (record_live now (key_n 2) (deleg 1 2) 0 300 eps)"
    using live_valid [of 1 2 eps 300 0 now] assms(2) by (simp add: live_def)
  moreover have "unat now + 300 < 2 ^ 64" using assms by (simp add: word_less_nat_alt)
  ultimately show ?thesis
    using assms by (simp add: can_publish_def not_le sample_publisher_def pb_key_def delegation_is_expired_def NEVER_EXPIRES_def)
qed

lemma sample_publisher_simps:
  "pb_key toy_ed25519 sample_publisher = key_n 2" "pb_identity sample_publisher = key_n 1"
  "rc_servers (rs_config publisher_resolver) = [addr_new (lit ''ns'') 5300 (key_n 9)]"
  "rs_marks publisher_resolver = []" "sv_store (publisher_server st) = st" "en_clock (publisher_env now) n = now"
  by (simp_all add: sample_publisher_def pb_key_def pb_identity_def publisher_resolver_def publisher_server_def publisher_env_def)


section \<open>An expired record in the way\<close>

lemma lookup_absent:
  assumes "rc_servers (rs_config rs) = [a]" and "fst (cache_get (clock 0) k (rs_cache rs)) = None"
    and "get (en_clock en 0) k (sv_store sv) = None" and "up_is_empty (sv_upstream sv)"
  shows "\<exists>rs'. lookup c tx (one_server c en) clock k rs sv = (Inr None, rs', sv) \<and> rs_config rs' = rs_config rs"
  using assms
  by (simp add: lookup_def fetch_def fetch_servers_def try_servers_def one_server_def handle_lookup_def
      case_prod_unfold Let_def)

text \<open>
  An expired record that the server has not purged yet still stands in the way. It is no longer
  served, so the lookup after the refusal finds nothing and the serial is not raised: both attempts
  are refused as stale, although the refusal is what the second attempt is there to overcome.
\<close>

theorem publisher_blocked_by_expired:
  assumes "ed25519_correct c" and "can_publish c now eps pb"
    and "\<And>n. en_clock en n = now" and "rc_servers (rs_config rs) = [a]" and "up_is_empty (sv_upstream sv)"
    and "held (sv_store sv) (pb_key c pb) = Some h" and "bound (sv_store sv) (pb_key c pb) = Some (pb_identity pb)"
    and "is_expired (sr_record h) now" and "unat (pb_serial pb) + 1 < unat (rec_serial (sr_record h))"
  shows "\<exists>m pb' rs'. publish_endpoints c tx (one_server c en) (\<lambda>_. now) eps pb rs sv =
    (Inl (E_Server (code_as_u16 EC_Stale) m), pb', rs', sv)"
proof -
  let ?k = "pb_key c pb" and ?st = "sv_store sv"
  let ?inv = "\<lambda>rs. rs\<lparr>rs_cache := invalidate ?k (rs_cache rs)\<rparr>"
  have live: "\<not> is_terminal (sr_record h)" using assms(8) by auto
  have attempt: "\<exists>m. publish c tx (one_server c en) now r rs sv = (Inl (E_Server (code_as_u16 EC_Stale) m), ?inv rs, sv)"
    if "admissible c now r" "verify_answer c r ?k now = Inr ()" "sr_key r = ?k" "sr_identity r = pb_identity pb"
      "\<not> is_terminal (sr_record r)" "rec_serial (sr_record r) < rec_serial (sr_record h)"
      "rc_servers (rs_config rs) = [a]" for r rs
  proof -
    have "\<not> supersedes (sr_record r) (sr_record h)"
      using that(5,6) live by (auto simp: supersedes_iff)
    then have "put c now r ?st = (Inr Stale, ?st)"
      using that(1,3,4) assms(6,7) live by (intro put_stale) auto
    then show ?thesis using publish_one_server [OF that(7), of c r now tx en sv] that(2,3) assms(3) by simp
  qed
  obtain r1 where s1: "pb_sign c now eps pb = (Inr r1, pb\<lparr>pb_serial := pb_serial pb + 1\<rparr>)"
    and r1: "sr_record r1 = record_live now ?k (pb_delegation pb) (pb_serial pb) (pb_ttl pb) eps"
      "sr_key r1 = ?k" "sr_identity r1 = pb_identity pb" "\<not> is_terminal (sr_record r1)"
    and a1: "admissible c now r1" "verify_answer c r1 ?k now = Inr ()"
    by (rule can_publish_sign [OF assms(1,2)])
  have "rec_serial (sr_record r1) < rec_serial (sr_record h)"
    using assms(9) by (simp add: r1(1) record_live_def word_less_nat_alt)
  then obtain m1 where p1: "publish c tx (one_server c en) now r1 rs sv = (Inl (E_Server (code_as_u16 EC_Stale) m1), ?inv rs, sv)"
    using attempt a1 r1 assms(4) by blast
  have "get now ?k ?st = None" using assms(6,8) by (simp add: get_def)
  then obtain rs2 where l: "lookup c tx (one_server c en) (\<lambda>_. now) ?k (?inv rs) sv = (Inr None, rs2, sv)"
    and rs2: "rs_config rs2 = rs_config rs"
    using lookup_absent [where clock = "\<lambda>_. now" and rs = "?inv rs" and k = ?k and sv = sv and c = c
        and a = a and en = en and tx = tx] assms(3,4,5)
    by (auto simp: cache_get_fst invalidate_def)
  let ?pb = "pb\<lparr>pb_serial := pb_serial pb + 1\<rparr>"
  have adopt: "adopt_network_serial c tx (one_server c en) (\<lambda>_. now) ?pb (?inv rs) sv = (Inr (), ?pb, rs2, sv)"
    using l by (simp add: adopt_network_serial_def pb_key_def)
  have cp: "can_publish c now eps ?pb" using assms(2) by (simp add: can_publish_def pb_key_def)
  obtain r2 where s2: "pb_sign c now eps ?pb = (Inr r2, ?pb\<lparr>pb_serial := pb_serial pb + 1 + 1\<rparr>)"
    and r2: "sr_record r2 = record_live now ?k (pb_delegation pb) (pb_serial pb + 1) (pb_ttl pb) eps"
      "sr_key r2 = ?k" "sr_identity r2 = pb_identity pb" "\<not> is_terminal (sr_record r2)"
    and a2: "admissible c now r2" "verify_answer c r2 ?k now = Inr ()"
    using can_publish_sign [OF assms(1) cp] by (auto simp: pb_key_def pb_identity_def)
  have "unat (pb_serial pb + 1) < unat (rec_serial (sr_record h))"
    using assms(9) by (auto simp: unat_word_ariths intro: le_less_trans [OF mod_less_eq_dividend])
  then have "rec_serial (sr_record r2) < rec_serial (sr_record h)"
    by (simp add: r2(1) record_live_def word_less_nat_alt)
  then obtain m2 where p2: "publish c tx (one_server c en) now r2 rs2 sv = (Inl (E_Server (code_as_u16 EC_Stale) m2), ?inv rs2, sv)"
    using attempt a2 r2 assms(4) rs2 by (metis (no_types))
  show ?thesis by (simp add: publish_endpoints_def s1 p1 adopt s2 p2)
qed

theorem publisher_blocked_by_expired_witness:
  "\<exists>m pb' rs'. publish_endpoints toy_ed25519 publisher_texts (one_server toy_ed25519 (publisher_env 1400)) (\<lambda>_. 1400) []
      sample_publisher publisher_resolver (publisher_server store_live) =
    (Inl (E_Server (code_as_u16 EC_Stale) m), pb', rs', publisher_server store_live)"
  by (rule publisher_blocked_by_expired [OF toy_ed25519_correct sample_can_publish, where h = "live 1 2 5 1000 300 [v4_endpoint 5300]"])
    (simp_all add: sample_publisher_simps, simp_all add: live_expired saturating_add_def sample_publisher_def
      publisher_server_def up_is_empty_def upstream_new_def)

section \<open>Refreshing\<close>

text \<open>
  How often a record is refreshed. For every lifetime a record may have, a record survives two lost
  refreshes: it is still good at the second tick after it was issued. At the third tick it is still
  good as well unless the lifetime is a multiple of three seconds, as the default one is; then it
  expires in that very second.
\<close>

theorem refresh_within_ttl:
  assumes "\<not> is_terminal r" and "rec_ttl r = pb_ttl pb" and "30 \<le> pb_ttl pb"
    and "unat (rec_issued_at r) + unat (pb_ttl pb) < 2 ^ 64 - 1"
  shows "\<not> is_expired r (rec_issued_at r + 2 * refresh_interval pb) \<and>
    (is_expired r (rec_issued_at r + 3 * refresh_interval pb) \<longleftrightarrow> unat (pb_ttl pb) mod 3 = 0)"
proof -
  let ?t = "unat (rec_issued_at r)" and ?l = "unat (pb_ttl pb)"
  have l: "30 \<le> ?l" using assms(3) by (simp add: word_le_nat_alt)
  have "unat ((ucast (pb_ttl pb) :: u64) div 3) = ?l div 3" by (simp add: unat_div unat_u32_as_u64)
  moreover have "10 \<le> ?l div 3" using l by simp
  ultimately have i: "unat (refresh_interval pb) = ?l div 3"
    by (auto simp: refresh_interval_def max_def word_le_nat_alt)
  have e: "unat (expires_at r) = ?t + ?l"
    using unat_expires_at [OF assms(1)] assms(2,4) by simp
  have small: "?t + 3 * (?l div 3) < 2 ^ 64" using assms(4) by linarith
  have n: "unat (rec_issued_at r + of_nat n * refresh_interval pb) = ?t + n * (?l div 3)" if "n \<le> 3" for n
  proof -
    have "n * (?l div 3) \<le> 3 * (?l div 3)" using that by simp
    then have "?t + n * (?l div 3) < 2 ^ 64" "n * (?l div 3) < 2 ^ 64" using small by linarith+
    then show ?thesis using that by (simp add: unat_word_ariths i unat_of_nat)
  qed
  have two: "\<not> is_expired r (rec_issued_at r + 2 * refresh_interval pb)"
    using n [of 2] e l assms(1) by (simp add: is_expired_def word_le_nat_alt)
  have "3 * (?l div 3) = ?l - ?l mod 3" by (simp add: minus_mod_eq_mult_div)
  then have three: "is_expired r (rec_issued_at r + 3 * refresh_interval pb) \<longleftrightarrow> ?l mod 3 = 0"
    using n [of 3] e l assms(1) by (auto simp: is_expired_def word_le_nat_alt)
  from two three show ?thesis by blast
qed

theorem refresh_within_ttl_witness:
  "\<not> is_expired (sr_record (live 1 2 5 1000 300 [])) (1000 + 2 * refresh_interval sample_publisher) \<and>
   is_expired (sr_record (live 1 2 5 1000 300 [])) (1000 + 3 * refresh_interval sample_publisher)"
  using refresh_within_ttl [of "sr_record (live 1 2 5 1000 300 [])" sample_publisher]
  by (simp add: sample_publisher_def)

end
