(* ===== verification/Cli_Props.thy ===== *)
theory Cli_Props
  imports Cli Publisher_Props
begin

text \<open>
  What the commands of the client achieve: a delegation that is written can be published with, and
  \<open>revoke --all\<close> together with the server that answers it.
\<close>

section \<open>Stored chains\<close>

lemma store_inv_chain: "store_inv c st \<Longrightarrow> held st k = Some r \<Longrightarrow> chain_ok c k r"
  unfolding store_inv_def record_inv_def chain_ok_def by blast

section \<open>Samples\<close>

definition sample_addr :: server_addr where
  "sample_addr = new_sqns (lit ''ns.example.com'') 5301 (key_n 9)"

definition sample_args :: server_args where
  "sample_args = \<lparr>sa_servers = [show_addr toy_codecs sample_addr], sa_client_key = None, sa_timeout = 10,
     sa_no_recurse = False, sa_insecure_dns = False\<rparr>"

definition sample_cli_env :: cli_env where
  "sample_cli_env = \<lparr>ce_host = \<lparr>he_root = False, he_umask = 18, he_home_env = None, he_home_dir = Some [[], lit ''home'']\<rparr>,
     ce_server_env = None\<rparr>"

definition sample_id_path :: path where
  "sample_id_path = [lit ''id.key'']"

definition sample_files :: file_system where
  "sample_files = [sample_id_path \<mapsto> File (hex_encode toy_codecs (replicate 32 1) @ [10]) 384]"

lemma sample_resolver:
  obtains rs where "build_resolver toy_codecs sample_cli_env sample_args sample_files = Inr rs"
    and "rc_servers (rs_config rs) = [sample_addr]"
proof -
  have "addr_from_str toy_codecs (show_addr toy_codecs sample_addr) = Inr sample_addr"
    by (rule addr_from_show [OF toy_codecs_correct])
      (simp_all add: sample_addr_def new_sqns_def pubkey_ok_def host_text_ok_def lit_def)
  then show thesis
    using that by (simp add: build_resolver_def sqns_dir_def server_specs_def sample_cli_env_def sample_args_def
        resolver_new_def)
qed

lemma sample_load_key: "load_key toy_codecs sample_id_path hint sample_files = Inr (replicate 32 1)"
  using seed_text [OF toy_codecs_correct, of "replicate 32 1"]
  by (simp add: load_key_def exists_path_def load_secret_file_def read_to_string_def sample_files_def)

section \<open>Revoking\<close>

text \<open>
  What the identity of a live record signs to retire its key, at any time and with either body, is
  accepted by a client at any time and wins at the server.
\<close>

lemma retirement_signed:
  assumes "ed25519_correct c" and "store_inv c st" and "unat now + 7776000 < 2 ^ 64"
    and "held st k = Some h" and "\<not> is_terminal (sr_record h)" and "sr_identity h = public_of c identity"
    and "rec_key R = k" and "rec_delegation R = retirement_delegation c now identity k"
    and "rec_issued_at R = now" and "is_terminal R" and "body_valid c R (rec_body R)"
  obtains r where "record_sign c R identity = Inr r" and "sr_record r = R" and "length (sr_signature r) = 64"
    and "sr_key r = k" and "sr_identity r = public_of c identity"
    and "admissible c now r" and "wins r st" and "\<And>t. verify_answer c r k t = Inr ()"
proof -
  obtain r where sg: "record_sign c R identity = Inr r"
    using terminal_signer [OF assms(10)] assms(8) by (auto simp: record_sign_iff rec_identity_def retirement_delegation_def)
  have r: "sr_record r = R" and sb: "signed_by c (expected_signer R) r" using signed_by_sign [OF assms(1) sg] by auto
  have h: "sr_key h = k" "valid_record c (sr_record h)" "bound st k = Some (public_of c identity)"
    using assms(2,4,6) by (auto simp: store_inv_def record_inv_def)
  have v: "valid_record c R"
    using h(1,2) assms(6-8,11)
    by (auto simp: valid_record_def rec_identity_def sr_key_def sr_identity_def retirement_delegation_def)
  have d: "delegated c R" by (rule delegated_issue [OF assms(1)]) (simp add: assms(7,8) retirement_delegation_def)
  have "unat (now + MAX_CLOCK_SKEW) = unat now + 300"
    using assms(3) by (simp add: MAX_CLOCK_SKEW_def unat_word_ariths)
  then have "now \<le> now + MAX_CLOCK_SKEW" by (simp add: word_le_nat_alt)
  then have adm: "admissible c now r" using v d sb assms(9,10) by (simp add: admissible_def r timely_def)
  have k: "sr_key r = k" and i: "sr_identity r = public_of c identity"
    by (simp_all add: sr_key_def sr_identity_def rec_identity_def r assms(7,8) retirement_delegation_def)
  have win: "wins r st" using assms(4,5,10) h(3) by (auto simp: wins_def k i r supersedes_iff)
  have "verify_answer c r k t = Inr ()" for t
    using v d sb assms(7,10) by (simp add: verify_answer_chain chain_ok_def r sr_key_def timely_def)
  moreover have "length (sr_signature r) = 64" using sg ed25519_correctD(3) [OF assms(1)] by (auto simp: record_sign_iff)
  ultimately show thesis using that [OF sg r _ k i adm win] by blast
qed

text \<open>What \<open>revoke\<close> signs for a key that the server holds a live record of is stored there.\<close>

lemma revoke_one:
  assumes "ed25519_correct c" and "store_inv c (sv_store sv)" and "\<And>n. en_clock en n = now"
    and "rc_servers (rs_config rs) = [a]" and "length reason \<le> 256" and "unat now + 7776000 < 2 ^ 64"
    and "held (sv_store sv) k = Some h" and "\<not> is_terminal (sr_record h)" and "sr_identity h = public_of c identity"
  obtains r where "record_sign c (record_revoked now k (retirement_delegation c now identity k) now reason) identity = Inr r"
    and "publish c tx (one_server c en) now r rs sv =
      (Inr now, rs\<lparr>rs_cache := invalidate k (rs_cache rs)\<rparr>, sv\<lparr>sv_store := put_result r (sv_store sv)\<rparr>)"
    and "sr_key r = k" and "sr_identity r = public_of c identity" and "is_revoked (sr_record r)"
    and "store_inv c (put_result r (sv_store sv))"
proof -
  let ?R = "record_revoked now k (retirement_delegation c now identity k) now reason"
  have R: "rec_key ?R = k" "rec_delegation ?R = retirement_delegation c now identity k" "rec_issued_at ?R = now"
    "is_terminal ?R" "body_valid c ?R (rec_body ?R)" using assms(5) by (simp_all add: is_terminal_iff)
  obtain r where sg: "record_sign c ?R identity = Inr r" and r: "sr_record r = ?R" and k: "sr_key r = k"
    and i: "sr_identity r = public_of c identity" and adm: "admissible c now r" and win: "wins r (sv_store sv)"
    and v: "verify_answer c r k now = Inr ()"
    by (rule retirement_signed [OF assms(1,2,6-9) R]) blast
  have "verify_answer c r (sr_key r) now = Inr ()" using v k by simp
  from publish_one_server [OF assms(4) this, of tx en sv] adm win
  have "publish c tx (one_server c en) now r rs sv =
      (Inr now, rs\<lparr>rs_cache := invalidate k (rs_cache rs)\<rparr>, sv\<lparr>sv_store := put_result r (sv_store sv)\<rparr>)"
    by (simp add: assms(3) put_stored_iff [THEN iffD2] k) (simp add: r)
  then show thesis
    using that [OF sg _ k i] store_inv_put_result [OF assms(2) adm win] by (simp add: r is_revoked_def)
qed

lemma revoke_loop_ok:
  assumes "ed25519_correct c" and "\<And>n. en_clock en n = now" and "length reason \<le> 256" and "unat now + 7776000 < 2 ^ 64"
    and "store_inv c (sv_store sv)" and "rc_servers (rs_config rs) = [a]" and "distinct targets"
    and "\<And>k. k \<in> set targets \<Longrightarrow> \<exists>h. held (sv_store sv) k = Some h \<and> \<not> is_terminal (sr_record h) \<and>
           sr_identity h = public_of c identity"
  shows "\<exists>sv'. revoke_loop c tx (one_server c en) (\<lambda>_. now) n identity reason targets rs sv = (Inr (), sv') \<and>
    (\<forall>k. if k \<in> set targets
         then \<exists>r. held (sv_store sv') k = Some r \<and> is_revoked (sr_record r) \<and> sr_identity r = public_of c identity
         else held (sv_store sv') k = held (sv_store sv) k)"
  using assms(5-)
proof (induction targets arbitrary: n rs sv)
  case Nil
  then show ?case by simp
next
  case (Cons k targets)
  obtain h where h: "held (sv_store sv) k = Some h" "\<not> is_terminal (sr_record h)" "sr_identity h = public_of c identity"
    using Cons.prems(4) [of k] by auto
  obtain r where sg: "record_sign c (record_revoked now k (retirement_delegation c now identity k) now reason) identity = Inr r"
    and pub: "publish c tx (one_server c en) now r rs sv =
      (Inr now, rs\<lparr>rs_cache := invalidate k (rs_cache rs)\<rparr>, sv\<lparr>sv_store := put_result r (sv_store sv)\<rparr>)"
    and r: "sr_key r = k" "sr_identity r = public_of c identity" "is_revoked (sr_record r)"
    and inv: "store_inv c (put_result r (sv_store sv))"
    by (rule revoke_one [OF assms(1) Cons.prems(1) assms(2) Cons.prems(2) assms(3,4) h])
  let ?rs = "rs\<lparr>rs_cache := invalidate k (rs_cache rs)\<rparr>" and ?sv = "sv\<lparr>sv_store := put_result r (sv_store sv)\<rparr>"
  have others: "held (sv_store ?sv) k' = held (sv_store sv) k'" if "k' \<noteq> k" for k'
    using that r by (simp add: held_put_result)
  have "\<exists>sv'. revoke_loop c tx (one_server c en) (\<lambda>_. now) (n + 4) identity reason targets ?rs ?sv = (Inr (), sv') \<and>
      (\<forall>k. if k \<in> set targets
           then \<exists>r. held (sv_store sv') k = Some r \<and> is_revoked (sr_record r) \<and> sr_identity r = public_of c identity
           else held (sv_store sv') k = held (sv_store ?sv) k)"
  proof (rule Cons.IH)
    show "\<exists>h. held (sv_store ?sv) k' = Some h \<and> \<not> is_terminal (sr_record h) \<and> sr_identity h = public_of c identity"
      if "k' \<in> set targets" for k'
    proof -
      have "k' \<noteq> k" using that Cons.prems(3) by auto
      with Cons.prems(4) [of k'] that others [of k'] show ?thesis by simp
    qed
  qed (use Cons.prems inv in auto)
  then obtain sv' where l: "revoke_loop c tx (one_server c en) (\<lambda>_. now) (n + 4) identity reason targets ?rs ?sv = (Inr (), sv')"
    and res: "\<And>k. if k \<in> set targets
           then \<exists>r. held (sv_store sv') k = Some r \<and> is_revoked (sr_record r) \<and> sr_identity r = public_of c identity
           else held (sv_store sv') k = held (sv_store ?sv) k"
    by blast
  have "held (sv_store ?sv) k = Some r" using r by (simp add: held_put_result)
  then have "if k' \<in> set (k # targets)
      then \<exists>r. held (sv_store sv') k' = Some r \<and> is_revoked (sr_record r) \<and> sr_identity r = public_of c identity
      else held (sv_store sv') k' = held (sv_store sv) k'" for k'
    using res [of k'] others [of k'] r by (cases "k' = k") (auto split: if_splits)
  moreover have "revoke_loop c tx (one_server c en) (\<lambda>_. now) n identity reason (k # targets) rs sv = (Inr (), sv')"
    by (simp add: sg pub l)
  ultimately show ?case by blast
qed

lemma check_listed_all:
  "(\<And>r. r \<in> set rs \<Longrightarrow> verify_answer c r (sr_key r) now = Inr () \<and> sr_identity r = i) \<Longrightarrow> check_listed c now i rs = Inr rs"
  by (induction rs) auto



lemma check_listed_lapsed:
  "r \<in> set rs \<Longrightarrow> verify_answer c r (sr_key r) now \<noteq> Inr () \<Longrightarrow> \<exists>e. check_listed c now i rs = Inl e"
proof (induction rs)
  case (Cons r' rs)
  then show ?case by (cases "verify_answer c r' (sr_key r') now") (auto split: sum.splits)
qed simp

text \<open>
  One lapsed delegation blocks \<open>revoke --all\<close>. A live record whose delegation has run out is still
  listed but no longer verifies, and then the whole listing is refused: the command fails and revokes
  nothing, for as long as that record lasts.
\<close>

theorem revoke_all_blocked:
  assumes "\<And>n. en_clock en n = now"
    and "build_resolver kc env args fs = Inr rs" and "rc_servers (rs_config rs) = [a]"
    and "load_key kc identity_path (lit ''sqns keygen --identity'') fs = Inr identity"
    and "r \<in> set (identity_records now (public_of c identity) 512 (sv_store sv))"
    and "\<not> is_terminal (sr_record r)" and "delegation_is_expired (rec_delegation (sr_record r)) now"
  shows "\<exists>e. revoke c kc tx (\<lambda>_. one_server c en) (\<lambda>_. now) env args None True identity_path reason yes answer fs sv = (Inl e, sv)"
proof -
  let ?listed = "identity_records now (public_of c identity) 512 (sv_store sv)"
  have "verify_answer c r (sr_key r) now \<noteq> Inr ()" using assms(6,7) by (simp add: verify_answer_chain timely_def)
  from check_listed_lapsed [OF assms(5) this] obtain e where e: "check_listed c now (public_of c identity) ?listed = Inl e" by blast
  have "try_servers tx (one_server c en) (LookupIdentity (public_of c identity)) what rs sv = (Inr (Records ?listed True), sv)" for what
    using assms(3) by (simp add: try_servers_def one_server_def assms(1) MAX_SYNC_BATCH_def)
  then show ?thesis using assms(2,4) e by (simp add: revoke_def revoke_targets_def lookup_identity_def)
qed

section \<open>Delegating\<close>

lemma read_pubkey_ok:
  assumes "ed25519_correct c" and "read_pubkey c kc v fs = Inr k"
  shows "pubkey_ok k"
  using assms public_of_ok [OF assms(1)]
  by (auto simp: read_pubkey_def pubkey_from_str_def from_hex_def from_base58_def from_slice_def pubkey_ok_def Let_def
      split: sum.splits if_splits option.splits)

lemma saturating_days:
  assumes "saturating_mul days 86400 \<noteq> 0" and "saturating_mul days 86400 \<le> MAX_DELEGATION_LIFETIME"
  shows "unat (saturating_mul days 86400) = unat days * 86400" and "1 \<le> unat days" and "unat days \<le> 365"
proof -
  have small: "unat days * 86400 < 2 ^ 64"
  proof (rule ccontr)
    assume "\<not> unat days * 86400 < 2 ^ 64"
    then have "saturating_mul days 86400 = u64_max" by (simp add: saturating_mul_def)
    with assms(2) unat_max_word [where 'a = 64] show False by (simp add: MAX_DELEGATION_LIFETIME_def word_le_nat_alt)
  qed
  then show e: "unat (saturating_mul days 86400) = unat days * 86400"
    by (simp add: saturating_mul_def unat_word_ariths)
  have "unat days * 86400 \<noteq> 0" using assms(1) e by (simp flip: unat_eq_zero)
  then show "1 \<le> unat days" by simp
  have "unat days * 86400 \<le> 31536000" using assms(2) e by (simp add: MAX_DELEGATION_LIFETIME_def word_le_nat_alt)
  then show "unat days \<le> 365" by simp
qed

lemma load_written_delegation:
  assumes "ed25519_correct c" and "pubkey_ok k"
    and "fs_write umask p (delegation_file_encode \<lparr>df_service_key = k, df_delegation = delegation_issue c sk k n\<rparr>) fs = (Inr (), fs')"
  shows "load_delegation c p fs' = Inr \<lparr>df_service_key = k, df_delegation = delegation_issue c sk k n\<rparr>"
proof -
  let ?f = "\<lparr>df_service_key = k, df_delegation = delegation_issue c sk k n\<rparr>"
  have "\<exists>mode. fs' p = Some (File (delegation_file_encode ?f) mode)"
    using assms(3) by (auto simp: fs_write_def split: option.splits node.splits if_splits)
  moreover have "delegation_file_ok ?f"
    using assms(1,2) public_of_ok [OF assms(1)] by (simp add: delegation_file_ok_def delegation_ok_def ed25519_correctD)
  ultimately show ?thesis
    using assms(1)
    by (auto simp: load_delegation_def delegation_file_decode_def delegation_file.full_iff delegation_verify_def ed25519_correctD)
qed

text \<open>
  C37. A delegation that is written can be used. When \<open>delegate\<close> succeeds, the file it wrote is read back
  as a delegation of the given identity over the given service key, which is another key; it lapses
  after the requested number of days, between 1 and 365, or never if that was asked for; and with it
  the holder of the service key can publish any admissible endpoints right away.
\<close>

theorem delegate_publishable:
  assumes "ed25519_correct c" and "unat now + 31536000 < 2 ^ 64 - 1"
    and "delegate c kc umask now identity_path service_key days never_expires out fs = (Inr (), fs')"
  shows "\<exists>identity k df.
    load_key kc identity_path (lit ''sqns keygen --identity'') fs = Inr identity \<and> read_pubkey c kc service_key fs = Inr k \<and>
    k \<noteq> public_of c identity \<and> load_delegation c out fs' = Inr df \<and> df_service_key df = k \<and>
    dl_identity (df_delegation df) = public_of c identity \<and>
    (\<forall>t. delegation_is_expired (df_delegation df) t \<longleftrightarrow> \<not> never_expires \<and> unat now + unat days * 86400 \<le> unat t) \<and>
    (never_expires \<or> 1 \<le> unat days \<and> unat days \<le> 365) \<and>
    (\<forall>sk eps ttl. public_of c sk = k \<and> length eps \<le> 255 \<and> 30 \<le> ttl \<and> ttl \<le> 604800 \<longrightarrow>
       (\<exists>pb. publisher_new c now sk (df_delegation df) eps ttl = Inr pb \<and> can_publish c now eps pb))"
proof -
  define life where "life = saturating_mul days 86400"
  define n where "n = (if never_expires then NEVER_EXPIRES else now + life)"
  obtain identity k where ik: "load_key kc identity_path (lit ''sqns keygen --identity'') fs = Inr identity"
      "read_pubkey c kc service_key fs = Inr k" "k \<noteq> public_of c identity"
    and days: "never_expires \<or> life \<noteq> 0 \<and> life \<le> MAX_DELEGATION_LIFETIME"
    and w: "fs_write umask out (delegation_file_encode \<lparr>df_service_key = k, df_delegation = delegation_issue c identity k n\<rparr>) fs = (Inr (), fs')"
    using assms(3) by (auto simp: delegate_def Let_def n_def life_def not_less split: sum.splits if_splits)
  let ?d = "delegation_issue c identity k n"
  have load: "load_delegation c out fs' = Inr \<lparr>df_service_key = k, df_delegation = ?d\<rparr>"
    by (rule load_written_delegation [OF assms(1) read_pubkey_ok [OF assms(1) ik(2)] w])
  have range: "unat life = unat days * 86400" "1 \<le> unat days" "unat days \<le> 365" if "\<not> never_expires"
    using saturating_days [of days] days that by (auto simp: life_def)
  have un: "unat n = unat now + unat days * 86400" if "\<not> never_expires"
    using range [OF that] assms(2) that by (simp add: n_def unat_word_ariths)
  have "n \<noteq> NEVER_EXPIRES" if "\<not> never_expires"
  proof
    assume "n = NEVER_EXPIRES"
    then have "unat n = 2 ^ 64 - 1" by (simp add: NEVER_EXPIRES_def unat_max_word)
    with un [OF that] range(3) [OF that] assms(2) show False by simp
  qed
  then have lapse: "delegation_is_expired ?d t \<longleftrightarrow> \<not> never_expires \<and> unat now + unat days * 86400 \<le> unat t" for t
    using un by (cases never_expires) (auto simp: delegation_is_expired_def word_le_nat_alt n_def)
  have "\<exists>pb. publisher_new c now sk ?d eps ttl = Inr pb \<and> can_publish c now eps pb"
    if "public_of c sk = k" "length eps \<le> 255" "30 \<le> ttl" "ttl \<le> 604800" for sk eps ttl
  proof -
    have v: "delegation_verify c ?d k = Inr ()" using assms(1) by (simp add: delegation_verify_def ed25519_correctD)
    have "vk_ok c (as_bytes k)" using ed25519_correctD(2) [OF assms(1), of sk] that(1) by (auto simp: public_of_def)
    moreover have "vk_ok c (as_bytes (public_of c identity))" using ed25519_correctD(2) [OF assms(1)] by (simp add: public_of_def)
    ultimately have "valid_record c (record_live now k ?d 0 ttl eps)"
      using that ik(3) by (auto simp: valid_record_def rec_identity_def)
    moreover have "\<not> delegation_is_expired ?d now" using lapse [of now] range(2) by auto
    ultimately show ?thesis
      using v that(1) assms(2) by (simp add: publisher_new_def can_publish_def pb_key_def)
  qed
  then show ?thesis using ik load lapse range by (intro exI [of _ identity] exI [of _ k]) auto
qed

theorem delegate_publishable_witness:
  "\<exists>fs' df. delegate seed_ed25519 toy_codecs 18 1000 sample_id_path (to_base58 toy_codecs (key_n 2)) 90 False [lit ''d''] sample_files =
      (Inr (), fs') \<and> load_delegation seed_ed25519 [lit ''d''] fs' = Inr df \<and>
    (\<exists>pb. publisher_new seed_ed25519 1000 (replicate 32 2) (df_delegation df) [] 300 = Inr pb \<and>
       can_publish seed_ed25519 1000 [] pb)"
proof -
  have pk: "read_pubkey seed_ed25519 toy_codecs (to_base58 toy_codecs (key_n 2)) sample_files = Inr (key_n 2)"
    using pubkey_from_base58 [OF toy_codecs_correct pubkey_ok_key_n] by (simp add: read_pubkey_def)
  have w: "\<exists>fs'. fs_write 18 [lit ''d''] b sample_files = (Inr (), fs')" for b
    by (simp add: fs_write_def sample_files_def sample_id_path_def lit_def)
  obtain fs' where "delegate seed_ed25519 toy_codecs 18 1000 sample_id_path (to_base58 toy_codecs (key_n 2)) 90 False [lit ''d''] sample_files = (Inr (), fs')"
    using w by (simp add: delegate_def sample_load_key pk Let_def saturating_mul_def MAX_DELEGATION_LIFETIME_def) blast
  moreover from delegate_publishable [OF seed_ed25519_correct _ this] pk
  obtain df where "load_delegation seed_ed25519 [lit ''d''] fs' = Inr df"
    and pub: "\<And>sk eps ttl. public_of seed_ed25519 sk = key_n 2 \<and> length eps \<le> 255 \<and> 30 \<le> ttl \<and> ttl \<le> 604800 \<Longrightarrow>
       \<exists>pb. publisher_new seed_ed25519 1000 sk (df_delegation df) eps ttl = Inr pb \<and> can_publish seed_ed25519 1000 eps pb"
    by auto
  moreover have "\<exists>pb. publisher_new seed_ed25519 1000 (replicate 32 2) (df_delegation df) [] 300 = Inr pb \<and>
       can_publish seed_ed25519 1000 [] pb" by (rule pub) simp
  ultimately show ?thesis by blast
qed

end
