(* ===== verification/Connect.thy ===== *)
theory Connect
  imports Config Protocol
begin

text \<open>
  Reaching a server: name resolution (\<open>crates/sqns-client/src/dns.rs\<close>), dialling and the exchange of
  one message (\<open>conn.rs\<close>). The operating system's resolver, the validating resolver of \<open>hickory\<close>, the
  routing table, sQUIC's \<open>dial\<close> and the streams of a connection are parameters.
\<close>

section \<open>Name resolution\<close>

text \<open>An answer of the validating resolver: is it an address record, is it proven, its address.\<close>

record dns_record =
  dr_is_address :: bool
  dr_secure :: bool
  dr_ip :: "ip_addr option"

record 'w resolvers =
  lookup_host :: "rstring \<Rightarrow> 'w \<Rightarrow> socket_addr list option \<times> 'w"
  lookup_ip :: "rstring \<Rightarrow> 'w \<Rightarrow> dns_record list res \<times> 'w" \<comment> \<open>the error is that of building the resolver or of the lookup\<close>
  dnssec_built_in :: bool \<comment> \<open>the feature \<open>dnssec\<close>\<close>

definition system_resolve :: "'w resolvers \<Rightarrow> server_addr \<Rightarrow> 'w \<Rightarrow> socket_addr list res \<times> 'w" where
  "system_resolve rv addr w =
     (case lookup_host rv (addr_authority addr) w of
        (None, w) \<Rightarrow> (Inl (E_Connection (Msg ''cannot resolve {}: {e}'' [] [addr_authority addr])), w)
      | (Some candidates, w) \<Rightarrow>
          if candidates = [] then (Inl (E_Connection (Msg ''{} resolved to no addresses'' [] [addr_authority addr])), w)
          else (Inr candidates, w))"

text \<open>The loop over the answers: the proven addresses, and how many were not proven.\<close>

fun collect_proven :: "u16 \<Rightarrow> dns_record list \<Rightarrow> socket_addr list \<times> nat" where
  "collect_proven port [] = ([], 0)"
| "collect_proven port (r # rs) =
     (let (addrs, unproven) = collect_proven port rs in
      if \<not> dr_is_address r then (addrs, unproven)
      else if \<not> dr_secure r then (addrs, unproven + 1)
      else case dr_ip r of
             Some ip \<Rightarrow> (socket_new ip port # addrs, unproven)
           | None \<Rightarrow> (addrs, unproven))"

definition validated_resolve :: "'w resolvers \<Rightarrow> rstring \<Rightarrow> u16 \<Rightarrow> 'w \<Rightarrow> socket_addr list res \<times> 'w" where
  "validated_resolve rv host port w =
     (if \<not> dnssec_built_in rv then (Inl (E_Address (Msg ''sqns://{host} needs DNSSEC validation'' [] [host])), w)
      else case lookup_ip rv host w of
             (Inl e, w) \<Rightarrow> (Inl e, w)
           | (Inr answers, w) \<Rightarrow>
               let (addrs, unproven) = collect_proven port answers in
               if addrs = []
               then if unproven > 0
                    then (Inl (E_Address (Msg ''{host} resolved, but the answer is not signed'' [unproven] [host])), w)
                    else (Inl (E_Address (Msg ''{host} resolved to no addresses'' [] [host])), w)
               else (Inr addrs, w))"

definition dns_resolve :: "'w resolvers \<Rightarrow> server_addr \<Rightarrow> bool \<Rightarrow> 'w \<Rightarrow> socket_addr list res \<times> 'w" where
  "dns_resolve rv addr require w =
     (if is_ip_literal addr then system_resolve rv addr w
      else if \<not> requires_dnssec (ad_scheme addr) then system_resolve rv addr w
      else if \<not> require then system_resolve rv addr w
      else validated_resolve rv (ad_host addr) (ad_port addr) w)"

section \<open>Dialling\<close>

definition HAPPY_EYEBALLS_DELAY :: nat where "HAPPY_EYEBALLS_DELAY = 250" \<comment> \<open>milliseconds\<close>

text \<open>
  \<open>dial a key client_key timeout\<close> is sQUIC's handshake with the server at \<open>a\<close>, pinned to \<open>key\<close>. The
  attempts run side by side; \<open>finish\<close> puts them in the order in which they end.
\<close>

record 'c dialler =
  dl_routable :: "socket_addr \<Rightarrow> bool"
  dl_dial :: "socket_addr \<Rightarrow> bytes \<Rightarrow> rstring option \<Rightarrow> u64 \<Rightarrow> rstring + 'c"
  dl_finish :: "(nat \<times> socket_addr) list \<Rightarrow> socket_addr list"
  dl_show :: "socket_addr \<Rightarrow> rstring"

definition candidates :: "(socket_addr \<Rightarrow> bool) \<Rightarrow> socket_addr list \<Rightarrow> socket_addr list" where
  "candidates is_routable all =
     (let routable = filter is_routable all in if routable = [] then all else routable)"

text \<open>Each attempt with its head start.\<close>

definition attempts :: "socket_addr list \<Rightarrow> (nat \<times> socket_addr) list" where
  "attempts cs = map (\<lambda>(i, a). (HAPPY_EYEBALLS_DELAY * i, a)) (List.enumerate 0 cs)"

fun join_race :: "(socket_addr \<Rightarrow> rstring) \<Rightarrow> (socket_addr \<times> (rstring + 'c)) list \<Rightarrow> rstring list \<Rightarrow> rstring list + 'c" where
  "join_race shw [] errors = Inl errors"
| "join_race shw ((a, Inr conn) # rs) errors = Inr conn"
| "join_race shw ((a, Inl e) # rs) errors = join_race shw rs (errors @ [shw a @ lit '': '' @ e])"

definition connect_with ::
  "'w resolvers \<Rightarrow> 'c dialler \<Rightarrow> server_addr \<Rightarrow> rstring option \<Rightarrow> u64 \<Rightarrow> bool \<Rightarrow> 'w \<Rightarrow> 'c res \<times> 'w" where
  "connect_with rv dl addr client_key_hex timeout require w =
     (case dns_resolve rv addr require w of
        (Inl e, w) \<Rightarrow> (Inl e, w)
      | (Inr all, w) \<Rightarrow>
          if all = [] then (Inl (E_Connection (plain ''{addr} resolved to no addresses'')), w)
          else
          let cs = candidates (dl_routable dl) all;
              ended = dl_finish dl (attempts cs);
              results = map (\<lambda>a. (a, dl_dial dl a (as_bytes (ad_key addr)) client_key_hex timeout)) ended
          in case join_race (dl_show dl) results [] of
               Inr conn \<Rightarrow> (Inr conn, w)
             | Inl errors \<Rightarrow> (Inl (E_Connection (Msg ''could not reach {addr}: {}'' [] errors)), w))"

definition connect ::
  "'w resolvers \<Rightarrow> 'c dialler \<Rightarrow> server_addr \<Rightarrow> rstring option \<Rightarrow> u64 \<Rightarrow> 'w \<Rightarrow> 'c res \<times> 'w" where
  "connect rv dl addr client_key_hex timeout w = connect_with rv dl addr client_key_hex timeout True w"

section \<open>Exchanging a message\<close>

text \<open>
  \<open>opn\<close> opens a stream; \<open>talk b\<close> sends \<open>b\<close>, finishes the stream and yields everything that comes back.
\<close>

definition exchange ::
  "('w \<Rightarrow> (msg + unit) \<times> 'w) \<Rightarrow> (bytes \<Rightarrow> 'w \<Rightarrow> (msg + bytes) \<times> 'w) \<Rightarrow> request \<Rightarrow> 'w \<Rightarrow> response res \<times> 'w" where
  "exchange opn talk req w =
     (case opn w of
        (Inl m, w) \<Rightarrow> (Inl (E_Connection m), w)
      | (Inr _, w) \<Rightarrow>
        (case request_write_to req of
           Inl e \<Rightarrow> (Inl e, w)
         | Inr b \<Rightarrow>
           (case talk b w of
              (Inl m, w) \<Rightarrow> (Inl (E_Connection m), w)
            | (Inr reply, w) \<Rightarrow> (rbind (response_read_from reply) (\<lambda>(resp, _). Inr resp), w))))"

section \<open>Which addresses are dialled\<close>

lemma collect_proven_iff:
  "collect_proven port rs =
     (map (\<lambda>r. socket_new (the (dr_ip r)) port) (filter (\<lambda>r. dr_is_address r \<and> dr_secure r \<and> dr_ip r \<noteq> None) rs),
      length (filter (\<lambda>r. dr_is_address r \<and> \<not> dr_secure r) rs))"
  by (induction rs) (auto simp: Let_def split: option.splits)

text \<open>
  C38. DNSSEC is enforced. An \<open>sqns://\<close> address with a host name is resolved, when the caller requires it,
  only through the validating resolver, and every address that comes out was proven secure; the
  system's resolver is not asked. An answer without a single proven address is an error.
\<close>

theorem dnssec_enforced:
  assumes "ad_scheme addr = Sqns" and "\<not> is_ip_literal addr"
    and "dns_resolve rv addr True w = (Inr addrs, w')"
  shows "dnssec_built_in rv \<and> (\<exists>answers. lookup_ip rv (ad_host addr) w = (Inr answers, w') \<and> addrs \<noteq> [] \<and>
    (\<forall>a \<in> set addrs. \<exists>r \<in> set answers. \<exists>ip. dr_is_address r \<and> dr_secure r \<and> dr_ip r = Some ip \<and>
       a = socket_new ip (ad_port addr)))"
proof -
  have v: "validated_resolve rv (ad_host addr) (ad_port addr) w = (Inr addrs, w')"
    using assms by (simp add: dns_resolve_def requires_dnssec_def)
  obtain res w1 where l0: "lookup_ip rv (ad_host addr) w = (res, w1)" by fastforce
  with v obtain answers where d: "dnssec_built_in rv" and l: "lookup_ip rv (ad_host addr) w = (Inr answers, w')"
    and a: "addrs = fst (collect_proven (ad_port addr) answers)" "addrs \<noteq> []"
    by (cases res) (auto simp: validated_resolve_def Let_def split: if_splits prod.splits)
  have "\<forall>a \<in> set addrs. \<exists>r \<in> set answers. \<exists>ip. dr_is_address r \<and> dr_secure r \<and> dr_ip r = Some ip \<and>
       a = socket_new ip (ad_port addr)"
    unfolding a(1) collect_proven_iff by fastforce
  with d l a(2) show ?thesis by blast
qed

text \<open>A validating resolver with one forged and one proven answer.\<close>

definition sample_resolvers :: "unit resolvers" where
  "sample_resolvers =
     \<lparr>lookup_host = (\<lambda>_ w. (Some [SockV4 [6, 6, 6, 6] 5300], w)),
      lookup_ip = (\<lambda>_ w. (Inr
        [\<lparr>dr_is_address = True, dr_secure = False, dr_ip = Some (IpV4 [6, 6, 6, 6])\<rparr>,
         \<lparr>dr_is_address = True, dr_secure = True, dr_ip = Some (IpV4 [10, 0, 0, 1])\<rparr>], w)),
      dnssec_built_in = True\<rparr>"

theorem dnssec_enforced_witness:
  "fst (dns_resolve sample_resolvers (new_sqns (lit ''ns'') 5300 (PubKey (replicate 32 7))) True ()) =
     Inr [SockV4 [10, 0, 0, 1] 5300] \<and> dnssec_built_in sample_resolvers"
proof -
  let ?rv = sample_resolvers
  let ?a = "new_sqns (lit ''ns'') 5300 (PubKey (replicate 32 7))"
  have "read_ip_addr (lit ''ns'') = None"
  proof -
    have d: "read_digits radix (lit ''ns'') = ([], lit ''ns'')" if "radix \<in> {10, 16}" for radix
      using that by (auto simp: lit_def to_digit_def)
    then have n: "read_number radix m most z (lit ''ns'') = None" if "radix \<in> {10, 16}" for radix m most z
      using that by (simp add: read_number_def)
    have q: "read_ipv4_addr (lit ''ns'') = None" by (rule no_dots_no_ipv4) (simp add: lit_def)
    have "read_groups (Suc 7) 0 (lit ''ns'') = ([], False, lit ''ns'')"
      using q n by (simp only: read_groups.simps read_sep_def) simp
    then have "read_ipv6_groups (lit ''ns'') = None" by (simp add: read_ipv6_groups_def) (simp add: lit_def)
    with q show ?thesis by (simp add: read_ip_addr_def read_ipv6_addr_def)
  qed
  then have lit: "\<not> is_ip_literal ?a" by (simp add: is_ip_literal_def parse_ip_def whole_def new_sqns_def)
  have r: "dns_resolve ?rv ?a True () = (Inr [SockV4 [10, 0, 0, 1] 5300], ())"
    using lit by (simp add: dns_resolve_def requires_dnssec_def validated_resolve_def new_sqns_def sample_resolvers_def)
  have "ad_scheme ?a = Sqns" by (simp add: new_sqns_def)
  from dnssec_enforced [OF this lit r] r show ?thesis by simp
qed

text \<open>The race.\<close>

lemma join_race_iff:
  "(\<exists>conn. join_race shw rs errs = Inr conn) \<longleftrightarrow> (\<exists>a conn. (a, Inr conn) \<in> set rs)"
  by (induction shw rs errs rule: join_race.induct) auto

lemma join_race_from: "join_race shw rs errs = Inr conn \<Longrightarrow> \<exists>a. (a, Inr conn) \<in> set rs"
  by (induction shw rs errs rule: join_race.induct) auto

lemma candidates_nonempty: "all \<noteq> [] \<Longrightarrow> candidates p all \<noteq> [] \<and> set (candidates p all) \<subseteq> set all"
  by (auto simp: candidates_def Let_def)

lemma snd_attempts: "map snd (attempts cs) = cs"
  by (simp add: attempts_def o_def case_prod_unfold)


definition sample_dialler :: "socket_addr dialler" where
  "sample_dialler =
     \<lparr>dl_routable = (\<lambda>a. True), dl_dial = (\<lambda>a key ck t. if a = SockV4 [6, 6, 6, 6] 5300 then Inr a else Inl (lit ''timed out'')),
      dl_finish = (\<lambda>xs. rev (map snd xs)), dl_show = (\<lambda>_. lit ''addr'')\<rparr>"


end
