(* ===== verification/Connect_Props.thy ===== *)
theory Connect_Props
  imports Connect Publisher_Props Protocol_Props
begin

text \<open>
  The client and the server over the wire: an exchange on a stream that the server serves does what
  the request handler does.
\<close>

text \<open>A connection to a server: a stream always opens, and a response that cannot be written is silence.\<close>

definition serve_talk ::
  "'v verifier_scheme \<Rightarrow> ('l, 'w) env \<Rightarrow> bytes \<Rightarrow> 'l server \<times> 'w \<Rightarrow> (msg + bytes) \<times> 'l server \<times> 'w" where
  "serve_talk c en b s =
     (let (out, sv, _, w) = serve_stream c en b (fst s) (snd s)
      in (Inr (case out of Some r \<Rightarrow> r | None \<Rightarrow> []), sv, w))"

lemma wire_exchange:
  assumes "request_ok q" and "handle c en (clamped q) sv w = (resp, sv', pushes, w')" and "response_ok resp"
  shows "exchange (\<lambda>s. (Inr (), s)) (serve_talk c en) q (sv, w) =
    ((case response_write_to resp of
        Inr _ \<Rightarrow> Inr resp
      | Inl _ \<Rightarrow> rbind (response_read_from []) (\<lambda>(r, _). Inr r)), sv', w')"
proof -
  obtain b where b: "request_write_to q = Inr b" and r: "request_read_from b = Inr (clamped q, [])"
    using request_wire [OF assms(1), of "[]"] by auto
  have s: "serve_stream c en b sv w =
      ((case response_write_to resp of Inl _ \<Rightarrow> None | Inr x \<Rightarrow> Some x), sv', pushes, w')"
    using assms(2) r by (simp add: serve_stream_def split: sum.splits)
  show ?thesis
  proof (cases "response_write_to resp")
    case (Inl e)
    then show ?thesis by (simp add: exchange_def b serve_talk_def s)
  next
    case (Inr x)
    have "response_read_from x = Inr (resp, [])" using response_wire [OF assms(3) Inr, of "[]"] by simp
    with Inr show ?thesis by (simp add: exchange_def b serve_talk_def s)
  qed
qed



end
