(* ===== verification/End_To_End.thy ===== *)
theory End_To_End
  imports Cli_Props Connect_Props Resolver_Props
begin

text \<open>
  Clients and a server together: what is published can be resolved, what is rotated is followed,
  what is revoked is dead. The laws a client relies on are the locale \<open>server_link\<close>; it is
  interpreted on the real path of a request, the pooled connections of \<open>resolver.rs\<close>, the exchange of
  \<open>conn.rs\<close>, the frames of \<open>protocol.rs\<close> and the stream handler of \<open>server.rs\<close>.
\<close>

section \<open>A link to a server\<close>

text \<open>
  Well-formed requests reach the handler, their hop budget clamped, and well-formed answers come back,
  except batches, which may not fit a frame.
\<close>

locale server_link =
  fixes c :: "'v verifier_scheme" and en :: "('l, unit) env" and request :: "'w requests"
    and server_of :: "'w \<Rightarrow> 'l server" and connected :: "'w \<Rightarrow> bool"
  assumes delivers: "connected w \<Longrightarrow> request_ok q \<Longrightarrow>
      handle c en (clamped q) (server_of w) () = (resp, sv, pushes, ()) \<Longrightarrow> response_ok resp \<Longrightarrow> \<not> is_batch resp \<Longrightarrow>
      \<exists>w'. request 0 q w = (Inr resp, w') \<and> server_of w' = sv \<and> connected w'"
begin

lemma publish_stored:
  assumes "connected w" and "rc_servers (rs_config rs) = [a]" and "verify_answer c r (sr_key r) now = Inr ()"
    and "signed_record_ok r" and "put c (en_clock en 0) r (sv_store (server_of w)) = (Inr Stored, st)"
  shows "\<exists>w'. publish c tx request now r rs w =
      (Inr (rec_serial (sr_record r)), rs\<lparr>rs_cache := invalidate (sr_key r) (rs_cache rs)\<rparr>, w') \<and>
    server_of w' = (server_of w)\<lparr>sv_store := st\<rparr> \<and> connected w'"
proof -
  have "handle c en (clamped (Publish r)) (server_of w) () =
      (Published (rec_serial (sr_record r)) (expires_at (sr_record r)), (server_of w)\<lparr>sv_store := st\<rparr>, [r], ())"
    using assms(5) by (simp add: handle_publish_def)
  from delivers [OF assms(1) _ this] assms(4)
  obtain w' where "request 0 (Publish r) w = (Inr (Published (rec_serial (sr_record r)) (expires_at (sr_record r))), w')"
    "server_of w' = (server_of w)\<lparr>sv_store := st\<rparr>" "connected w'" by auto
  then show ?thesis using assms(2,3) by (simp add: publish_def)
qed

lemma publish_refused:
  assumes "connected w" and "rc_servers (rs_config rs) = [a]"
    and "signed_record_ok r" and "put c (en_clock en 0) r (sv_store (server_of w)) = (Inl e, sv_store (server_of w))"
    and "string_ok (show_error (en_texts en) e)"
  shows "\<exists>e' rs' w'. publish c tx request now r rs w = (Inl e', rs', w') \<and>
    server_of w' = server_of w \<and> connected w'"
proof (cases "verify_answer c r (sr_key r) now")
  case (Inl x)
  then show ?thesis using assms(1) by (simp add: publish_def)
next
  case (Inr u)
  have code: "publish_code e \<noteq> EC_Stale" by (cases e) auto
  have "handle c en (clamped (Publish r)) (server_of w) () =
      (ErrorResp (publish_code e) (show_error (en_texts en) e), server_of w, [], ())"
    using assms(4) by (simp add: handle_publish_def)
  from delivers [OF assms(1) _ this] assms(3,5)
  obtain w' where "request 0 (Publish r) w = (Inr (ErrorResp (publish_code e) (show_error (en_texts en) e)), w')"
    "server_of w' = server_of w" "connected w'" by auto
  then show ?thesis using assms(2) Inr code by (simp add: publish_def)
qed

lemma fetch_held:
  assumes "connected w" and "rc_servers (rs_config rs) = [a]" and "fst (cache_get (clock 0) k (rs_cache rs)) = None"
    and "map_of (rs_marks rs) k = None" and "get (en_clock en 0) k (sv_store (server_of w)) = Some r"
    and "verify_answer c r k (clock 1) = Inr ()" and "pubkey_ok k"
    and "succ = Option.bind (successor (sr_record r)) (\<lambda>nxt. get (en_clock en 1) nxt (sv_store (server_of w)))"
    and "signed_record_ok r" and "slot_ok succ"
  shows "\<exists>rs' w'. fetch c tx request clock k rs w = (Inr (Some r, succ), rs', w') \<and>
    rs_config rs' = rs_config rs \<and> rs_marks rs' = AList.update k (seen_of r) (rs_marks rs) \<and>
    server_of w' = server_of w \<and> connected w'"
proof -
  have "handle c en (clamped (Lookup k n)) (server_of w) () = (Answer (Some r) succ, server_of w, [], ())" for n
    using assms(5,8) by (simp add: handle_lookup_def Option.bind_def split: option.splits)
  from delivers [OF assms(1) _ this] assms(7,9,10)
  have "\<exists>w'. request 0 (Lookup k n) w = (Inr (Answer (Some r) succ), w') \<and> server_of w' = server_of w \<and> connected w'" for n
    by simp
  then obtain w' where "request 0 (Lookup k (rc_recurse (rs_config rs))) w = (Inr (Answer (Some r) succ), w')"
    "server_of w' = server_of w" "connected w'" by blast
  moreover have "sr_key r = k" using assms(6) by (simp add: verify_answer_chain chain_ok_def)
  ultimately show ?thesis
    using assms(2,3,4,6)
    by (auto simp: fetch_def fetch_servers_def try_servers_def note_rank_def cache_answer_def case_prod_unfold Let_def)
qed

text \<open>A new resolver with one server, which holds a live record, a rotation or a revocation of the key.\<close>

lemma fetch_new:
  assumes "connected w" and "resolver_new config = Inr rs" and "rc_servers config = [a]"
    and "get (en_clock en 0) k (sv_store (server_of w)) = Some r" and "verify_answer c r k now = Inr ()"
    and "succ = Option.bind (successor (sr_record r)) (\<lambda>nxt. get (en_clock en 1) nxt (sv_store (server_of w)))"
    and "signed_record_ok r" and "slot_ok succ"
  shows "\<exists>rs' w'. fetch c tx request (\<lambda>_. now) k rs w = (Inr (Some r, succ), rs', w') \<and>
    rs_config rs' = config \<and> rs_marks rs' = [(k, seen_of r)] \<and> server_of w' = server_of w \<and> connected w'"
proof -
  have rs: "rs = \<lparr>rs_config = config, rs_cache = cache_new, rs_marks = []\<rparr>"
    using assms(2) by (auto simp: resolver_new_def split: if_splits)
  have "pubkey_ok k"
    using assms(5,7) by (auto simp: verify_answer_chain chain_ok_def sr_key_def signed_record_ok_def record_ok_def)
  then show ?thesis
    using fetch_held [of w rs a "\<lambda>_. now" k r succ tx] assms by (simp add: rs cache_get_def cache_new_def)
qed

lemma resolve_live:
  assumes "connected w" and "resolver_new config = Inr rs" and "rc_servers config = [a]"
    and "get (en_clock en 0) k (sv_store (server_of w)) = Some r" and "verify_answer c r k now = Inr ()"
    and "\<not> is_terminal (sr_record r)" and "signed_record_ok r"
  shows "fst (resolve_service c tx request rng (\<lambda>_. now) k rs w) =
    Inr \<lparr>sl_requested = k, sl_key = k, sl_identity = sr_identity r,
         sl_endpoints = order_with (sr_record r) rng, sl_superseded_from = []\<rparr>"
proof -
  have key: "sr_key r = k" using assms(5) by (simp add: verify_answer_chain chain_ok_def)
  show ?thesis
    using fetch_new [OF assms(1-5) refl assms(7), of tx] no_retirement(2,3) [OF assms(6)] key
    by (auto simp: resolve_service_def MAX_SUPERSEDE_HOPS_def eval_nat_numeral)
qed

lemma resolve_rotated:
  assumes "connected w" and "resolver_new config = Inr rs" and "rc_servers config = [a]"
    and "get (en_clock en 0) k (sv_store (server_of w)) = Some t" and "verify_answer c t k now = Inr ()"
    and "successor (sr_record t) = Some k'" and "k' \<noteq> k" and "signed_record_ok t"
    and "get (en_clock en 1) k' (sv_store (server_of w)) = Some r" and "verify_answer c r k' now = Inr ()"
    and "\<not> is_terminal (sr_record r)" and "signed_record_ok r"
  shows "fst (resolve_service c tx request rng (\<lambda>_. now) k rs w) =
    Inr \<lparr>sl_requested = k, sl_key = k', sl_identity = sr_identity r,
         sl_endpoints = order_with (sr_record r) rng, sl_superseded_from = [k]\<rparr>"
proof -
  have key: "sr_key r = k'" using assms(10) by (simp add: verify_answer_chain chain_ok_def)
  obtain rs' w' where "fetch c tx request (\<lambda>_. now) k rs w = (Inr (Some t, Some r), rs', w')"
    and "rs_marks rs' = [(k, seen_of t)]"
    using fetch_new [OF assms(1-5) refl assms(8), of tx] assms(6,9,12) by auto
  then show ?thesis
    using assms(6,7,10) key no_retirement(1) [OF assms(6)] no_retirement(2,3) [OF assms(11)]
    by (simp add: resolve_service_def MAX_SUPERSEDE_HOPS_def eval_nat_numeral prefetch_def note_rank_def)
qed

lemma resolve_revoked:
  assumes "connected w" and "resolver_new config = Inr rs" and "rc_servers config = [a]"
    and "get (en_clock en 0) k (sv_store (server_of w)) = Some t" and "verify_answer c t k now = Inr ()"
    and "revocation_error t = Some e" and "signed_record_ok t"
  shows "fst (resolve_service c tx request rng (\<lambda>_. now) k rs w) = Inl e"
    and "fst (lookup_live c tx request (\<lambda>_. now) k rs w) = Inl e"
proof -
  have succ: "successor (sr_record t) = None" using assms(6) no_retirement(1) [of t] by (cases "successor (sr_record t)") auto
  then obtain rs' w' where "fetch c tx request (\<lambda>_. now) k rs w = (Inr (Some t, None), rs', w')"
    using fetch_new [OF assms(1-5) refl assms(7), of tx] by auto
  then show "fst (resolve_service c tx request rng (\<lambda>_. now) k rs w) = Inl e"
    and "fst (lookup_live c tx request (\<lambda>_. now) k rs w) = Inl e"
    using assms(6) succ
    by (simp_all add: resolve_service_def MAX_SUPERSEDE_HOPS_def eval_nat_numeral lookup_live_def lookup_def key_retirement_error_def)
qed

end

section \<open>The wire\<close>

text \<open>
  One client's requests to a server it can reach: the pooled connection if there is one, a new one
  otherwise, and on it an exchange of bytes that the server serves. The state is the pool of the
  client and the server.
\<close>

definition wire_requests ::
  "'v verifier_scheme \<Rightarrow> ('l, unit) env \<Rightarrow> resolver_config \<Rightarrow> (unit option list \<times> 'l server \<times> unit) requests" where
  "wire_requests c en config =
     request_server (\<lambda>_ _ _ _ s. (Inr (), s)) (\<lambda>_. exchange (\<lambda>s. (Inr (), s)) (serve_talk c en)) config"

lemma exchange_delivers:
  assumes "request_ok q" and "handle c en (clamped q) sv () = (resp, sv', pushes, ())"
    and "response_ok resp" and "\<not> is_batch resp"
  shows "exchange (\<lambda>s. (Inr (), s)) (serve_talk c en) q (sv, ()) = (Inr resp, sv', ())"
proof -
  obtain x where "response_write_to resp = Inr x"
    using length_response_payload [OF assms(3,4)] by (auto simp: response_write_to_def write_frame_ok)
  then show ?thesis using wire_exchange [OF assms(1-3)] by simp
qed

interpretation wire: server_link c en "wire_requests c en config" "\<lambda>w. fst (snd w)" "\<lambda>w. fst w \<noteq> []"
  for c :: "'v verifier_scheme" and en :: "('l, unit) env" and config
proof
  fix w :: "unit option list \<times> 'l server \<times> unit" and q resp sv pushes
  assume "fst w \<noteq> []" and a: "request_ok q" "handle c en (clamped q) (fst (snd w)) () = (resp, sv, pushes, ())"
    "response_ok resp" "\<not> is_batch resp"
  then obtain x xs sv0 where w: "w = (x # xs, sv0, ())" by (cases w) (auto simp: neq_Nil_conv)
  have "exchange (\<lambda>s. (Inr (), s)) (serve_talk c en) q (sv0, ()) = (Inr resp, sv, ())"
    using exchange_delivers [OF a(1) _ a(3,4)] a(2) by (simp add: w)
  then show "\<exists>w'. wire_requests c en config 0 q w = (Inr resp, w') \<and> fst (snd w') = sv \<and> fst w' \<noteq> []"
    by (cases x) (simp_all add: w wire_requests_def request_server_def)
qed

lemma wire_publish:
  assumes "admissible c now r" and "wins r (sv_store sv)" and "\<And>n. en_clock en n = now"
    and "rc_servers (rs_config rs) = [a]" and "verify_answer c r (sr_key r) now = Inr ()" and "signed_record_ok r"
  obtains conns where "publish c tx (wire_requests c en (rs_config rs)) now r rs ([None], sv, ()) =
    (Inr (rec_serial (sr_record r)), rs\<lparr>rs_cache := invalidate (sr_key r) (rs_cache rs)\<rparr>,
     conns, sv\<lparr>sv_store := put_result r (sv_store sv)\<rparr>, ())"
proof -
  have "put c (en_clock en 0) r (sv_store sv) = (Inr Stored, put_result r (sv_store sv))"
    using assms(1,2) by (simp add: put_stored_iff assms(3))
  then show thesis
    using wire.publish_stored [of "([None], sv, ())" rs a c r now en "put_result r (sv_store sv)" tx "rs_config rs"] assms(4-6) that
    by auto
qed

section \<open>Publishing and resolving\<close>

text \<open>
  C4. What is published can be resolved. A publisher whose record wins at the server is confirmed, and a
  client that starts with nothing but the server's address and the service key gets, as long as the
  record is in time, exactly the published endpoints in some order, the key and the
  identity behind it. Every request goes over the wire.
\<close>

theorem publish_then_resolve:
  assumes "ed25519_correct c" and "can_publish c now eps pb" and "pb_sign c now eps pb = (Inr r, pb')"
    and "signed_record_ok r" and "wins r (sv_store sv)" and "\<And>n. en_clock en n = now" and "rc_servers (rs_config rs) = [a]"
    and "resolver_new config = Inr rs2" and "rc_servers config = [a2]" and "\<And>n. en_clock en2 n = now2"
    and "timely (sr_record r) now2"
  shows "\<exists>rs' conns sv' loc.
    publish_endpoints c tx (wire_requests c en (rs_config rs)) (\<lambda>_. now) eps pb rs ([None], sv, ()) =
      (Inr (rec_serial (sr_record r)), pb', rs', conns, sv', ()) \<and>
    fst (resolve_service c tx2 (wire_requests c en2 config) rng (\<lambda>_. now2) (pb_key c pb) rs2 ([None], sv', ())) = Inr loc \<and>
    sl_key loc = pb_key c pb \<and> sl_identity loc = pb_identity pb \<and>
    mset (sl_endpoints loc) = mset eps \<and> sl_superseded_from loc = []"
proof -
  let ?k = "pb_key c pb" and ?st = "put_result r (sv_store sv)"
  obtain r' where "pb_sign c now eps pb = (Inr r', pb\<lparr>pb_serial := pb_serial pb + 1\<rparr>)"
    and "sr_record r' = record_live now ?k (pb_delegation pb) (pb_serial pb) (pb_ttl pb) eps"
    and "sr_key r' = ?k" and "sr_identity r' = pb_identity pb" and "\<not> is_terminal (sr_record r')"
    and "admissible c now r'" and "verify_answer c r' ?k now = Inr ()"
    by (rule can_publish_sign [OF assms(1,2)])
  with assms(3) have r: "sr_record r = record_live now ?k (pb_delegation pb) (pb_serial pb) (pb_ttl pb) eps"
    "sr_key r = ?k" "sr_identity r = pb_identity pb" "\<not> is_terminal (sr_record r)" "admissible c now r"
    "verify_answer c r ?k now = Inr ()" by auto
  have v: "verify_answer c r (sr_key r) now = Inr ()" using r(2,6) by simp
  obtain conns where pub: "publish c tx (wire_requests c en (rs_config rs)) now r rs ([None], sv, ()) =
      (Inr (rec_serial (sr_record r)), rs\<lparr>rs_cache := invalidate (sr_key r) (rs_cache rs)\<rparr>, conns, sv\<lparr>sv_store := ?st\<rparr>, ())"
    by (rule wire_publish [OF r(5) assms(5,6,7) v assms(4)])
  have "get now2 ?k ?st = Some r"
    using assms(11) r(2,4) by (simp add: get_held held_put_result timely_def)
  moreover have "verify_answer c r ?k now2 = Inr ()"
    using r(6) assms(11) by (simp add: verify_answer_chain)
  ultimately have loc: "fst (resolve_service c tx2 (wire_requests c en2 config) rng (\<lambda>_. now2) ?k rs2 ([None], sv\<lparr>sv_store := ?st\<rparr>, ())) =
      Inr \<lparr>sl_requested = ?k, sl_key = ?k, sl_identity = sr_identity r, sl_endpoints = order_with (sr_record r) rng, sl_superseded_from = []\<rparr>"
    using wire.resolve_live [OF _ assms(8,9), of "([None], sv\<lparr>sv_store := ?st\<rparr>, ())" en2 ?k r] r(4) assms(4)
    by (simp add: assms(10))
  have "endpoints (sr_record r) = eps" by (simp add: r(1) endpoints_def record_live_def)
  then show ?thesis
    using loc pub assms(3) r(3) mset_order_with [of "sr_record r" rng] by (auto simp: publish_endpoints_def)
qed

lemma live_sample_ok: "signed_record_ok (live i k n t l [v4_endpoint p])"
proof -
  let ?r = "live i k n t l [v4_endpoint p]"
  have "endpoint_ok (v4_endpoint p)" by (simp add: endpoint_ok_def v4_endpoint_def endpoint_new_def)
  then have "record_ok (sr_record ?r)"
    by (simp add: record_ok_def delegation_ok_def live_def)
  moreover have "length (record_encode (sr_record ?r)) \<le> 65535"
    by (simp add: record_encode_eq delegation_encode_into_eq live_def endpoint_encode_into_eq v4_endpoint_def endpoint_new_def)
  ultimately show ?thesis by (simp add: signed_record_ok_def) (simp add: live_def)
qed

theorem publish_then_resolve_witness:
  "\<exists>pb rs' conns sv' loc.
    publish_endpoints toy_ed25519 publisher_texts (wire_requests toy_ed25519 (publisher_env 1100) (rs_config publisher_resolver)) (\<lambda>_. 1100)
      [v4_endpoint 5300] sample_publisher publisher_resolver ([None], publisher_server (store_new None), ()) = (Inr 3, pb, rs', conns, sv', ()) \<and>
    fst (resolve_service toy_ed25519 publisher_texts (wire_requests toy_ed25519 (publisher_env 1200) (rs_config publisher_resolver))
      (\<lambda>_ _. 0) (\<lambda>_. 1200) (key_n 2) publisher_resolver ([None], sv', ())) = Inr loc \<and>
    sl_endpoints loc = [v4_endpoint 5300]"
proof -
  let ?r = "live 1 2 3 1100 300 [v4_endpoint 5300]"
  have c: "can_publish toy_ed25519 1100 [v4_endpoint 5300] sample_publisher" by (rule sample_can_publish) simp_all
  have s: "pb_sign toy_ed25519 1100 [v4_endpoint 5300] sample_publisher = (Inr ?r, sample_publisher\<lparr>pb_serial := 4\<rparr>)"
    by (rule can_publish_sign [OF toy_ed25519_correct c])
      (auto simp: pb_sign_def record_sign_iff Let_def sample_publisher_def pb_key_def live_def toy_sign_def validate_iff)
  have w: "wins ?r (sv_store (publisher_server (store_new None)))" by (simp add: wins_def publisher_server_def store_new_def)
  have n: "resolver_new (rs_config publisher_resolver) = Inr publisher_resolver"
    by (simp add: resolver_new_def publisher_resolver_def)
  have t: "timely (sr_record ?r) 1200" by (simp add: sample_checks)
  from publish_then_resolve [OF toy_ed25519_correct c s live_sample_ok w sample_publisher_simps(6,3) n sample_publisher_simps(3,6) t,
      of publisher_texts publisher_texts "\<lambda>_ _. 0"]
  show ?thesis by (fastforce simp: sample_publisher_simps)
qed

section \<open>Rotating and revoking\<close>

lemma retired_for_good:
  assumes "store_inv c st" and "admissible c now t" and "wins t st" and "is_terminal (sr_record t)"
    and "rtranclp (store_step c) (put_result t st) st'"
  shows "held st' (sr_key t) = Some t"
  using store_run_terminal [OF assms(5) store_inv_put_result [OF assms(1-3)] _ assms(4)] by (simp add: held_put_result)

lemma retirement_record_ok:
  assumes "ed25519_correct c" and "rec_key (sr_record r) = k" and "pubkey_ok k"
    and "rec_delegation (sr_record r) = retirement_delegation c now identity k"
    and "length (sr_signature r) = 64" and "body_ok (rec_body (sr_record r))" and "length (body_encode (rec_body (sr_record r))) \<le> 1000"
  shows "signed_record_ok r"
proof -
  have d: "delegation_ok (retirement_delegation c now identity k)"
    using public_of_ok [OF assms(1)] by (simp add: delegation_ok_def retirement_delegation_def ed25519_correctD [OF assms(1)])
  then have "length (delegation_encode_into (retirement_delegation c now identity k) []) = 104"
    by (simp add: delegation_encode_into_eq delegation_ok_def pubkey_ok_def)
  then have "length (record_encode (sr_record r)) \<le> 65535"
    using assms(2-4,7) by (simp add: record_encode_eq pubkey_ok_def)
  with d assms show ?thesis by (simp add: signed_record_ok_def record_ok_def)
qed

lemma body_encode_short:
  "length reason \<le> 256 \<Longrightarrow> pubkey_ok k \<Longrightarrow> length (body_encode (Superseded k reason)) \<le> 1000"
  "length reason \<le> 256 \<Longrightarrow> length (body_encode (Revoked reason)) \<le> 1000"
  by (simp_all add: put_string_def pubkey_ok_def)

text \<open>A retirement by the identity behind a live record is published over the wire and stays.\<close>

lemma wire_retirement:
  assumes "ed25519_correct c" and "store_inv c (sv_store sv)" and "unat now + 7776000 < 2 ^ 64"
    and "held (sv_store sv) k = Some h" and "\<not> is_terminal (sr_record h)" and "sr_identity h = public_of c identity"
    and "rec_key R = k" and "rec_delegation R = retirement_delegation c now identity k"
    and "rec_issued_at R = now" and "is_terminal R" and "body_valid c R (rec_body R)"
    and "pubkey_ok k" and "body_ok (rec_body R)" and "length (body_encode (rec_body R)) \<le> 1000"
    and "\<And>n. en_clock en n = now" and "rc_servers (rs_config rs) = [a]"
  obtains t rs' conns sv' where "record_sign c R identity = Inr t" and "sr_record t = R" and "sr_key t = k"
    and "\<And>x. verify_answer c t k x = Inr ()" and "signed_record_ok t"
    and "publish c tx (wire_requests c en (rs_config rs)) now t rs ([None], sv, ()) = (Inr (rec_serial R), rs', conns, sv', ())"
    and "\<And>st. rtranclp (store_step c) (sv_store sv') st \<Longrightarrow> held st k = Some t"
    and "\<And>j. j \<noteq> k \<Longrightarrow> held (sv_store sv') j = held (sv_store sv) j"
proof -
  obtain t where sg: "record_sign c R identity = Inr t" and t: "sr_record t = R" "length (sr_signature t) = 64"
    and key: "sr_key t = k" and adm: "admissible c now t" and win: "wins t (sv_store sv)"
    and v: "\<And>x. verify_answer c t k x = Inr ()"
    by (rule retirement_signed [OF assms(1-11)]) blast
  have ok: "signed_record_ok t"
    using assms(7,8,12-14) t by (intro retirement_record_ok [OF assms(1), of t k now identity]) simp_all
  let ?sv = "sv\<lparr>sv_store := put_result t (sv_store sv)\<rparr>"
  have vt: "verify_answer c t (sr_key t) now = Inr ()" using v key by simp
  obtain conns where pub: "publish c tx (wire_requests c en (rs_config rs)) now t rs ([None], sv, ()) =
      (Inr (rec_serial (sr_record t)), rs\<lparr>rs_cache := invalidate (sr_key t) (rs_cache rs)\<rparr>, conns, ?sv, ())"
    by (rule wire_publish [OF adm win assms(15,16) vt ok])
  have "held st k = Some t" if "rtranclp (store_step c) (sv_store ?sv) st" for st
    using retired_for_good [OF assms(2) adm win] that t(1) assms(10) key by simp
  moreover have "held (sv_store ?sv) j = held (sv_store sv) j" if "j \<noteq> k" for j
    using that key by (simp add: held_put_result)
  ultimately show thesis using that [OF sg t(1) key v ok] pub t(1) by simp
qed

text \<open>
  C5. A rotation is followed. When the identity of a key that the server holds a live record of has run
  \<open>supersede\<close>, then from that moment on, whatever the server is sent and however often it purges,
  a client that only knows the old key is led to the new one as long as a live record of the new one is held:
  it gets the new key, its identity and its endpoints, and is told that it asked for a retired key.
  No other key is touched.
\<close>

theorem rotate_then_resolve:
  assumes "ed25519_correct c" and "store_inv c (sv_store sv)" and "\<And>n. en_clock en n = now" and "unat now + 7776000 < 2 ^ 64"
    and "length reason \<le> 256" and "utf8_valid reason"
    and "build_resolver kc env args fs = Inr rs" and "rc_servers (rs_config rs) = [a]"
    and "load_key kc identity_path (lit ''sqns keygen --identity'') fs = Inr identity"
    and "read_pubkey c kc old_key fs = Inr k" and "read_pubkey c kc new_key fs = Inr k'" and "k' \<noteq> k" and "vk_ok c (as_bytes k')"
    and "held (sv_store sv) k = Some h" and "\<not> is_terminal (sr_record h)" and "sr_identity h = public_of c identity"
    and "resolver_new config = Inr rs2" and "rc_servers config = [a2]" and "\<And>n. en_clock en2 n = now2"
  shows "\<exists>conns sv'.
    supersede c kc tx (wire_requests c en) (\<lambda>_. now) env args old_key new_key identity_path reason fs ([None], sv, ()) =
      (Inr (), conns, sv', ()) \<and>
    (\<forall>j. j \<noteq> k \<longrightarrow> held (sv_store sv') j = held (sv_store sv) j) \<and>
    (\<forall>sv2 r. rtranclp (store_step c) (sv_store sv') (sv_store sv2) \<and> held (sv_store sv2) k' = Some r \<and>
        \<not> is_terminal (sr_record r) \<and> verify_answer c r k' now2 = Inr () \<and> signed_record_ok r \<longrightarrow>
      fst (resolve_service c tx2 (wire_requests c en2 config) rng (\<lambda>_. now2) k rs2 ([None], sv2, ())) =
        Inr \<lparr>sl_requested = k, sl_key = k', sl_identity = sr_identity r,
             sl_endpoints = order_with (sr_record r) rng, sl_superseded_from = [k]\<rparr>)"
proof -
  let ?R = "record_superseded now k (retirement_delegation c now identity k) now k' reason"
  have k: "pubkey_ok k" "pubkey_ok k'" using read_pubkey_ok [OF assms(1)] assms(10,11) by auto
  have R: "rec_key ?R = k" "rec_delegation ?R = retirement_delegation c now identity k" "rec_issued_at ?R = now"
    "is_terminal ?R" "body_valid c ?R (rec_body ?R)" using assms(5,12,13) by (simp_all add: is_terminal_iff)
  have B: "body_ok (rec_body ?R)" "length (body_encode (rec_body ?R)) \<le> 1000"
    using body_encode_short(1) [OF assms(5) k(2)] assms(5,6) k(2) by (simp_all add: string_ok_def)
  obtain t rs' conns sv' where sg: "record_sign c ?R identity = Inr t" and t: "sr_record t = ?R" "sr_key t = k"
    and v: "\<And>x. verify_answer c t k x = Inr ()" and ok: "signed_record_ok t"
    and pub: "publish c tx (wire_requests c en (rs_config rs)) now t rs ([None], sv, ()) = (Inr (rec_serial ?R), rs', conns, sv', ())"
    and held: "\<And>st. rtranclp (store_step c) (sv_store sv') st \<Longrightarrow> held st k = Some t"
    and others: "\<And>j. j \<noteq> k \<Longrightarrow> held (sv_store sv') j = held (sv_store sv) j"
    by (rule wire_retirement [OF assms(1,2,4,14-16) R k(1) B assms(3,8)]) blast
  have succ: "successor (sr_record t) = Some k'" by (simp add: t(1) successor_def)
  have "fst (resolve_service c tx2 (wire_requests c en2 config) rng (\<lambda>_. now2) k rs2 ([None], sv2, ())) =
      Inr \<lparr>sl_requested = k, sl_key = k', sl_identity = sr_identity r,
           sl_endpoints = order_with (sr_record r) rng, sl_superseded_from = [k]\<rparr>"
    if "rtranclp (store_step c) (sv_store sv') (sv_store sv2)" "held (sv_store sv2) k' = Some r"
      "\<not> is_terminal (sr_record r)" "verify_answer c r k' now2 = Inr ()" "signed_record_ok r" for sv2 r
    using wire.resolve_rotated [OF _ assms(17,18), of "([None], sv2, ())" en2 k t c now2 k' r] held [OF that(1)] that(2-5)
      v succ assms(12) ok t(1) R(4)
    by (simp add: assms(19) get_held verify_answer_chain timely_def)
  moreover have "supersede c kc tx (wire_requests c en) (\<lambda>_. now) env args old_key new_key identity_path reason fs ([None], sv, ()) = (Inr (), conns, sv', ())"
    using assms(7,9-11) sg pub by (simp add: supersede_def)
  ultimately show ?thesis using others by (intro exI [of _ conns] exI [of _ sv']) blast
qed

text \<open>A server that holds a revocation of a key.\<close>

lemma wire_dead_key:
  assumes "held (sv_store sv) k = Some t" and "is_terminal (sr_record t)" and "\<And>x. verify_answer c t k x = Inr ()"
    and "signed_record_ok t" and "revocation_error t = Some e"
    and "resolver_new config = Inr rs" and "rc_servers config = [a]" and "\<And>e. string_ok (show_error (en_texts en) e)"
  shows "fst (resolve_service c tx (wire_requests c en config) rng (\<lambda>_. now) k rs ([None], sv, ())) = Inl e"
    and "fst (lookup_live c tx (wire_requests c en config) (\<lambda>_. now) k rs ([None], sv, ())) = Inl e"
    and "signed_record_ok r \<Longrightarrow> sr_key r = k \<Longrightarrow>
      \<exists>e' rs' conns. publish c tx (wire_requests c en config) now r rs ([None], sv, ()) = (Inl e', rs', conns, sv, ())"
proof -
  have "get (en_clock en 0) k (sv_store sv) = Some t" using assms(1,2) by (simp add: get_held)
  then show "fst (resolve_service c tx (wire_requests c en config) rng (\<lambda>_. now) k rs ([None], sv, ())) = Inl e"
    and "fst (lookup_live c tx (wire_requests c en config) (\<lambda>_. now) k rs ([None], sv, ())) = Inl e"
    using wire.resolve_revoked [OF _ assms(6,7), of "([None], sv, ())" en k t c now e] assms(3-5) by simp_all
  have rs: "rc_servers (rs_config rs) = [a]" using assms(6,7) by (auto simp: resolver_new_def split: if_splits)
  assume r: "signed_record_ok r" "sr_key r = k"
  obtain x where "put c (en_clock en 0) r (sv_store sv) = (Inl x, sv_store sv)"
    using put_retired [of "sv_store sv" r t c "en_clock en 0"] assms(1,2) r(2) by auto
  then show "\<exists>e' rs' conns. publish c tx (wire_requests c en config) now r rs ([None], sv, ()) = (Inl e', rs', conns, sv, ())"
    using wire.publish_refused [of "([None], sv, ())" rs a r c en x tx config now] rs r(1) assms(8) by auto
qed

text \<open>
  C6. A revoked key is dead. When the identity of a key that the server holds a live record of has run
  \<open>revoke\<close> on it, then from that moment on, whatever the server is sent and however often it purges,
  resolving the key and looking it up for a connection fail, at any time, with the revocation
  and its reason, and no record for that key can be published again: the client gets an error and the
  server is unchanged. No other key is touched.
\<close>

theorem revoked_key_is_dead:
  assumes "ed25519_correct c" and "store_inv c (sv_store sv)" and "\<And>n. en_clock en n = now" and "unat now + 7776000 < 2 ^ 64"
    and "length reason \<le> 256" and "utf8_valid reason"
    and "build_resolver kc env args fs = Inr rs" and "rc_servers (rs_config rs) = [a]"
    and "load_key kc identity_path (lit ''sqns keygen --identity'') fs = Inr identity"
    and "read_pubkey c kc key_arg fs = Inr k" and "yes \<or> trim answer = lit ''revoke''"
    and "held (sv_store sv) k = Some h" and "\<not> is_terminal (sr_record h)" and "sr_identity h = public_of c identity"
    and "resolver_new config = Inr rs2" and "rc_servers config = [a2]" and "\<And>e. string_ok (show_error (en_texts en2) e)"
    and "e = E_Revoked (as_bytes k) None (if reason = [] then lit ''no reason given'' else reason)"
  shows "\<exists>conns sv'.
    revoke c kc tx (wire_requests c en) (\<lambda>_. now) env args (Some key_arg) False identity_path reason yes answer fs ([None], sv, ()) =
      (Inr (), conns, sv', ()) \<and>
    (\<forall>j. j \<noteq> k \<longrightarrow> held (sv_store sv') j = held (sv_store sv) j) \<and>
    (\<forall>sv2 now2 r. rtranclp (store_step c) (sv_store sv') (sv_store sv2) \<longrightarrow>
      fst (resolve_service c tx2 (wire_requests c en2 config) rng (\<lambda>_. now2) k rs2 ([None], sv2, ())) = Inl e \<and>
      fst (lookup_live c tx2 (wire_requests c en2 config) (\<lambda>_. now2) k rs2 ([None], sv2, ())) = Inl e \<and>
      (signed_record_ok r \<and> sr_key r = k \<longrightarrow>
        (\<exists>e' rs' conns. publish c tx2 (wire_requests c en2 config) now2 r rs2 ([None], sv2, ()) = (Inl e', rs', conns, sv2, ()))))"
proof -
  let ?R = "record_revoked now k (retirement_delegation c now identity k) now reason"
  have k: "pubkey_ok k" using read_pubkey_ok [OF assms(1)] assms(10) by auto
  have R: "rec_key ?R = k" "rec_delegation ?R = retirement_delegation c now identity k" "rec_issued_at ?R = now"
    "is_terminal ?R" "body_valid c ?R (rec_body ?R)" using assms(5) by (simp_all add: is_terminal_iff)
  have B: "body_ok (rec_body ?R)" "length (body_encode (rec_body ?R)) \<le> 1000"
    using body_encode_short(2) [OF assms(5)] assms(5,6) by (simp_all add: string_ok_def)
  obtain t rs' conns sv' where sg: "record_sign c ?R identity = Inr t" and t: "sr_record t = ?R" "sr_key t = k"
    and v: "\<And>x. verify_answer c t k x = Inr ()" and ok: "signed_record_ok t"
    and pub: "publish c tx (wire_requests c en (rs_config rs)) now t rs ([None], sv, ()) = (Inr (rec_serial ?R), rs', conns, sv', ())"
    and held: "\<And>st. rtranclp (store_step c) (sv_store sv') st \<Longrightarrow> held st k = Some t"
    and others: "\<And>j. j \<noteq> k \<Longrightarrow> held (sv_store sv') j = held (sv_store sv) j"
    by (rule wire_retirement [OF assms(1,2,4,12-14) R k B assms(3,8)]) blast
  have e: "is_terminal (sr_record t)" "revocation_error t = Some e"
    using t(1) R(4) assms(18) by (simp_all add: revocation_error_def)
  have "revoke c kc tx (wire_requests c en) (\<lambda>_. now) env args (Some key_arg) False identity_path reason yes answer fs ([None], sv, ()) =
      (Inr (), conns, sv', ())"
    using assms(7,9-11) sg pub by (auto simp: revoke_def revoke_targets_def)
  then show ?thesis
    using others wire_dead_key [OF held e(1) v ok e(2) assms(15-17)]
    by (intro exI [of _ conns] exI [of _ sv']) blast
qed

section \<open>A rotation and a revocation, for the witnesses\<close>

definition rotation_store :: store where
  "rotation_store = snd (put toy_ed25519 1010 (live 1 3 1 1010 300 [v4_endpoint 5300]) store_live)"

lemma rotation_store_facts:
  "store_inv seed_ed25519 rotation_store"
  "held rotation_store (key_n 2) = Some (live 1 2 5 1000 300 [v4_endpoint 5300])"
  "held rotation_store (key_n 3) = Some (live 1 3 1 1010 300 [v4_endpoint 5300])"
proof -
  let ?r = "live 1 3 1 1010 300 [v4_endpoint 5300]"
  show "store_inv seed_ed25519 rotation_store"
    by (simp add: store_inv_seed rotation_store_def put_inv store_inv_samples)
  have "put toy_ed25519 1010 ?r store_live = (Inr Stored, put_result ?r store_live)"
    by (simp add: put_stored_iff sample_checks wins_def)
  then show "held rotation_store (key_n 2) = Some (live 1 2 5 1000 300 [v4_endpoint 5300])"
    and "held rotation_store (key_n 3) = Some ?r" by (simp_all add: rotation_store_def held_put_result)
qed

lemma sample_read_pubkey: "read_pubkey seed_ed25519 toy_codecs (to_base58 toy_codecs (key_n n)) fs = Inr (key_n n)"
  using pubkey_from_base58 [OF toy_codecs_correct pubkey_ok_key_n] by (simp add: read_pubkey_def)

theorem rotate_then_resolve_witness:
  "\<exists>conns sv'.
    supersede seed_ed25519 toy_codecs publisher_texts (wire_requests seed_ed25519 (publisher_env 1100)) (\<lambda>_. 1100) sample_cli_env sample_args
      (to_base58 toy_codecs (key_n 2)) (to_base58 toy_codecs (key_n 3)) sample_id_path (lit ''moved'') sample_files
      ([None], publisher_server rotation_store, ()) = (Inr (), conns, sv', ()) \<and>
    fst (resolve_service seed_ed25519 publisher_texts (wire_requests seed_ed25519 (publisher_env 1200) (rs_config publisher_resolver))
      (\<lambda>_ _. 0) (\<lambda>_. 1200) (key_n 2) publisher_resolver ([None], sv', ())) =
    Inr \<lparr>sl_requested = key_n 2, sl_key = key_n 3, sl_identity = key_n 1, sl_endpoints = [v4_endpoint 5300], sl_superseded_from = [key_n 2]\<rparr>"
proof -
  let ?h = "live 1 2 5 1000 300 [v4_endpoint 5300]" and ?r = "live 1 3 1 1010 300 [v4_endpoint 5300]"
  obtain rs where rs: "build_resolver toy_codecs sample_cli_env sample_args sample_files = Inr rs"
    "rc_servers (rs_config rs) = [sample_addr]" by (rule sample_resolver)
  have inv: "store_inv seed_ed25519 (sv_store (publisher_server rotation_store))"
    and h: "held (sv_store (publisher_server rotation_store)) (key_n 2) = Some ?h"
    by (simp_all add: sample_publisher_simps rotation_store_facts)
  have n: "resolver_new (rs_config publisher_resolver) = Inr publisher_resolver"
    by (simp add: resolver_new_def publisher_resolver_def)
  have v: "verify_answer seed_ed25519 ?r (key_n 3) 1200 = Inr ()" by (simp add: verify_answer_iff sample_checks)
  have o: "order_with (sr_record ?r) (\<lambda>_ _. 0) = [v4_endpoint 5300]"
    using mset_order_with [of "sr_record ?r" "\<lambda>_ _. 0"] by (simp add: endpoints_def)
  have "utf8_valid (lit ''moved'')" by (simp add: lit_def)
  then obtain conns sv' where run: "supersede seed_ed25519 toy_codecs publisher_texts (wire_requests seed_ed25519 (publisher_env 1100)) (\<lambda>_. 1100) sample_cli_env sample_args
      (to_base58 toy_codecs (key_n 2)) (to_base58 toy_codecs (key_n 3)) sample_id_path (lit ''moved'') sample_files
      ([None], publisher_server rotation_store, ()) = (Inr (), conns, sv', ())"
    and keep: "held (sv_store sv') (key_n 3) = held (sv_store (publisher_server rotation_store)) (key_n 3)"
    and res: "\<And>sv2 r. rtranclp (store_step seed_ed25519) (sv_store sv') (sv_store sv2) \<and> held (sv_store sv2) (key_n 3) = Some r \<and>
        \<not> is_terminal (sr_record r) \<and> verify_answer seed_ed25519 r (key_n 3) 1200 = Inr () \<and> signed_record_ok r \<Longrightarrow>
      fst (resolve_service seed_ed25519 publisher_texts (wire_requests seed_ed25519 (publisher_env 1200) (rs_config publisher_resolver))
        (\<lambda>_ _. 0) (\<lambda>_. 1200) (key_n 2) publisher_resolver ([None], sv2, ())) =
      Inr \<lparr>sl_requested = key_n 2, sl_key = key_n 3, sl_identity = sr_identity r,
        sl_endpoints = order_with (sr_record r) (\<lambda>_ _. 0), sl_superseded_from = [key_n 2]\<rparr>"
    using rotate_then_resolve [OF seed_ed25519_correct inv sample_publisher_simps(6) _ _ _ rs sample_load_key
        sample_read_pubkey [of 2] sample_read_pubkey [of 3] _ _ h _ _ n sample_publisher_simps(3,6),
        where reason = "lit ''moved''" and tx = publisher_texts and ?tx2.0 = publisher_texts and rng = "\<lambda>_ _. 0" and now = 1100 and ?now2.0 = 1200]
    by (auto simp: lit_def)
  have "held (sv_store sv') (key_n 3) = Some ?r" using keep by (simp add: sample_publisher_simps rotation_store_facts)
  with run res [of sv' ?r] v o live_sample_ok show ?thesis by auto
qed

theorem revoked_key_is_dead_witness:
  "\<exists>conns sv'.
    revoke seed_ed25519 toy_codecs publisher_texts (wire_requests seed_ed25519 (publisher_env 1100)) (\<lambda>_. 1100) sample_cli_env sample_args
      (Some (to_base58 toy_codecs (key_n 2))) False sample_id_path (lit ''stolen'') True [] sample_files
      ([None], publisher_server rotation_store, ()) = (Inr (), conns, sv', ()) \<and>
    fst (resolve_service seed_ed25519 publisher_texts (wire_requests seed_ed25519 (publisher_env 1200) (rs_config publisher_resolver))
      (\<lambda>_ _. 0) (\<lambda>_. 99999) (key_n 2) publisher_resolver ([None], sv', ())) =
    Inl (E_Revoked (replicate 32 2) None (lit ''stolen''))"
proof -
  let ?h = "live 1 2 5 1000 300 [v4_endpoint 5300]"
  obtain rs where rs: "build_resolver toy_codecs sample_cli_env sample_args sample_files = Inr rs"
    "rc_servers (rs_config rs) = [sample_addr]" by (rule sample_resolver)
  have inv: "store_inv seed_ed25519 (sv_store (publisher_server rotation_store))"
    and h: "held (sv_store (publisher_server rotation_store)) (key_n 2) = Some ?h"
    by (simp_all add: sample_publisher_simps rotation_store_facts)
  have n: "resolver_new (rs_config publisher_resolver) = Inr publisher_resolver"
    by (simp add: resolver_new_def publisher_resolver_def)
  have m: "string_ok (show_error (en_texts (publisher_env 1200)) e)" for e
    by (simp add: publisher_env_def string_ok_def)
  obtain conns sv' where run: "revoke seed_ed25519 toy_codecs publisher_texts (wire_requests seed_ed25519 (publisher_env 1100)) (\<lambda>_. 1100) sample_cli_env sample_args
      (Some (to_base58 toy_codecs (key_n 2))) False sample_id_path (lit ''stolen'') True [] sample_files
      ([None], publisher_server rotation_store, ()) = (Inr (), conns, sv', ())"
    and res: "\<And>sv2. rtranclp (store_step seed_ed25519) (sv_store sv') (sv_store sv2) \<Longrightarrow>
      fst (resolve_service seed_ed25519 publisher_texts (wire_requests seed_ed25519 (publisher_env 1200) (rs_config publisher_resolver))
        (\<lambda>_ _. 0) (\<lambda>_. 99999) (key_n 2) publisher_resolver ([None], sv2, ())) =
      Inl (E_Revoked (replicate 32 2) None (lit ''stolen''))"
    using revoked_key_is_dead [OF seed_ed25519_correct inv sample_publisher_simps(6) _ _ _ rs sample_load_key
        sample_read_pubkey [of 2] _ h _ _ n sample_publisher_simps(3) m refl,
        where reason = "lit ''stolen''" and yes = True and answer = "[]" and tx = publisher_texts and ?tx2.0 = publisher_texts
          and rng = "\<lambda>_ _. 0" and now = 1100]
    by (auto simp: lit_def)
  with res [of sv'] show ?thesis by blast
qed

end
