(* ===== verification/Spec2Isabelle.thy ===== *)
theory Spec2Isabelle
  imports Record_Props Store_Props Interleaving Server_Props Protocol_Props Replication_Props Resolver_Props Addr Select
    Registry End_To_End
begin

text \<open>
  \<^bold>\<open>Verification of sqns\<close>, a name service that maps a public key to signed network endpoints.

  \<^bold>\<open>The program.\<close> A service key publishes short-lived records (its endpoints), each carrying a delegation
  from an identity key; the identity can retire a service key for good, by revoking it or by naming a
  successor. Servers keep the best record they have seen of every key, pin a key to the identity it
  was first seen under, replicate among peers and relay questions upstream; clients trust no server
  and check every answer. The source has four crates: \<open>sqns-core\<close> (keys, records, wire format),
  \<open>sqns-client\<close> (resolver, publisher, connections), \<open>sqnsd\<close> (the server) and \<open>sqns\<close> (the command line).

  \<^bold>\<open>Which theory models which file\<close> (all files under \<open>src/crates/\<close>; definitions carry the names of the
  functions they translate, with a prefix where two files use the same name).

  \<^item> \<open>Prelude\<close>, \<open>Samples\<close>: machine integers, big-endian bytes, hash maps as association lists with
    distinct keys, the result type; concrete keys and records for the witnesses. \<open>Errors\<close>:
    \<open>sqns-core/src/error.rs\<close>; a formatted message is kept as its template and arguments.
  \<^item> \<open>Codec\<close>: \<open>codec.rs\<close>, the reader and the writers, with the locale \<open>wire_codec\<close> (an encoder and a decoder
    that are inverse and canonical), which every record and message format interprets.
  \<^item> \<open>Key\<close>, \<open>Key_Text\<close>, \<open>Key_File\<close>: \<open>key.rs\<close>. Ed25519 (crate \<open>ed25519-dalek\<close>) and the base58 and hex codecs
    are records of functions, arguments of the operations, with their documented behaviour as the
    hypotheses \<open>ed25519_correct\<close>, \<open>unforgeable\<close> and \<open>key_codecs_correct\<close>. Files are a map from paths to
    contents and modes; saving a key is a list of system calls.
  \<^item> \<open>Records\<close>, \<open>Record_Codec\<close>, \<open>Record_Auth\<close>, \<open>Record_Props\<close>, \<open>Text\<close>, \<open>Ip\<close>, \<open>Addr\<close>: \<open>record.rs\<close> and \<open>addr.rs\<close>, with
    the parts of \<open>str\<close> and \<open>std::net\<close> that the parsers use.
  \<^item> \<open>Protocol\<close>, \<open>Protocol_Props\<close>: \<open>protocol.rs\<close>.
  \<^item> \<open>Store\<close>, \<open>Store_Props\<close>, \<open>Interleaving\<close>, \<open>Snapshot\<close>: \<open>sqnsd/src/store.rs\<close>. A store is a record of its three
    maps, its path and its revision. \<open>put\<close> is the composition of its two critical sections
    \<open>put_locked\<close> and \<open>put_finish\<close>; \<open>Interleaving\<close> runs them one by one as a step relation. The
    snapshot is written by a list of file operations that a crash can cut short.
  \<^item> \<open>Link\<close>, \<open>Upstream\<close>, \<open>Server\<close>, \<open>Server_Props\<close>, \<open>Replication\<close>, \<open>Replication_Props\<close>: \<open>link.rs\<close>, \<open>upstream.rs\<close>,
    \<open>server.rs\<close>, \<open>replication.rs\<close>. A handler maps a request and the server to a response, the new server and
    the records it pushes; what other machines do is a parameter that threads a world state.
  \<^item> \<open>Config\<close>, \<open>Daemon\<close>: \<open>config.rs\<close> and \<open>sqnsd/src/main.rs\<close>.
  \<^item> \<open>Typing\<close>, \<open>Serving\<close>, \<open>Registry\<close>: a server from start to stop. \<open>Typing\<close> says which states and answers are
    well-formed. \<open>Serving\<close> has \<open>bind\<close> and \<open>serve\<close> of \<open>server.rs\<close>: a state machine whose steps are a stream
    of arbitrary bytes, a round of pulls, a purge and a persist tick, and the same as a function of a list of
    events (\<open>serve\<close>, \<open>run_server\<close>). \<open>Registry\<close> is an abstract
    specification, a map of records and a map of owners, which the store implements operation by operation
    and a running server step by step; the locales \<open>simulation\<close> and \<open>simulation_chain\<close> carry the proof.
  \<^item> \<open>Cache\<close>, \<open>Select\<close>, \<open>Resolver\<close>, \<open>Resolver_Props\<close>, \<open>Publisher\<close>, \<open>Publisher_Props\<close>, \<open>Connect\<close>, \<open>Connect_Props\<close>:
    \<open>sqns-client/src\<close>: \<open>cache.rs\<close>, \<open>select.rs\<close>, \<open>resolver.rs\<close>, \<open>publisher.rs\<close>, \<open>dns.rs\<close>, \<open>conn.rs\<close>.
  \<^item> \<open>Cli\<close>, \<open>Cli_Props\<close>: \<open>sqns/src/main.rs\<close>.
  \<^item> \<open>End_To_End\<close>: clients and a server together. \<open>wire_requests\<close> composes the pooled connections of the
    resolver, the exchange, the frames and the stream handler of the server; the locale \<open>server_link\<close> states what a
    client relies on and is interpreted on it.

  Time is an argument: \<open>clock n\<close> is the \<open>n\<close>-th reading of the clock in an operation, so that an operation
  that reads it several times may see it move.

  \<^bold>\<open>What is shown.\<close> Records: encodings are canonical; a client accepts exactly the answers that are
  delegated, signed by the right key, valid and in time; under unforgeability an accepted live
  record is one its key signed. Store: \<open>put\<close> is characterised on every branch; retirements and pins
  are permanent along every run and every interleaving; replicas that saw the same records agree;
  a restart keeps the state; a crash while writing loses nothing. Server: every answer is
  verified, hop budgets shrink, a publish is confirmed exactly when stored; every run refines the
  registry and keeps to well-formed values, and a retirement outlives the process. Replication: a pull is
  safe against any peer, ends, and catches up with an honest one; two servers that pull
  from each other end with records of the same standing. Client: a resolved location is
  the end of a chain of verified rotations, answers never go back in rank, a refused publisher
  catches up, an exchange over the wire does what the handler does, DNSSEC is enforced. Command
  line: keys and delegations written to disk can be used, \<open>revoke --all\<close> revokes what it lists. End to end,
  over the wire: what is published resolves to its endpoints, a rotation is followed from the moment it is
  made, and a revoked key is dead for good, for those who look it up and for those who publish.

  \<^bold>\<open>Bounds and fuel.\<close> Integers have their width in the source; where an addition could overflow the
  code saturates, or the theorem names the bound on the clock it needs. No model uses fuel: the
  pull loop is proved to end because its cursor grows, the walk along rotations makes at most
  \<open>MAX_SUPERSEDE_HOPS\<close> steps as in the source, and every other loop runs over a list.

  \<^bold>\<open>Not modelled.\<close> Sockets, TLS and the sQUIC handshake, timers, signals, logging and printing; the
  tokio runtime, whose interleavings matter only where tasks share the store, which \<open>Interleaving\<close>
  covers; argument parsing (\<open>clap\<close>), TOML parsing (\<open>toml\<close>), the validating DNS resolver (\<open>hickory\<close>), the
  random generators; the semaphore that limits requests to upstreams, which only delays them.
\<close>

end
